(* ===== verification/Horsie_Prelude.thy ===== *)
theory Horsie_Prelude
  imports Main "HOL-Library.Word" "HOL-Library.Sublist" "HOL-Library.Multiset"
begin

text \<open>
  Shared vocabulary of the development: the widths of the machine integers, Rust's saturating
  arithmetic on them, the string operations the sources use (strings are lists of UTF-8 bytes,
  one \<^typ>\<open>char\<close> per byte, so that \<open>length\<close> is Rust's \<open>str::len\<close>), decimal printing and parsing,
  and the list operations behind the iterator chains of the sources.
\<close>

named_theorems sat_simps \<open>saturating arithmetic read through \<open>unat\<close>\<close>

type_synonym u64 = "64 word"
type_synonym u32 = "32 word"

section \<open>Saturating arithmetic\<close>

definition sat_add :: "'a::len word \<Rightarrow> 'a word \<Rightarrow> 'a word" where
  "sat_add a b = (if unat a + unat b < 2 ^ LENGTH('a) then a + b else - 1)"

definition sat_sub :: "'a::len word \<Rightarrow> 'a word \<Rightarrow> 'a word" where
  "sat_sub a b = (if b \<le> a then a - b else 0)"

definition sat_mul :: "'a::len word \<Rightarrow> 'a word \<Rightarrow> 'a word" where
  "sat_mul a b = (if unat a * unat b < 2 ^ LENGTH('a) then a * b else - 1)"

lemma unat_max_word [sat_simps]: "unat (- 1 :: 'a::len word) = 2 ^ LENGTH('a) - 1"
  by (simp add: unsigned_minus_1_eq_mask mask_eq_exp_minus_1)

lemma unat_less_len [simp]: "unat (a :: 'a::len word) < 2 ^ LENGTH('a)"
  by (rule unsigned_less)

lemma unat_sat_add [sat_simps]:
  "unat (sat_add a b :: 'a::len word) = min (2 ^ LENGTH('a) - 1) (unat a + unat b)"
  by (auto simp: sat_add_def unat_max_word unat_word_ariths)

lemma unat_sat_sub [sat_simps]: "unat (sat_sub a b) = unat a - unat b"
  by (auto simp: sat_sub_def unat_sub word_le_nat_alt)

lemma unat_sat_mul [sat_simps]:
  "unat (sat_mul a b :: 'a::len word) = min (2 ^ LENGTH('a) - 1) (unat a * unat b)"
  by (auto simp: sat_mul_def unat_max_word unat_word_ariths)

lemma unat_max [sat_simps]: "unat (max a b :: 'a::len word) = max (unat a) (unat b)"
  by (auto simp: max_def word_le_nat_alt)

lemma sat_add_commute: "sat_add a b = sat_add b a"
  by (simp add: sat_add_def add.commute)

lemma sat_add_assoc: "sat_add (sat_add a b) c = sat_add a (sat_add b (c :: 'a::len word))"
proof -
  have "1 \<le> (2 :: nat) ^ LENGTH('a)" by simp
  then have "unat (sat_add (sat_add a b) c) = unat (sat_add a (sat_add b c))"
    unfolding unat_sat_add by linarith
  then show ?thesis by (simp add: word_unat_eq_iff)
qed

lemma sat_add_0 [simp]: "sat_add 0 a = a" "sat_add a 0 = a"
  by (simp_all add: sat_add_def)

lemma sat_add_mono: "a \<le> sat_add a b"
proof -
  have "unat a \<le> 2 ^ LENGTH('a) - 1"
    using unat_less_len [of a] by linarith
  then show ?thesis by (simp add: word_le_nat_alt unat_sat_add)
qed


lemma sat_add_mono_right: "b \<le> sat_add a b"
  using sat_add_mono [of b a] by (simp add: sat_add_commute)

section \<open>Aggregation that does not depend on the order\<close>

text \<open>
  A session sums the usage of its agents in whatever order it holds them. The contract that makes
  the sum well defined: an associative and commutative operation with a neutral start value.
\<close>

locale aggregation =
  fixes combine :: "'a \<Rightarrow> 'a \<Rightarrow> 'a" and zero :: 'a
  assumes combine_assoc: "combine (combine a b) c = combine a (combine b c)"
    and combine_commute: "combine a b = combine b a"
    and combine_zero: "combine zero a = a"
begin

lemma combine_left_commute: "combine a (combine b c) = combine b (combine a c)"
  by (metis combine_assoc combine_commute)

lemma aggregate_insert:
  "x \<in> set xs \<Longrightarrow> foldr combine xs zero = combine x (foldr combine (remove1 x xs) zero)"
  by (induction xs) (auto simp: combine_left_commute)

lemma aggregate_permute:
  "mset xs = mset ys \<Longrightarrow> foldr combine xs zero = foldr combine ys zero"
proof (induction xs arbitrary: ys)
  case Nil
  then show ?case by simp
next
  case (Cons x xs)
  from Cons.prems have "set (x # xs) = set ys" by (rule mset_eq_setD)
  then have "x \<in> set ys" by auto
  moreover from Cons.prems have "mset xs = mset (remove1 x ys)"
    by (simp flip: Cons.prems)
  then have "foldr combine xs zero = foldr combine (remove1 x ys) zero" by (rule Cons.IH)
  ultimately show ?case by (simp add: aggregate_insert [of x ys])
qed

lemma aggregate_append:
  "foldr combine (xs @ ys) zero = combine (foldr combine xs zero) (foldr combine ys zero)"
  by (induction xs) (simp_all add: combine_zero combine_assoc)

end

section \<open>State rebuilt by folding journaled events\<close>

text \<open>
  Every durable part of an agent is event sourced: its state is the fold of its journal. The
  contract of one part is an invariant that holds at the start and that every admissible event
  keeps; what recovery relies on follows for any journal, at any split into snapshot and tail.
\<close>

locale event_sourced =
  fixes apply_ev :: "'s \<Rightarrow> 'e \<Rightarrow> 's" and init :: 's and inv :: "'s \<Rightarrow> bool" and ok :: "'e \<Rightarrow> bool"
  assumes inv_init: "inv init"
    and inv_step: "inv s \<Longrightarrow> ok e \<Longrightarrow> inv (apply_ev s e)"
begin

lemma inv_fold: "inv s \<Longrightarrow> \<forall>e\<in>set es. ok e \<Longrightarrow> inv (foldl apply_ev s es)"
  by (induction es arbitrary: s) (auto intro: inv_step)

lemma inv_replay: "\<forall>e\<in>set es. ok e \<Longrightarrow> inv (foldl apply_ev init es)"
  by (rule inv_fold [OF inv_init])

lemma inv_prefix: "\<forall>e\<in>set (es @ fs). ok e \<Longrightarrow> inv (foldl apply_ev init es)"
  by (rule inv_replay) simp

end

section \<open>Iterator chains\<close>

fun find_map :: "('a \<Rightarrow> 'b option) \<Rightarrow> 'a list \<Rightarrow> 'b option" where
  "find_map f [] = None"
| "find_map f (x # xs) = (case f x of None \<Rightarrow> find_map f xs | Some y \<Rightarrow> Some y)"

fun position :: "('a \<Rightarrow> bool) \<Rightarrow> 'a list \<Rightarrow> nat option" where
  "position p [] = None"
| "position p (x # xs) = (if p x then Some 0 else map_option Suc (position p xs))"

lemma find_map_None: "find_map f xs = None \<longleftrightarrow> (\<forall>x\<in>set xs. f x = None)"
  by (induction xs) (auto split: option.splits)

lemma find_map_SomeD: "find_map f xs = Some y \<Longrightarrow> \<exists>x\<in>set xs. f x = Some y"
  by (induction xs) (auto split: option.splits)

lemma find_map_append:
  "find_map f (xs @ ys) = (case find_map f xs of None \<Rightarrow> find_map f ys | Some y \<Rightarrow> Some y)"
  by (induction xs) (auto split: option.splits)

lemma position_None: "position p xs = None \<longleftrightarrow> (\<forall>x\<in>set xs. \<not> p x)"
  by (induction xs) auto

lemma position_SomeD:
  "position p xs = Some i \<Longrightarrow> i < length xs \<and> p (xs ! i) \<and> (\<forall>j<i. \<not> p (xs ! j))"
proof (induction xs arbitrary: i)
  case Nil
  then show ?case by simp
next
  case (Cons x xs)
  then show ?case by (cases i) (auto split: if_splits simp: less_Suc_eq_0_disj)
qed

lemma position_append:
  "position p (xs @ ys) =
     (case position p xs of Some i \<Rightarrow> Some i | None \<Rightarrow> map_option (\<lambda>i. length xs + i) (position p ys))"
proof (induction xs)
  case Nil
  then show ?case by (cases "position p ys") simp_all
next
  case (Cons x xs)
  then show ?case by (cases "position p xs"; cases "position p ys") simp_all
qed

lemma map_filter_append [simp]: "List.map_filter f (xs @ ys) = List.map_filter f xs @ List.map_filter f ys"
  by (induction xs) (auto simp: map_filter_simps split: option.splits)

lemma set_map_filter: "set (List.map_filter f xs) = {y. \<exists>x\<in>set xs. f x = Some y}"
  by (induction xs) (auto simp: map_filter_simps split: option.splits)

lemma map_filter_eq_Nil: "List.map_filter f xs = [] \<longleftrightarrow> (\<forall>x\<in>set xs. f x = None)"
  by (induction xs) (auto simp: map_filter_simps split: option.splits)

section \<open>Lists sorted by a key\<close>

lemma sorted_key_filter:
  "sorted_wrt (<) (map key es) \<Longrightarrow> filter (\<lambda>e. (a :: nat) < key e) es = dropWhile (\<lambda>e. \<not> a < key e) es"
proof (induction es)
  case (Cons e es)
  from Cons.prems have "a < key e \<Longrightarrow> filter (\<lambda>e. a < key e) es = es"
    by (auto simp: filter_id_conv)
  with Cons show ?case by auto
qed simp

lemma sorted_key_last:
  assumes "sorted_wrt (<) (map key es)" "e \<in> set es"
  shows "key e \<le> (key (last es) :: nat)"
proof (cases es rule: rev_cases)
  case (snoc ys y)
  with assms show ?thesis by (auto simp: sorted_wrt_append less_imp_le)
qed (use assms in simp)

section \<open>Strings\<close>

fun join :: "'a list \<Rightarrow> 'a list list \<Rightarrow> 'a list" where
  "join sep [] = []"
| "join sep [x] = x"
| "join sep (x # y # ys) = x @ sep @ join sep (y # ys)"

lemma join_sublist: "x \<in> set xs \<Longrightarrow> sublist x (join sep xs)"
proof (induction sep xs rule: join.induct)
  case (3 sep x' y ys)
  then show ?case
  proof (cases "x = x'")
    case False
    with 3 have "sublist x (join sep (y # ys))" by simp
    then have "sublist x ((x' @ sep) @ join sep (y # ys))"
      by (rule sublist_order.order_trans) (rule sublist_append_leftI)
    then show ?thesis by simp
  qed auto
qed auto

definition digit_char :: "nat \<Rightarrow> char" where
  "digit_char d = char_of (48 + d)"

definition is_digit_char :: "char \<Rightarrow> bool" where
  "is_digit_char c \<longleftrightarrow> 48 \<le> (of_char c :: nat) \<and> (of_char c :: nat) < 58"

fun show_nat :: "nat \<Rightarrow> string" where
  "show_nat n = (if n < 10 then [digit_char n] else show_nat (n div 10) @ [digit_char (n mod 10)])"

declare show_nat.simps [simp del]

fun parse_digits :: "nat \<Rightarrow> string \<Rightarrow> nat option" where
  "parse_digits acc [] = Some acc"
| "parse_digits acc (c # cs) =
     (if is_digit_char c then parse_digits (10 * acc + (of_char c - 48)) cs else None)"

text \<open>\<open>str::parse\<close> into an unsigned type of values below \<open>limit\<close>: an optional plus sign, at least one digit.\<close>

definition parse_uint :: "nat \<Rightarrow> string \<Rightarrow> nat option" where
  "parse_uint limit s =
     (let ds = (case s of c # cs \<Rightarrow> if c = CHR ''+'' then cs else s | [] \<Rightarrow> [])
      in if ds = [] then None
         else (case parse_digits 0 ds of
                 Some n \<Rightarrow> if n < limit then Some n else None
               | None \<Rightarrow> None))"

lemma of_char_digit_char [simp]: "d < 10 \<Longrightarrow> (of_char (digit_char d) :: nat) = 48 + d"
  by (simp add: digit_char_def of_char_of)

lemma is_digit_digit_char [simp]: "d < 10 \<Longrightarrow> is_digit_char (digit_char d)"
  by (simp add: is_digit_char_def)

lemma parse_digits_append:
  "parse_digits acc (xs @ ys) = Option.bind (parse_digits acc xs) (\<lambda>a. parse_digits a ys)"
  by (induction acc xs rule: parse_digits.induct) auto

lemma parse_digits_show_nat: "parse_digits 0 (show_nat n) = Some n"
proof (induction n rule: show_nat.induct)
  case (1 n)
  show ?case
  proof (cases "n < 10")
    case True
    then show ?thesis by (simp add: show_nat.simps [of n])
  next
    case False
    with "1.IH" show ?thesis
      by (simp add: show_nat.simps [of n] parse_digits_append)
  qed
qed

lemma show_nat_digits: "c \<in> set (show_nat n) \<Longrightarrow> is_digit_char c"
  by (induction n rule: show_nat.induct) (subst (asm) show_nat.simps, auto split: if_splits)

lemma show_nat_not_Nil [simp]: "show_nat n \<noteq> []"
  by (subst show_nat.simps) simp

lemma plus_not_digit [simp]: "\<not> is_digit_char CHR ''+''" "\<not> is_digit_char CHR ''.''"
  "\<not> is_digit_char CHR '':''"
  by (simp_all add: is_digit_char_def)

lemma parse_uint_show_nat: "n < limit \<Longrightarrow> parse_uint limit (show_nat n) = Some n"
proof -
  assume "n < limit"
  obtain c cs where c: "show_nat n = c # cs" by (cases "show_nat n") simp_all
  then have "is_digit_char c" using show_nat_digits [of c n] by simp
  then have "c \<noteq> CHR ''+''" by auto
  with c \<open>n < limit\<close> parse_digits_show_nat [of n] show ?thesis by (simp add: parse_uint_def)
qed

lemma show_nat_inject [simp]: "show_nat m = show_nat n \<longleftrightarrow> m = n"
  by (metis option.inject parse_digits_show_nat)

section \<open>UTF-8\<close>

text \<open>
  \<open>str::chars\<close> as the list of their encodings: a byte \<open>10xxxxxx\<close> continues the character before it.
\<close>

definition is_continuation :: "char \<Rightarrow> bool" where
  "is_continuation c \<longleftrightarrow> 0x80 \<le> (of_char c :: nat) \<and> (of_char c :: nat) < 0xC0"

definition is_char_boundary :: "string \<Rightarrow> nat \<Rightarrow> bool" where
  "is_char_boundary s i \<longleftrightarrow> i = 0 \<or> i = length s \<or> (i < length s \<and> \<not> is_continuation (s ! i))"

fun utf8_chars :: "string \<Rightarrow> string list" where
  "utf8_chars [] = []"
| "utf8_chars (c # cs) = (case utf8_chars cs of
     [] \<Rightarrow> [[c]]
   | x # xs \<Rightarrow> (case x of
       [] \<Rightarrow> [c] # x # xs
     | d # ds \<Rightarrow> if is_continuation d then (c # x) # xs else [c] # x # xs))"

lemma length_show_nat: "n < 10 ^ k \<Longrightarrow> 0 < k \<Longrightarrow> length (show_nat n) \<le> k"
proof (induction n arbitrary: k rule: show_nat.induct)
  case (1 n)
  show ?case
  proof (cases "n < 10")
    case True
    with 1 show ?thesis by (simp add: show_nat.simps [of n])
  next
    case False
    then obtain k' where k: "k = Suc k'" "0 < k'"
      using "1.prems" by (cases k) (auto simp: not_less dest: less_le_trans, cases "k - 1", auto)
    then have "n div 10 < 10 ^ k'" using "1.prems" by (simp add: less_mult_imp_div_less mult.commute)
    with 1 False k show ?thesis by (simp add: show_nat.simps [of n])
  qed
qed

section \<open>Trimming\<close>

text \<open>
  \<open>str::trim\<close> removes leading and trailing characters with the Unicode property \<open>White_Space\<close>; here
  the UTF-8 encodings of those characters.
\<close>

definition white_space :: "string list" where
  "white_space =
     map (\<lambda>c. [c]) [CHR 0x09, CHR 0x0A, CHR 0x0B, CHR 0x0C, CHR 0x0D, CHR 0x20]
     @ [[CHR 0xC2, CHR 0x85], [CHR 0xC2, CHR 0xA0], [CHR 0xE1, CHR 0x9A, CHR 0x80]]
     @ map (\<lambda>c. [CHR 0xE2, CHR 0x80, c])
         [CHR 0x80, CHR 0x81, CHR 0x82, CHR 0x83, CHR 0x84, CHR 0x85, CHR 0x86, CHR 0x87, CHR 0x88,
          CHR 0x89, CHR 0x8A, CHR 0xA8, CHR 0xA9, CHR 0xAF]
     @ [[CHR 0xE2, CHR 0x81, CHR 0x9F], [CHR 0xE3, CHR 0x80, CHR 0x80]]"

definition ws_front :: "string \<Rightarrow> nat" where
  "ws_front s = (case find (\<lambda>w. prefix w s) white_space of Some w \<Rightarrow> length w | None \<Rightarrow> 0)"

definition ws_back :: "string \<Rightarrow> nat" where
  "ws_back s = (case find (\<lambda>w. suffix w s) white_space of Some w \<Rightarrow> length w | None \<Rightarrow> 0)"

lemma ws_front_Nil [simp]: "ws_front [] = 0" and ws_back_Nil [simp]: "ws_back [] = 0"
  by (simp_all add: ws_front_def ws_back_def white_space_def)

function trim_start :: "string \<Rightarrow> string" where
  "trim_start s = (if ws_front s = 0 then s else trim_start (drop (ws_front s) s))"
  by auto
termination
proof (relation "measure length")
  fix s
  assume "ws_front s \<noteq> 0"
  then show "(drop (ws_front s) s, s) \<in> measure length" by (cases s) auto
qed simp

function trim_end :: "string \<Rightarrow> string" where
  "trim_end s = (if ws_back s = 0 then s else trim_end (take (length s - ws_back s) s))"
  by auto
termination
proof (relation "measure length")
  fix s
  assume "ws_back s \<noteq> 0"
  then show "(take (length s - ws_back s) s, s) \<in> measure length" by (cases s) auto
qed simp

declare trim_start.simps [simp del] trim_end.simps [simp del]

definition trim :: "string \<Rightarrow> string" where
  "trim s = trim_end (trim_start s)"

lemma trim_start_suffix: "suffix (trim_start s) s"
proof (induction s rule: trim_start.induct)
  case (1 s)
  then show ?case
    by (subst trim_start.simps) (auto intro: suffix_order.trans suffix_drop)
qed

lemma trim_end_prefix: "prefix (trim_end s) s"
proof (induction s rule: trim_end.induct)
  case (1 s)
  then show ?case
    by (subst trim_end.simps) (auto intro: prefix_order.trans take_is_prefix)
qed

lemma ws_front_trim_start: "ws_front (trim_start s) = 0"
proof (induction s rule: trim_start.induct)
  case (1 s)
  then show ?case by (subst trim_start.simps) auto
qed

lemma ws_back_trim_end: "ws_back (trim_end s) = 0"
proof (induction s rule: trim_end.induct)
  case (1 s)
  then show ?case by (subst trim_end.simps) auto
qed

lemma trim_sublist: "sublist (trim s) s"
  unfolding trim_def
  by (meson prefix_imp_sublist suffix_imp_sublist sublist_order.order_trans trim_end_prefix trim_start_suffix)

lemma trim_back [simp]: "ws_back (trim s) = 0"
  by (simp add: trim_def ws_back_trim_end)

end
