(* ===== verification/Messages.thy ===== *)
theory Messages
  imports Horsie_Prelude
begin

text \<open>
  The protocol types of an agent's conversation and log (\<^verbatim>\<open>crates/models/fluorite/agent.fl\<close> and
  \<^verbatim>\<open>hooks.fl\<close>, from which the build generates the Rust types), the constructors and accessors
  \<^verbatim>\<open>crates/models/src/lib.rs\<close> gives them, and lemmas on the messages an agent input becomes.

  Structs are records whose fields carry a short prefix, unions are datatypes with one constructor
  per arm; a payload struct of one or two fields is inlined as the arguments of its arm. Sequence
  numbers and task ids are natural numbers (the sources only ever increment them from zero, by one
  per journaled event); times keep 64 bits and token counts 32. A JSON value is the
  datatype \<open>json\<close> with the arms of \<^verbatim>\<open>serde_json::Value\<close>.
\<close>

section \<open>Messages\<close>

datatype json = JNull | JBool bool | JInt int | JFloat string | JString string
  | JArray "json list" | JObject "(string \<times> json) list"

datatype role = RUser | RAssistant | RTool

datatype artifact_kind = Image "u32 option" "u32 option" | Document

record artifact_ref =
  af_id :: string
  af_media_type :: string
  af_kind :: artifact_kind
  af_byte_size :: u64
  af_filename :: "string option"

record tool_call_part =
  tc_id :: string
  tc_name :: string
  tc_input :: json

record tool_result_part =
  tr_call_id :: string
  tr_output :: string
  tr_is_error :: bool
  tr_artifacts :: "artifact_ref list"

record subagent_result_part =
  sr_subagent_id :: string
  sr_title :: string
  sr_status :: string
  sr_text :: string
  sr_spawned_at_ms :: u64
  sr_ended_at_ms :: u64

datatype content_part =
    PText string
  | PToolCall tool_call_part
  | PToolResult tool_result_part
  | PThinking string "string option"
  | PSubAgentResult subagent_result_part
  | PArtifact artifact_ref

record message =
  m_id :: string
  m_role :: role
  m_parts :: "content_part list"
  m_created_at_ms :: u64
  m_started_at_ms :: "u64 option"

section \<open>Hook records\<close>

record tool_scope =
  ts_tool :: string
  ts_call_id :: string

record hook_rewrite =
  hw_before :: string
  hw_after :: string

datatype pre_tool_use_outcome =
    PreAllowed "hook_rewrite option" | PreDenied "string option" | PreAsk | PreDefer | PreFailed string

datatype post_tool_use_outcome =
    PostRan "hook_rewrite option" "string option" | PostBlocked "string option" | PostFailed string

text \<open>
  The outcomes that carry \<open>ContextInjected\<close>: every union of \<^verbatim>\<open>hooks.fl\<close> with the arms
  \<open>Ran(ContextInjected)\<close>, \<open>Blocked(HookBlocked)\<close>, \<open>Failed(HookFailed)\<close>; those that also have
  \<open>CapReached\<close>; and those that cannot block.
\<close>

datatype block_outcome = BlkRan "string option" | BlkBlocked "string option" | BlkFailed string

datatype stop_outcome =
    StopRan "string option" | StopBlocked "string option" | StopFailed string | StopCapReached "string option"

datatype start_outcome = StartRan "string option" | StartFailed string

datatype side_effect_outcome = SideRan | SideFailed string

datatype hook_action =
    PreToolUse tool_scope "string option" pre_tool_use_outcome
  | PostToolUse tool_scope "string option" post_tool_use_outcome
  | PostToolUseFailure tool_scope "string option" block_outcome
  | PostToolBatch "tool_scope list" "string option" block_outcome
  | SessionStart string "string option" start_outcome
  | SessionEnd string side_effect_outcome
  | UserPromptSubmit "string option" block_outcome
  | UserPromptExpansion string "string option" block_outcome
  | Stop "string option" stop_outcome
  | StopFailure string side_effect_outcome
  | SubagentStart string string "string option" start_outcome
  | SubagentStop string string "string option" stop_outcome
  | TaskCreated string "string option" side_effect_outcome
  | TaskCompleted string "string option" side_effect_outcome
  | Notification string side_effect_outcome
  | CwdChanged string side_effect_outcome
  | PreCompact string "string option" stop_outcome
  | PostCompact string side_effect_outcome

text \<open>\<open>hr_halt\<close> is \<open>Option<HookHalt>\<close>, a halt being its optional reason.\<close>

record hook_record =
  hr_plugin :: string
  hr_duration_ms :: u64
  hr_halt :: "string option option"
  hr_action :: hook_action

record hook_entry =
  he_id :: string
  he_created_at_ms :: u64
  he_record :: hook_record

section \<open>The agent log\<close>

datatype history_entry = HLlm message | HHook hook_entry

datatype task_status = TPending | TInProgress | TCompleted

record task_item =
  ti_id :: nat
  ti_content :: string
  ti_status :: task_status

datatype runtime_status = RtAcquiring | RtReady | RtFailed

datatype turn_outcome = TurnOk | TurnFailed string | TurnStopped | TurnInterrupted

datatype lifecycle_event =
    LRuntime runtime_status "string option"
  | LPreparing string "string option"
  | LMessageQueued string string
  | LTurnBegan "string list" "string list"
  | LTurnEnded turn_outcome
  | LAskRecorded "string option" string
  | LSubAgent string string string
  | LSubSession string "string option" string
  | LStep u32 string string
  | LTaskList "task_item list"
  | LSessionFailed string
  | LCompactionSkipped u32 "u32 option"

datatype compaction_trigger = TrigAuto | TrigManual

record compaction_entry =
  ce_summary :: string
  ce_carried_state :: string
  ce_covers_through_seq :: nat
  ce_retained_from_seq :: nat
  ce_trigger :: compaction_trigger
  ce_instructions :: "string option"
  ce_tokens_before :: u32
  ce_tokens_after :: u32

datatype log_body = BLlm message | BHook hook_entry | BLifecycle lifecycle_event
  | BCompaction compaction_entry

record log_entry =
  e_seq :: nat
  e_at_ms :: u64
  e_body :: log_body

record usage =
  u_input_tokens :: u32
  u_output_tokens :: u32
  u_cache_creation_tokens :: "u32 option"
  u_cache_read_tokens :: "u32 option"

section \<open>Agent inputs\<close>

record user_message_input =
  um_id :: string
  um_text :: string
  um_subagent_results :: "subagent_result_part list"
  um_artifacts :: "artifact_ref list"

record tool_result_input =
  ri_call_id :: string
  ri_output :: string
  ri_is_error :: bool
  ri_artifacts :: "artifact_ref list"

datatype agent_input = InUserMessage user_message_input | InToolResult tool_result_input
  | InToolResults "tool_result_input list"

section \<open>Constructors and accessors\<close>

definition history_entry_id :: "history_entry \<Rightarrow> string" where
  "history_entry_id h = (case h of HLlm m \<Rightarrow> m_id m | HHook e \<Rightarrow> he_id e)"

definition history_entry_created_at_ms :: "history_entry \<Rightarrow> u64" where
  "history_entry_created_at_ms h =
     (case h of HLlm m \<Rightarrow> m_created_at_ms m | HHook e \<Rightarrow> he_created_at_ms e)"

definition log_body_id :: "log_body \<Rightarrow> string option" where
  "log_body_id b = (case b of
     BLlm m \<Rightarrow> Some (m_id m)
   | BHook h \<Rightarrow> Some (he_id h)
   | BLifecycle l \<Rightarrow> None
   | BCompaction c \<Rightarrow> None)"

definition message_user :: "string \<Rightarrow> string \<Rightarrow> u64 \<Rightarrow> message" where
  "message_user i t now = \<lparr> m_id = i, m_role = RUser, m_parts = [PText t],
     m_created_at_ms = now, m_started_at_ms = None \<rparr>"

definition message_assistant_text :: "string \<Rightarrow> string \<Rightarrow> u64 \<Rightarrow> message" where
  "message_assistant_text i t now = \<lparr> m_id = i, m_role = RAssistant, m_parts = [PText t],
     m_created_at_ms = now, m_started_at_ms = None \<rparr>"

definition result_id :: "string \<Rightarrow> string" where
  "result_id call = ''result:'' @ call"

definition message_tool_result ::
    "string \<Rightarrow> string \<Rightarrow> bool \<Rightarrow> artifact_ref list \<Rightarrow> u64 \<Rightarrow> message" where
  "message_tool_result call out err arts now = \<lparr> m_id = result_id call, m_role = RTool,
     m_parts = [PToolResult \<lparr> tr_call_id = call, tr_output = out, tr_is_error = err,
                              tr_artifacts = arts \<rparr>],
     m_created_at_ms = now, m_started_at_ms = None \<rparr>"

definition nl :: char where "nl = CHR 0x0A"

definition to_wire_text :: "subagent_result_part \<Rightarrow> string" where
  "to_wire_text r =
     (let header = ''[subagent '' @ [CHR 0x22] @ sr_title r @ [CHR 0x22] @ '' '' @ sr_status r @ '']''
      in if sr_text r = [] then header else header @ [nl, nl] @ sr_text r)"

definition em_dash :: string where "em_dash = [CHR 0xE2, CHR 0x80, CHR 0x94]"

definition omitted_text :: "artifact_ref \<Rightarrow> string" where
  "omitted_text a =
     (let what = (case af_kind a of Image w h \<Rightarrow> ''image'' | Document \<Rightarrow> ''document'')
      in case af_filename a of
           Some name \<Rightarrow> ''['' @ what @ '' '' @ [CHR 0x22] @ name @ [CHR 0x22] @ '' omitted '' @ em_dash
             @ '' this model cannot read it]''
         | None \<Rightarrow> ''['' @ what @ '' omitted '' @ em_dash @ '' this model cannot read it]'')"

definition user_message_with_results ::
    "string \<Rightarrow> string \<Rightarrow> subagent_result_part list \<Rightarrow> artifact_ref list \<Rightarrow> agent_input" where
  "user_message_with_results i t rs arts =
     InUserMessage \<lparr> um_id = i, um_text = t, um_subagent_results = rs, um_artifacts = arts \<rparr>"

definition input_user_message :: "string \<Rightarrow> string \<Rightarrow> agent_input" where
  "input_user_message i t =
     InUserMessage \<lparr> um_id = i, um_text = t, um_subagent_results = [], um_artifacts = [] \<rparr>"

definition input_tool_result :: "string \<Rightarrow> string \<Rightarrow> bool \<Rightarrow> agent_input" where
  "input_tool_result call out err =
     InToolResult \<lparr> ri_call_id = call, ri_output = out, ri_is_error = err, ri_artifacts = [] \<rparr>"

definition input_tool_results :: "tool_result_input list \<Rightarrow> agent_input" where
  "input_tool_results rs = InToolResults rs"

fun message_id :: "agent_input \<Rightarrow> string" where
  "message_id (InUserMessage u) = um_id u"
| "message_id (InToolResult t) = result_id (ri_call_id t)"
| "message_id (InToolResults []) = ''result:none''"
| "message_id (InToolResults (r # rs)) = result_id (ri_call_id r)"

definition result_part :: "tool_result_input \<Rightarrow> content_part" where
  "result_part r = PToolResult \<lparr> tr_call_id = ri_call_id r, tr_output = ri_output r,
     tr_is_error = ri_is_error r, tr_artifacts = ri_artifacts r \<rparr>"

fun to_message :: "agent_input \<Rightarrow> u64 \<Rightarrow> message" where
  "to_message (InUserMessage u) now = \<lparr> m_id = um_id u, m_role = RUser,
     m_parts = (if um_text u = [] then [] else [PText (um_text u)])
       @ map PArtifact (um_artifacts u) @ map PSubAgentResult (um_subagent_results u),
     m_created_at_ms = now, m_started_at_ms = None \<rparr>"
| "to_message (InToolResult t) now = \<lparr> m_id = result_id (ri_call_id t), m_role = RTool,
     m_parts = [result_part t], m_created_at_ms = now, m_started_at_ms = None \<rparr>"
| "to_message (InToolResults rs) now = \<lparr> m_id = message_id (InToolResults rs), m_role = RTool,
     m_parts = map result_part rs, m_created_at_ms = now, m_started_at_ms = None \<rparr>"

section \<open>Tool calls and results in a history\<close>

definition part_call :: "content_part \<Rightarrow> string option" where
  "part_call p = (case p of PToolCall c \<Rightarrow> Some (tc_id c) | _ \<Rightarrow> None)"

definition part_result :: "content_part \<Rightarrow> string option" where
  "part_result p = (case p of PToolResult r \<Rightarrow> Some (tr_call_id r) | _ \<Rightarrow> None)"

definition message_calls :: "message \<Rightarrow> string list" where
  "message_calls m = List.map_filter part_call (m_parts m)"

definition message_results :: "message \<Rightarrow> string list" where
  "message_results m = List.map_filter part_result (m_parts m)"

lemma part_sels [simp]:
  "part_call (PToolCall c) = Some (tc_id c)" "part_call (PText t) = None"
  "part_call (PToolResult r) = None" "part_call (PThinking t s) = None"
  "part_call (PSubAgentResult s') = None" "part_call (PArtifact a) = None"
  "part_result (PToolResult r) = Some (tr_call_id r)" "part_result (PText t) = None"
  "part_result (PToolCall c) = None" "part_result (PThinking t s) = None"
  "part_result (PSubAgentResult s') = None" "part_result (PArtifact a) = None"
  by (simp_all add: part_call_def part_result_def)

lemma result_part_result [simp]: "part_result (result_part r) = Some (ri_call_id r)"
  by (simp add: result_part_def)

lemma m_id_to_message [simp]: "m_id (to_message i now) = message_id i"
  by (cases i) simp_all

lemma map_filter_map_Some: "(\<And>x. f (g x) = Some (h x)) \<Longrightarrow> List.map_filter f (map g xs) = map h xs"
  by (induction xs) (simp_all add: map_filter_simps)

lemma message_results_to_message:
  "message_results (to_message i now) =
     (case i of InUserMessage u \<Rightarrow> [] | InToolResult r \<Rightarrow> [ri_call_id r]
      | InToolResults rs \<Rightarrow> map ri_call_id rs)"
  by (cases i)
    (auto simp: message_results_def map_filter_map_Some map_filter_eq_Nil map_filter_simps)

lemma message_results_tool_result [simp]:
  "message_results (message_tool_result call out err arts now) = [call]"
  "message_calls (message_tool_result call out err arts now) = []"
  by (simp_all add: message_results_def message_calls_def message_tool_result_def map_filter_simps)

end
