(* ===== verification/Hook_Translation.thy ===== *)
theory Hook_Translation
  imports Messages
begin

text \<open>
  What a plugin hook puts in front of the model, and what it refuses
  (\<^verbatim>\<open>crates/server/src/agent_loop/hook_translation.rs\<close> and \<open>precompact_refusal\<close> of
  \<^verbatim>\<open>carried_state.rs\<close>). The lemmas characterise when a record reaches the prompt and when a batch of
  start hooks refuses the run.
\<close>

section \<open>Translation into the prompt\<close>

definition blk_context :: "block_outcome \<Rightarrow> string option" where
  "blk_context o' = (case o' of BlkRan c \<Rightarrow> c | BlkBlocked r \<Rightarrow> None | BlkFailed r \<Rightarrow> None)"

definition stop_context :: "stop_outcome \<Rightarrow> string option" where
  "stop_context o' = (case o' of StopRan c \<Rightarrow> c | StopBlocked r \<Rightarrow> None | StopFailed r \<Rightarrow> None
     | StopCapReached r \<Rightarrow> None)"

definition start_context :: "start_outcome \<Rightarrow> string option" where
  "start_context o' = (case o' of StartRan c \<Rightarrow> c | StartFailed r \<Rightarrow> None)"

fun hook_context :: "hook_action \<Rightarrow> (string \<times> string option) option" where
  "hook_context (SessionStart src sys out) = Some (''SessionStart'', start_context out)"
| "hook_context (UserPromptSubmit sys out) = Some (''UserPromptSubmit'', blk_context out)"
| "hook_context (UserPromptExpansion cmd sys out) = Some (''UserPromptExpansion'', blk_context out)"
| "hook_context (Stop sys out) = Some (''Stop'', stop_context out)"
| "hook_context (SubagentStart aid ty sys out) = Some (''SubagentStart'', start_context out)"
| "hook_context (SubagentStop aid ty sys out) = Some (''SubagentStop'', stop_context out)"
| "hook_context (PostToolBatch calls sys out) = Some (''PostToolBatch'', blk_context out)"
| "hook_context (PreToolUse call sys out) = None"
| "hook_context (PostToolUse call sys out) = None"
| "hook_context (PostToolUseFailure call sys out') = None"
| "hook_context (SessionEnd r out'') = None"
| "hook_context (StopFailure r out'') = None"
| "hook_context (Notification m out'') = None"
| "hook_context (CwdChanged c out'') = None"
| "hook_context (TaskCreated t sys out'') = None"
| "hook_context (TaskCompleted t sys out'') = None"
| "hook_context (PreCompact tr sys out3) = None"
| "hook_context (PostCompact tr out'') = None"

definition quot :: char where "quot = CHR 0x22"

definition hook_context_text :: "string \<Rightarrow> string \<Rightarrow> string \<Rightarrow> string" where
  "hook_context_text plugin event context =
     ''<hook-context plugin='' @ [quot] @ plugin @ [quot] @ '' event='' @ [quot] @ event @ [quot] @ ''>''
     @ [nl] @ context @ [nl] @ ''</hook-context>''"

definition translate :: "hook_entry \<Rightarrow> message option" where
  "translate entry =
     (case hook_context (hr_action (he_record entry)) of
        None \<Rightarrow> None
      | Some (event, context) \<Rightarrow>
          (case context of
             None \<Rightarrow> None
           | Some c \<Rightarrow> Some \<lparr> m_id = ''hook-context:'' @ he_id entry, m_role = RUser,
               m_parts = [PText (hook_context_text (hr_plugin (he_record entry)) event c)],
               m_created_at_ms = he_created_at_ms entry, m_started_at_ms = None \<rparr>))"

section \<open>Refusals\<close>

definition unwrap_or :: "'a option \<Rightarrow> 'a \<Rightarrow> 'a" where
  "unwrap_or x d = (case x of Some y \<Rightarrow> y | None \<Rightarrow> d)"

fun prompt_block :: "hook_action \<Rightarrow> string option" where
  "prompt_block (UserPromptSubmit sys (BlkBlocked r)) =
     Some (unwrap_or r ''a UserPromptSubmit hook blocked this prompt'')"
| "prompt_block (UserPromptExpansion cmd sys (BlkBlocked r)) =
     Some (unwrap_or r ''a UserPromptExpansion hook blocked this command'')"
| "prompt_block _ = None"

definition start_blocked :: "hook_record list \<Rightarrow> string option" where
  "start_blocked records =
     (case find_map hr_halt records of
        Some reason \<Rightarrow>
          Some (unwrap_or reason ''a start hook set continue: false, so this turn was not run'')
      | None \<Rightarrow> find_map (\<lambda>r. prompt_block (hr_action r)) records)"

definition precompact_block :: "hook_record \<Rightarrow> string option" where
  "precompact_block r =
     (case hr_halt r of
        Some reason \<Rightarrow> Some (unwrap_or reason ''a PreCompact hook set continue: false'')
      | None \<Rightarrow>
          (case hr_action r of
             PreCompact tr sys (StopBlocked reason) \<Rightarrow>
               Some (unwrap_or reason ''a PreCompact hook blocked this compaction'')
           | _ \<Rightarrow> None))"

definition precompact_refusal :: "hook_record list \<Rightarrow> string option" where
  "precompact_refusal records = find_map precompact_block records"

section \<open>Lemmas\<close>

text \<open>A tool hook, a side-effect hook and a compaction hook never reach the prompt.\<close>

lemma translate_None_iff:
  "translate e = None \<longleftrightarrow>
     (\<forall>event c. hook_context (hr_action (he_record e)) \<noteq> Some (event, Some c))"
  by (auto simp: translate_def split: option.splits)

lemma translate_shape:
  "translate e = Some m \<Longrightarrow>
     m_role m = RUser \<and> message_calls m = [] \<and> message_results m = []
     \<and> m_id m = ''hook-context:'' @ he_id e"
  by (auto simp: translate_def message_calls_def message_results_def map_filter_simps
      split: option.splits)

lemma translate_framed:
  assumes "translate e = Some m"
  obtains event c where "hook_context (hr_action (he_record e)) = Some (event, Some c)"
    and "m_parts m = [PText (hook_context_text (hr_plugin (he_record e)) event c)]"
  using assms by (auto simp: translate_def split: option.splits)

lemma prompt_block_iff:
  "prompt_block a \<noteq> None \<longleftrightarrow>
     (\<exists>sys r. a = UserPromptSubmit sys (BlkBlocked r))
     \<or> (\<exists>cmd sys r. a = UserPromptExpansion cmd sys (BlkBlocked r))"
  by (cases a rule: prompt_block.cases) auto

lemma start_blocked_iff:
  "start_blocked rs = None \<longleftrightarrow>
     (\<forall>r\<in>set rs. hr_halt r = None \<and> prompt_block (hr_action r) = None)"
proof (cases "find_map hr_halt rs")
  case None
  moreover from None have "\<forall>r\<in>set rs. hr_halt r = None" by (simp only: find_map_None)
  moreover have "find_map (\<lambda>r. prompt_block (hr_action r)) rs = None
      \<longleftrightarrow> (\<forall>r\<in>set rs. prompt_block (hr_action r) = None)"
    by (rule find_map_None)
  ultimately show ?thesis by (simp add: start_blocked_def)
next
  case (Some reason)
  then obtain r where "r \<in> set rs" "hr_halt r = Some reason"
    using find_map_SomeD by fastforce
  with Some show ?thesis by (auto simp: start_blocked_def)
qed

lemma precompact_block_iff:
  "precompact_block r \<noteq> None \<longleftrightarrow>
     hr_halt r \<noteq> None \<or> (\<exists>tr sys reason. hr_action r = PreCompact tr sys (StopBlocked reason))"
  by (auto simp: precompact_block_def split: option.splits hook_action.splits stop_outcome.splits)

lemma precompact_refusal_iff:
  "precompact_refusal rs = None \<longleftrightarrow> (\<forall>r\<in>set rs. precompact_block r = None)"
  by (simp add: precompact_refusal_def find_map_None)

section \<open>Properties\<close>

text \<open>
  A turn's start is abandoned exactly when one of its hooks halted or blocked the prompt, a compaction
  exactly when one of its hooks halted or blocked it; and what a hook puts in front of the model is always
  a user message with no tool call and no tool result in it, framed with the plugin's name, whose id marks
  it as a hook's.\<close>

theorem hooks_decide:
  "(start_blocked rs = None \<longleftrightarrow> list_all (\<lambda>r. hr_halt r = None \<and> prompt_block (hr_action r) = None) rs) \<and>
   (precompact_refusal rs = None \<longleftrightarrow> list_all (\<lambda>r. hr_halt r = None \<and>
      (case hr_action r of PreCompact tr sys (StopBlocked why) \<Rightarrow> False | _ \<Rightarrow> True)) rs) \<and>
   (case translate e of
      None \<Rightarrow> True
    | Some m \<Rightarrow> m_role m = RUser \<and> message_calls m = [] \<and> message_results m = [] \<and>
        m_id m = ''hook-context:'' @ he_id e)"
proof -
  have "precompact_block r = None \<longleftrightarrow> hr_halt r = None \<and>
      (case hr_action r of PreCompact tr sys (StopBlocked why) \<Rightarrow> False | _ \<Rightarrow> True)" for r
    using precompact_block_iff [of r] by (auto split: hook_action.splits stop_outcome.splits)
  then show ?thesis
    using translate_shape [of e] by (auto simp: start_blocked_iff precompact_refusal_iff list_all_iff split: option.splits)
qed

end
