(* ===== verification/Inbox.thy ===== *)
theory Inbox
  imports Messages "HOL-Library.List_Lexorder" "HOL-Library.Char_ord"
begin

text \<open>
  What is addressed to an agent, and when it becomes a turn
  (\<^verbatim>\<open>crates/server/src/agent_loop/inbox.rs\<close>). The queue holds \<open>incoming\<close> items; \<open>queued_turn\<close> and
  \<open>answered_turn\<close> decide whether a turn may start and what it carries. Both promise the same
  thing to the actor that calls them, that a turn takes the whole queue, and the locale \<open>whole_queue\<close>
  states that promise once. Strings are ordered byte by byte, as Rust orders them.
\<close>

section \<open>Data\<close>

type_synonym uuid = string

record asked_question =
  aq_call_id :: "string option"
  aq_question :: string
  aq_choices :: "string list"
  aq_multiple :: bool

datatype incoming =
    IncUser string string "artifact_ref list"
  | IncSubAgent string subagent_result_part
  | IncTimer string string
  | IncContinue string string
  | IncCompact string "string option"
  | IncSubSession string uuid

datatype summarise = SumCompact "string option" | SumSubSession "uuid list"

record turn =
  t_consumed :: "string list"
  t_summarise :: "summarise option"
  t_answered :: "string list"
  t_message :: "string option"
  t_artifacts :: "artifact_ref list"
  t_subagent_results :: "subagent_result_part list"
  t_results :: "tool_result_input list"

record ask_answer =
  aa_call_id :: string
  aa_text :: string

datatype answer_error = NothingPending | Incomplete "string list" "string list"

section \<open>Operations\<close>

definition MERGE_SEPARATOR :: string where
  "MERGE_SEPARATOR = [nl, nl]"

definition ABANDONED_ASK_RESULT :: string where
  "ABANDONED_ASK_RESULT = ''not answered '' @ em_dash @ '' the user sent a new message instead''"

fun incoming_id :: "incoming \<Rightarrow> string" where
  "incoming_id (IncUser i t arts) = i"
| "incoming_id (IncSubAgent i p) = i"
| "incoming_id (IncTimer i m) = i"
| "incoming_id (IncContinue i r) = i"
| "incoming_id (IncCompact i ins) = i"
| "incoming_id (IncSubSession i s) = i"

fun is_user :: "incoming \<Rightarrow> bool" where
  "is_user (IncUser i t arts) = True"
| "is_user _ = False"

fun incoming_text :: "incoming \<Rightarrow> string option" where
  "incoming_text (IncUser i t arts) = Some t"
| "incoming_text (IncTimer i m) = Some m"
| "incoming_text (IncContinue i r) = Some r"
| "incoming_text (IncSubAgent i p) = None"
| "incoming_text (IncCompact i ins) = None"
| "incoming_text (IncSubSession i s) = None"

fun incoming_artifacts :: "incoming \<Rightarrow> artifact_ref list option" where
  "incoming_artifacts (IncUser i t arts) = Some arts"
| "incoming_artifacts _ = None"

fun incoming_report :: "incoming \<Rightarrow> subagent_result_part option" where
  "incoming_report (IncSubAgent i p) = Some p"
| "incoming_report _ = None"

fun incoming_sub_session :: "incoming \<Rightarrow> uuid option" where
  "incoming_sub_session (IncSubSession i s) = Some s"
| "incoming_sub_session _ = None"

fun incoming_compact :: "incoming \<Rightarrow> summarise option" where
  "incoming_compact (IncCompact i ins) = Some (SumCompact ins)"
| "incoming_compact _ = None"

definition answer_error_display :: "answer_error \<Rightarrow> string" where
  "answer_error_display e = (case e of
     NothingPending \<Rightarrow> ''this agent is not waiting on an answer''
   | Incomplete missing unexpected \<Rightarrow>
       ''every pending question must be answered together (missing: ['' @ join '', '' missing
       @ '']; not pending: ['' @ join '', '' unexpected @ ''])'')"

definition summarise :: "incoming list \<Rightarrow> summarise option" where
  "summarise inbox =
     (let sub_sessions = List.map_filter incoming_sub_session inbox
      in if sub_sessions \<noteq> [] then Some (SumSubSession sub_sessions)
         else find_map incoming_compact (rev inbox))"

definition drain :: "incoming list \<Rightarrow> turn" where
  "drain inbox =
     (let texts = List.map_filter incoming_text inbox
      in \<lparr> t_consumed = map incoming_id inbox,
           t_summarise = summarise inbox,
           t_answered = [],
           t_message = (if texts \<noteq> [] then Some (join MERGE_SEPARATOR texts) else None),
           t_artifacts = concat (List.map_filter incoming_artifacts inbox),
           t_subagent_results = List.map_filter incoming_report inbox,
           t_results = [] \<rparr>)"

definition abandoned_result :: "string \<Rightarrow> tool_result_input" where
  "abandoned_result call = \<lparr> ri_call_id = call, ri_output = ABANDONED_ASK_RESULT,
     ri_is_error = True, ri_artifacts = [] \<rparr>"

definition queued_turn :: "incoming list \<Rightarrow> asked_question list \<Rightarrow> turn option" where
  "queued_turn inbox asks =
     (if inbox = [] then None
      else if asks \<noteq> [] \<and> \<not> list_ex is_user inbox then None
      else Some ((drain inbox)\<lparr> t_results := map abandoned_result (List.map_filter aq_call_id asks) \<rparr>))"

definition answer_result :: "ask_answer \<Rightarrow> tool_result_input" where
  "answer_result a = \<lparr> ri_call_id = aa_call_id a, ri_output = aa_text a, ri_is_error = False,
     ri_artifacts = [] \<rparr>"

text \<open>The two \<open>HashSet\<close>s are read through their elements; a difference is collected and sorted.\<close>

definition sorted_difference :: "string list \<Rightarrow> string list \<Rightarrow> string list" where
  "sorted_difference xs ys = sort (remdups (filter (\<lambda>x. x \<notin> set ys) xs))"

definition answered_turn ::
    "incoming list \<Rightarrow> asked_question list \<Rightarrow> ask_answer list \<Rightarrow> answer_error + turn" where
  "answered_turn inbox asks answers =
     (let pending = List.map_filter aq_call_id asks;
          answered = map aa_call_id answers
      in if pending = [] then Inl NothingPending
         else if set answered \<noteq> set pending then
           Inl (Incomplete (sorted_difference pending answered) (sorted_difference answered pending))
         else Inr ((drain inbox)\<lparr> t_answered := answered, t_results := map answer_result answers \<rparr>))"

section \<open>A turn takes the whole queue\<close>

text \<open>
  What the actor relies on, whichever way a turn starts: nothing that was queued is left behind or
  delivered in part. The provider's law is that a turn is the drained queue up to its tool results.
\<close>

locale whole_queue =
  fixes turn_of :: "incoming list \<Rightarrow> turn option"
  assumes turn_of_drain:
    "turn_of inbox = Some t \<Longrightarrow> \<exists>ans res. t = (drain inbox)\<lparr> t_answered := ans, t_results := res \<rparr>"
begin

lemma turn_consumes_all: "turn_of inbox = Some t \<Longrightarrow> t_consumed t = map incoming_id inbox"
  by (auto dest!: turn_of_drain simp: drain_def Let_def)

lemma turn_carries_text:
  assumes "turn_of inbox = Some t" "i \<in> set inbox" "incoming_text i = Some txt"
  shows "\<exists>msg. t_message t = Some msg \<and> sublist txt msg"
proof -
  let ?texts = "List.map_filter incoming_text inbox"
  have "txt \<in> set ?texts" using assms(2,3) by (auto simp: set_map_filter)
  moreover then have "?texts \<noteq> []" by auto
  ultimately show ?thesis
    using turn_of_drain [OF assms(1)] by (auto simp: drain_def Let_def intro: join_sublist)
qed

lemma turn_carries_reports:
  "turn_of inbox = Some t \<Longrightarrow> t_subagent_results t = List.map_filter incoming_report inbox"
  by (auto dest!: turn_of_drain simp: drain_def Let_def)

lemma turn_carries_artifacts:
  "turn_of inbox = Some t \<Longrightarrow> IncUser i txt arts \<in> set inbox \<Longrightarrow> set arts \<subseteq> set (t_artifacts t)"
  by (force dest!: turn_of_drain simp: drain_def Let_def set_map_filter)

lemma turn_says_nothing:
  "turn_of inbox = Some t \<Longrightarrow> t_message t = None \<longleftrightarrow> (\<forall>i\<in>set inbox. incoming_text i = None)"
  by (auto dest!: turn_of_drain simp: drain_def Let_def map_filter_eq_Nil split: if_splits)

lemma turn_takes_sub_sessions:
  assumes "turn_of inbox = Some t" "IncSubSession i s \<in> set inbox"
  shows "\<exists>ss. t_summarise t = Some (SumSubSession ss) \<and> s \<in> set ss"
proof -
  have "s \<in> set (List.map_filter incoming_sub_session inbox)"
    using assms(2) by (force simp: set_map_filter)
  moreover then have "List.map_filter incoming_sub_session inbox \<noteq> []" by auto
  ultimately show ?thesis
    using turn_of_drain [OF assms(1)] by (auto simp: drain_def summarise_def Let_def)
qed

end

lemma queued_turn_drain:
  "queued_turn inbox asks = Some t \<Longrightarrow>
     t = (drain inbox)\<lparr> t_results := map abandoned_result (List.map_filter aq_call_id asks) \<rparr>"
  by (auto simp: queued_turn_def split: if_splits)

lemma answered_turn_drain:
  "answered_turn inbox asks answers = Inr t \<Longrightarrow>
     t = (drain inbox)\<lparr> t_answered := map aa_call_id answers, t_results := map answer_result answers \<rparr>"
  by (auto simp: answered_turn_def Let_def split: if_splits)

definition answered_turn_opt ::
    "asked_question list \<Rightarrow> ask_answer list \<Rightarrow> incoming list \<Rightarrow> turn option" where
  "answered_turn_opt asks answers inbox =
     (case answered_turn inbox asks answers of Inl e \<Rightarrow> None | Inr t \<Rightarrow> Some t)"

interpretation qturn: whole_queue "\<lambda>inbox. queued_turn inbox asks"
proof
  fix inbox t
  assume "queued_turn inbox asks = Some t"
  then have "t = (drain inbox)\<lparr> t_answered := t_answered (drain inbox),
      t_results := map abandoned_result (List.map_filter aq_call_id asks) \<rparr>"
    by (simp add: queued_turn_drain)
  then show "\<exists>ans res. t = (drain inbox)\<lparr> t_answered := ans, t_results := res \<rparr>" by blast
qed

interpretation aturn: whole_queue "answered_turn_opt asks answers"
  by unfold_locales (auto simp: answered_turn_opt_def split: sum.splits dest!: answered_turn_drain)

section \<open>When a turn starts\<close>

lemma set_pending: "set (List.map_filter aq_call_id asks) = {c. \<exists>a\<in>set asks. aq_call_id a = Some c}"
  by (rule set_map_filter)

lemma sorted_difference_props [simp]:
  "set (sorted_difference xs ys) = set xs - set ys"
  "sorted (sorted_difference xs ys)" "distinct (sorted_difference xs ys)"
  by (auto simp: sorted_difference_def)

lemma map_result_ids [simp]:
  "map ri_call_id (map abandoned_result cs) = cs"
  "map ri_call_id (map answer_result as) = map aa_call_id as"
  by (simp_all add: comp_def abandoned_result_def answer_result_def)

lemma summarise_compact:
  "(\<forall>x\<in>set (xs @ IncCompact i ins # ys). incoming_sub_session x = None) \<Longrightarrow>
   (\<forall>y\<in>set ys. incoming_compact y = None) \<Longrightarrow>
   summarise (xs @ IncCompact i ins # ys) = Some (SumCompact ins)"
proof -
  assume "\<forall>x\<in>set (xs @ IncCompact i ins # ys). incoming_sub_session x = None"
  moreover assume "\<forall>y\<in>set ys. incoming_compact y = None"
  ultimately show ?thesis
    by (simp add: summarise_def Let_def map_filter_eq_Nil find_map_append
        find_map_None [THEN iffD2] del: map_filter_append)
qed

section \<open>Properties\<close>

text \<open>
  Whichever way a turn starts, from the queue or from answers to the pending questions, it takes the
  whole queue: it consumes every queued item, its message contains the text of every item that has one, and
  it carries every subagent report and every artifact a user attached.\<close>

theorem turn_takes_the_whole_queue:
  assumes "queued_turn inbox asks = Some t \<or> answered_turn inbox asks answers = Inr t"
  shows "t_consumed t = map incoming_id inbox \<and> t_subagent_results t = List.map_filter incoming_report inbox \<and>
    (\<forall>i\<in>set inbox. \<forall>body. incoming_text i = Some body \<longrightarrow> (\<exists>msg. t_message t = Some msg \<and> sublist body msg)) \<and>
    (\<forall>i body arts. IncUser i body arts \<in> set inbox \<longrightarrow> set arts \<subseteq> set (t_artifacts t))"
  using assms
proof
  assume "queued_turn inbox asks = Some t"
  then show ?thesis
    using qturn.turn_consumes_all qturn.turn_carries_reports qturn.turn_carries_text qturn.turn_carries_artifacts
    by blast
next
  assume "answered_turn inbox asks answers = Inr t"
  then have a: "answered_turn_opt asks answers inbox = Some t" by (simp add: answered_turn_opt_def)
  show ?thesis
    using aturn.turn_consumes_all [OF a] aturn.turn_carries_reports [OF a] aturn.turn_carries_text [OF a]
      aturn.turn_carries_artifacts [OF a]
    by simp
qed

theorem turn_takes_the_whole_queue_witness:
  "\<exists>t. queued_turn [IncTimer ''t:1'' ''wake'', IncUser ''m'' ''hi'' []] [] = Some t \<and> t_consumed t = [''t:1'', ''m'']"
proof -
  obtain t where t: "queued_turn [IncTimer ''t:1'' ''wake'', IncUser ''m'' ''hi'' []] [] = Some t"
    by (simp add: queued_turn_def)
  with turn_takes_the_whole_queue [of "[IncTimer ''t:1'' ''wake'', IncUser ''m'' ''hi'' []]" "[]" t "[]"]
  show ?thesis by simp
qed

text \<open>
  Answers start a turn exactly when something is asked and the answered calls are the pending ones. A
  refusal names what is wrong: nothing is pending, or the missing and the unexpected calls, each list
  sorted, free of repetitions and exact, and not both of them empty.\<close>

theorem answers_must_match_the_questions:
  "case answered_turn inbox asks answers of
     Inr t \<Rightarrow> (\<exists>q\<in>set asks. aq_call_id q \<noteq> None) \<and>
       {c. \<exists>q\<in>set asks. aq_call_id q = Some c} = aa_call_id ` set answers \<and>
       map ri_call_id (t_results t) = map aa_call_id answers
   | Inl NothingPending \<Rightarrow> list_all (\<lambda>q. aq_call_id q = None) asks
   | Inl (Incomplete missing unexpected) \<Rightarrow>
       set missing = {c. \<exists>q\<in>set asks. aq_call_id q = Some c} - aa_call_id ` set answers \<and>
       set unexpected = aa_call_id ` set answers - {c. \<exists>q\<in>set asks. aq_call_id q = Some c} \<and>
       sorted missing \<and> distinct missing \<and> sorted unexpected \<and> distinct unexpected \<and>
       \<not> (missing = [] \<and> unexpected = [])"
proof -
  let ?p = "{c. \<exists>q\<in>set asks. aq_call_id q = Some c}" and ?a = "aa_call_id ` set answers"
  have "sorted_difference xs ys = [] \<longleftrightarrow> set xs \<subseteq> set ys" for xs ys
    by (metis Diff_eq_empty_iff set_empty sorted_difference_props(1))
  moreover have "List.map_filter aq_call_id asks = [] \<longleftrightarrow> (\<forall>q\<in>set asks. aq_call_id q = None)"
    by (rule map_filter_eq_Nil)
  ultimately show ?thesis
    by (auto simp: answered_turn_def Let_def set_pending list_all_iff comp_def answer_result_def)
qed

text \<open>
  Two answers to one pending question are accepted, because the answered calls are compared as sets:
  the turn then carries two tool results for a single tool call.\<close>

theorem duplicate_answers_are_accepted:
  assumes "aq_call_id q = Some c"
  shows "\<exists>t. answered_turn inbox [q] [\<lparr> aa_call_id = c, aa_text = x \<rparr>, \<lparr> aa_call_id = c, aa_text = y \<rparr>] = Inr t \<and>
    map ri_call_id (t_results t) = [c, c]"
  using assms by (simp add: answered_turn_def map_filter_simps answer_result_def)

theorem duplicate_answers_are_accepted_witness:
  "\<exists>t. answered_turn [] [\<lparr> aq_call_id = Some ''q'', aq_question = ''?'', aq_choices = [], aq_multiple = False \<rparr>]
     [\<lparr> aa_call_id = ''q'', aa_text = ''yes'' \<rparr>, \<lparr> aa_call_id = ''q'', aa_text = ''no'' \<rparr>] = Inr t"
  using duplicate_answers_are_accepted
    [of "\<lparr> aq_call_id = Some ''q'', aq_question = ''?'', aq_choices = [], aq_multiple = False \<rparr>" "''q''" "[]" "''yes''" "''no''"]
  by auto

end
