(* ===== verification/Timers.thy ===== *)
theory Timers
  imports Messages
begin

text \<open>
  Timers an agent arms against itself (\<^verbatim>\<open>crates/server/src/agent_loop/timers.rs\<close>) and the checks
  the \<open>set_timer\<close> and \<open>cancel_timer\<close> tools make on their input (\<open>TimerToolbox\<close> of
  \<^verbatim>\<open>agent_actor/timers.rs\<close>). A \<open>Duration\<close> is a number of milliseconds, unbounded as Rust's
  \<open>as_millis\<close> is; the fresh timer id is an argument.
\<close>

section \<open>Data\<close>

datatype timer_kind = OneShot | Recurring

record timer_record =
  tm_id :: string
  tm_label :: string
  tm_message :: string
  tm_kind :: timer_kind
  tm_interval_secs :: u64
  tm_fire_at_unix_ms :: u64
  tm_fire_count :: u64

record timer_view =
  tv_id :: string
  tv_label :: string
  tv_message :: string
  tv_kind :: string
  tv_interval_secs :: u64
  tv_fire_count :: u64
  tv_fires_in_secs :: u64

datatype cancel_selector = CancelOne string | CancelAll

record command_diagnostic =
  cd_severity :: string
  cd_code :: "string option"
  cd_message :: string
  cd_location :: "string option"

record command_failure =
  cf_exit_code :: int
  cf_diagnostics :: "command_diagnostic list"
  cf_output :: string

text \<open>\<open>Execution\<close> boxes any error; the model keeps what it displays.\<close>

datatype tool_call_error = InvalidInput string | Execution string | ExecutionFailed string
  | CommandFailed command_failure

section \<open>Operations\<close>

definition duration_from_secs :: "u64 \<Rightarrow> nat" where
  "duration_from_secs s = unat s * 1000"

definition timer_arm ::
    "string \<Rightarrow> string \<Rightarrow> string \<Rightarrow> timer_kind \<Rightarrow> nat \<Rightarrow> u64 \<Rightarrow> timer_record" where
  "timer_arm fresh lbl msg kind after now = \<lparr> tm_id = fresh, tm_label = lbl, tm_message = msg,
     tm_kind = kind, tm_interval_secs = of_nat (after div 1000),
     tm_fire_at_unix_ms = sat_add now (of_nat after), tm_fire_count = 0 \<rparr>"

definition remaining :: "timer_record \<Rightarrow> u64 \<Rightarrow> nat" where
  "remaining t now = unat (sat_sub (tm_fire_at_unix_ms t) now)"

definition wake_message :: "timer_record \<Rightarrow> u64 \<Rightarrow> string" where
  "wake_message t display_count =
     (let notice = ''Timer '' @ [CHR 0x27] @ tm_label t @ [CHR 0x27] @ '' fired (fire #''
            @ show_nat (unat display_count) @ '').''
      in if tm_message t = [] then notice else notice @ [nl, nl] @ tm_message t)"

definition timer_view_of :: "timer_record \<Rightarrow> u64 \<Rightarrow> timer_view" where
  "timer_view_of t now = \<lparr> tv_id = tm_id t, tv_label = tm_label t, tv_message = tm_message t,
     tv_kind = (case tm_kind t of OneShot \<Rightarrow> ''one_shot'' | Recurring \<Rightarrow> ''recurring''),
     tv_interval_secs = tm_interval_secs t, tv_fire_count = tm_fire_count t,
     tv_fires_in_secs = of_nat (remaining t now div 1000) \<rparr>"

text \<open>\<open>Value::get\<close>, \<open>as_str\<close>, \<open>as_u64\<close> and \<open>as_bool\<close> of a JSON value.\<close>

definition json_get :: "json \<Rightarrow> string \<Rightarrow> json option" where
  "json_get v k = (case v of JObject kvs \<Rightarrow> map_of kvs k | _ \<Rightarrow> None)"

definition json_as_str :: "json \<Rightarrow> string option" where
  "json_as_str v = (case v of JString s \<Rightarrow> Some s | _ \<Rightarrow> None)"

definition json_as_u64 :: "json \<Rightarrow> nat option" where
  "json_as_u64 v = (case v of JInt n \<Rightarrow> if 0 \<le> n \<and> n < 2 ^ 64 then Some (nat n) else None | _ \<Rightarrow> None)"

definition json_as_bool :: "json \<Rightarrow> bool option" where
  "json_as_bool v = (case v of JBool b \<Rightarrow> Some b | _ \<Rightarrow> None)"

definition get_str :: "json \<Rightarrow> string \<Rightarrow> string option" where
  "get_str v k = Option.bind (json_get v k) json_as_str"

record set_timer_args =
  sa_label :: string
  sa_message :: string
  sa_kind :: timer_kind
  sa_after_secs :: u64

definition timer_kind_of :: "string option \<Rightarrow> timer_kind option" where
  "timer_kind_of k = (if k = Some ''one_shot'' then Some OneShot
     else if k = Some ''recurring'' then Some Recurring else None)"

definition parse_set_timer :: "json \<Rightarrow> tool_call_error + set_timer_args" where
  "parse_set_timer input =
     (case timer_kind_of (get_str input ''kind'') of
        None \<Rightarrow> Inl (InvalidInput (''set_timer.kind must be 'one_shot' or 'recurring'' @ [CHR 0x27]))
      | Some kind \<Rightarrow>
          (case Option.bind (json_get input ''after_secs'') json_as_u64 of
             None \<Rightarrow> Inl (InvalidInput ''set_timer.after_secs must be an integer >= 1'')
           | Some n \<Rightarrow>
               if n < 1 then Inl (InvalidInput ''set_timer.after_secs must be an integer >= 1'')
               else
                 (let lbl = (case get_str input ''label'' of Some l \<Rightarrow> l | None \<Rightarrow> '''')
                  in case get_str input ''message'' of
                       None \<Rightarrow> Inl (InvalidInput ''set_timer.message must be a non-empty string'')
                     | Some msg \<Rightarrow>
                         if msg = [] then
                           Inl (InvalidInput ''set_timer.message must be a non-empty string'')
                         else Inr \<lparr> sa_label = lbl, sa_message = msg, sa_kind = kind,
                                    sa_after_secs = of_nat n \<rparr>)))"

definition parse_cancel_timer :: "json \<Rightarrow> tool_call_error + cancel_selector" where
  "parse_cancel_timer input =
     (if Option.bind (json_get input ''all'') json_as_bool = Some True then Inr CancelAll
      else case get_str input ''id'' of
             Some i \<Rightarrow> Inr (CancelOne i)
           | None \<Rightarrow> Inl (InvalidInput ''cancel_timer requires 'id' or 'all': true''))"

definition timer_rearm :: "timer_record \<Rightarrow> u64 \<Rightarrow> u64 option" where
  "timer_rearm t now = (case tm_kind t of
     Recurring \<Rightarrow> Some (sat_add now (sat_mul (tm_interval_secs t) 1000))
   | OneShot \<Rightarrow> None)"

definition cancel_ids :: "timer_record list \<Rightarrow> cancel_selector \<Rightarrow> string list" where
  "cancel_ids ts sel = (case sel of
     CancelAll \<Rightarrow> map tm_id ts
   | CancelOne i \<Rightarrow> if list_ex (\<lambda>t. tm_id t = i) ts then [i] else [])"

text \<open>The three folds over the list of armed timers.\<close>

fun update_first :: "('a \<Rightarrow> bool) \<Rightarrow> ('a \<Rightarrow> 'a) \<Rightarrow> 'a list \<Rightarrow> 'a list" where
  "update_first p f [] = []"
| "update_first p f (x # xs) = (if p x then f x # xs else x # update_first p f xs)"

definition timers_cancelled :: "string list \<Rightarrow> timer_record list \<Rightarrow> timer_record list" where
  "timers_cancelled ids ts = filter (\<lambda>t. tm_id t \<notin> set ids) ts"

definition timers_fired :: "string \<Rightarrow> u64 option \<Rightarrow> timer_record list \<Rightarrow> timer_record list" where
  "timers_fired i nxt ts = (case nxt of
     Some n \<Rightarrow> update_first (\<lambda>t. tm_id t = i)
       (\<lambda>t. t\<lparr> tm_fire_at_unix_ms := n, tm_fire_count := tm_fire_count t + 1 \<rparr>) ts
   | None \<Rightarrow> filter (\<lambda>t. tm_id t \<noteq> i) ts)"

section \<open>Lemmas\<close>

lemma map_id_update_first:
  "(\<And>x. g (f x) = g x) \<Longrightarrow> map g (update_first p f xs) = map g xs"
  by (induction xs) auto

lemma ids_timers_fired_rearm [simp]: "map tm_id (timers_fired i (Some n) ts) = map tm_id ts"
  by (simp add: timers_fired_def map_id_update_first)

lemma ids_timers_fired_once [simp]:
  "map tm_id (timers_fired i None ts) = filter (\<lambda>j. j \<noteq> i) (map tm_id ts)"
  by (simp add: timers_fired_def filter_map comp_def)

lemma ids_timers_cancelled [simp]:
  "map tm_id (timers_cancelled ids ts) = filter (\<lambda>j. j \<notin> set ids) (map tm_id ts)"
  by (simp add: timers_cancelled_def filter_map comp_def)

lemma cancel_ids_subset: "set (cancel_ids ts sel) \<subseteq> set (map tm_id ts)"
  by (auto simp: cancel_ids_def list_ex_iff split: cancel_selector.splits)

text \<open>A timer armed for a delay that fits 64 bits of milliseconds fires no earlier than asked.\<close>

lemma unat_of_nat_u64: "n < 2 ^ 64 \<Longrightarrow> unat (of_nat n :: u64) = n"
  by (simp add: unat_of_nat take_bit_nat_eq_self)

lemma remaining_timer_arm:
  assumes "after < 2 ^ 64" "unat now + after < 2 ^ 64"
  shows "remaining (timer_arm i l m k after now) now = after"
  using assms by (simp add: remaining_def timer_arm_def sat_simps unat_of_nat_u64)

lemma unat_rearm:
  assumes "tm_kind t = Recurring" "unat now + unat (tm_interval_secs t) * 1000 < 2 ^ 64"
  shows "\<exists>n. timer_rearm t now = Some n \<and> unat n = unat now + unat (tm_interval_secs t) * 1000"
  using assms by (simp add: timer_rearm_def sat_simps)

lemma json_as_u64_bound: "json_as_u64 v = Some n \<Longrightarrow> n < 2 ^ 64"
  by (auto simp: json_as_u64_def split: json.splits if_splits)

lemma parse_set_timer_ok:
  assumes "parse_set_timer v = Inr a"
  shows "1 \<le> unat (sa_after_secs a) \<and> sa_message a \<noteq> []"
proof -
  obtain n where n: "Option.bind (json_get v ''after_secs'') json_as_u64 = Some n" "1 \<le> n"
    and a: "sa_after_secs a = of_nat n" "sa_message a \<noteq> []"
    using assms
    by (auto simp: parse_set_timer_def Let_def split: option.splits if_splits)
  from n(1) have "n < 2 ^ 64" by (auto simp: bind_eq_Some_conv dest: json_as_u64_bound)
  with n(2) a show ?thesis by (simp add: unat_of_nat_u64 del: of_nat_numeral)
qed

section \<open>Properties\<close>

text \<open>
  As long as the instant it would fire at fits 64 bits of milliseconds, a timer armed now has exactly
  the delay asked for remaining, and a recurring one re-armed on firing fires its interval later; past that
  the instant saturates at the largest one and never wraps to an earlier one.\<close>

theorem timer_keeps_its_delay:
  assumes "after_ms < 2 ^ 64"
  shows "(unat now + after_ms < 2 ^ 64 \<longrightarrow> remaining (timer_arm i l m k after_ms now) now = after_ms) \<and>
    now \<le> tm_fire_at_unix_ms (timer_arm i l m k after_ms now) \<and>
    (tm_kind t = Recurring \<longrightarrow> (\<exists>n. timer_rearm t now = Some n \<and> now \<le> n \<and>
       (unat now + unat (tm_interval_secs t) * 1000 < 2 ^ 64 \<longrightarrow> unat n = unat now + unat (tm_interval_secs t) * 1000)))"
  using remaining_timer_arm [OF assms] unat_rearm [of t now]
  by (auto simp: timer_arm_def timer_rearm_def sat_add_mono)

theorem timer_keeps_its_delay_witness:
  "remaining (timer_arm ''t'' ''l'' ''m'' OneShot 5000 10) 10 = 5000"
  using timer_keeps_its_delay [of 5000 10 "''t''" "''l''" "''m''" OneShot undefined] by simp

text \<open>
  Arming does not saturate the delay as re-arming does: the milliseconds are truncated to 64 bits
  first. A timer asked to fire after 18446744073709552 seconds, which the tool accepts, fires 384
  milliseconds after it is armed.\<close>

theorem huge_delay_fires_at_once:
  "remaining (timer_arm i l m k (duration_from_secs 18446744073709552) 0) 0 = 384"
  by (simp add: remaining_def timer_arm_def duration_from_secs_def sat_simps)

text \<open>
  The \<open>set_timer\<close> tool only ever arms a timer with a delay of at least one second and a message that
  is not empty; \<open>cancel_timer\<close> only ever names timers that are armed.
\<close>

theorem timer_tools_validate:
  "(\<forall>a. parse_set_timer v = Inr a \<longrightarrow> 1 \<le> unat (sa_after_secs a) \<and> sa_message a \<noteq> []) \<and>
   set (cancel_ids ts sel) \<subseteq> set (map tm_id ts)"
  using parse_set_timer_ok cancel_ids_subset by blast

theorem timer_tools_validate_witness:
  "\<exists>a. parse_set_timer (JObject [(''kind'', JString ''one_shot''), (''after_secs'', JInt 5), (''message'', JString ''go'')]) = Inr a
     \<and> 1 \<le> unat (sa_after_secs a)"
proof -
  let ?v = "JObject [(''kind'', JString ''one_shot''), (''after_secs'', JInt 5), (''message'', JString ''go'')]"
  have "case parse_set_timer ?v of Inr a \<Rightarrow> True | Inl e \<Rightarrow> False" by code_simp
  then obtain a where "parse_set_timer ?v = Inr a" by (auto split: sum.splits)
  then show ?thesis using timer_tools_validate [of ?v "[]" CancelAll] by blast
qed

end
