(* ===== verification/Task_List.thy ===== *)
theory Task_List
  imports Messages
begin

text \<open>
  The \<open>task_list\<close> tool's durable state and its transitions
  (\<^verbatim>\<open>crates/server/src/agent_loop/task_list.rs\<close>). An action is applied to a copy of the list; the
  error branches leave nothing behind. The invariant \<open>task_list_wf\<close>, that ids are distinct and below
  the next free one, is kept by every action, and the locale \<open>event_sourced\<close> lifts it to any
  sequence of actions.
\<close>

section \<open>Data\<close>

definition TASK_LIST_TOOL :: string where "TASK_LIST_TOOL = ''task_list''"

definition marker :: "task_status \<Rightarrow> string" where
  "marker s = (case s of TPending \<Rightarrow> '' '' | TInProgress \<Rightarrow> ''>'' | TCompleted \<Rightarrow> ''x'')"

definition label :: "task_status \<Rightarrow> string" where
  "label s = (case s of TPending \<Rightarrow> ''pending'' | TInProgress \<Rightarrow> ''in_progress''
     | TCompleted \<Rightarrow> ''completed'')"

record task_record =
  tk_id :: nat
  tk_content :: string
  tk_status :: task_status

definition wire_task :: "task_record \<Rightarrow> task_item" where
  "wire_task t = \<lparr> ti_id = tk_id t, ti_content = tk_content t, ti_status = tk_status t \<rparr>"

record task_list_state =
  tl_tasks :: "task_record list"
  tl_next_id :: nat

definition task_list_default :: task_list_state where
  "task_list_default = \<lparr> tl_tasks = [], tl_next_id = 1 \<rparr>"

datatype task_list_action =
    TaskCreate "string list"
  | TaskInsert "string list" "nat option"
  | TaskUpdateStatus "nat list" task_status
  | TaskListAll

section \<open>Operations\<close>

definition wire_tasks :: "task_list_state \<Rightarrow> task_item list" where
  "wire_tasks s = map wire_task (tl_tasks s)"

definition done_count :: "task_list_state \<Rightarrow> nat" where
  "done_count s = length (filter (\<lambda>t. tk_status t = TCompleted) (tl_tasks s))"

definition render_line :: "task_record \<Rightarrow> string" where
  "render_line t = ''['' @ marker (tk_status t) @ ''] '' @ show_nat (tk_id t) @ ''. '' @ tk_content t @ [nl]"

definition render :: "task_list_state \<Rightarrow> string" where
  "render s =
     (if tl_tasks s = [] then ''No tasks.''
      else butlast (''Tasks ('' @ show_nat (done_count s) @ ''/'' @ show_nat (length (tl_tasks s))
             @ '' done):'' @ [nl] @ concat (map render_line (tl_tasks s))))"

definition progress :: "task_list_state \<Rightarrow> string" where
  "progress s = ''Progress: '' @ show_nat (done_count s) @ ''/'' @ show_nat (length (tl_tasks s))
     @ '' complete.''"

definition right_arrow :: string where "right_arrow = [CHR 0xE2, CHR 0x86, CHR 0x92]"

definition render_result :: "task_list_state \<Rightarrow> task_list_action \<Rightarrow> string" where
  "render_result s action = (case action of
     TaskCreate ts \<Rightarrow> render s
   | TaskListAll \<Rightarrow> render s
   | TaskInsert ts pos \<Rightarrow>
       ''Inserted task(s) '' @ join '', '' (map show_nat [tl_next_id s - length ts ..< tl_next_id s])
       @ ''. '' @ progress s
   | TaskUpdateStatus ids st \<Rightarrow>
       ''Task(s) '' @ join '', '' (map show_nat ids) @ '' '' @ right_arrow @ '' '' @ label st @ ''. ''
       @ progress s)"

definition new_tasks :: "nat \<Rightarrow> string list \<Rightarrow> task_record list" where
  "new_tasks first ts =
     map (\<lambda>(i, c). \<lparr> tk_id = i, tk_content = c, tk_status = TPending \<rparr>)
       (zip [first ..< first + length ts] ts)"

definition set_status :: "nat list \<Rightarrow> task_status \<Rightarrow> task_record \<Rightarrow> task_record" where
  "set_status ids st t = (if tk_id t \<in> set ids then t\<lparr> tk_status := st \<rparr> else t)"

text \<open>\<open>TaskListState::apply\<close>: \<open>Inl\<close> the refusal, \<open>Inr\<close> the new list.\<close>

fun task_apply :: "task_list_state \<Rightarrow> task_list_action \<Rightarrow> string + task_list_state" where
  "task_apply s (TaskCreate ts) =
     (if ts = [] then Inl '''tasks' must not be empty''
      else Inr (s\<lparr> tl_tasks := new_tasks 1 ts, tl_next_id := length (new_tasks 1 ts) + 1 \<rparr>))"
| "task_apply s (TaskInsert ts pos) =
     (if ts = [] then Inl '''tasks' must not be empty''
      else
        (let len = length (tl_tasks s);
             position = (case pos of Some p \<Rightarrow> p | None \<Rightarrow> len)
         in if position > len then
              Inl (''position '' @ show_nat position @ '' is out of range; list has '' @ show_nat len
                   @ '' task(s)'')
            else Inr (s\<lparr> tl_tasks := take position (tl_tasks s) @ new_tasks (tl_next_id s) ts
                          @ drop position (tl_tasks s),
                        tl_next_id := tl_next_id s + length ts \<rparr>)))"
| "task_apply s (TaskUpdateStatus ids st) =
     (if ids = [] then Inl '''ids' must not be empty''
      else
        (let missing = filter (\<lambda>i. \<not> list_ex (\<lambda>t. tk_id t = i) (tl_tasks s)) ids
         in if missing \<noteq> [] then Inl (''unknown task id(s): '' @ join '', '' (map show_nat missing))
            else Inr (s\<lparr> tl_tasks := map (set_status ids st) (tl_tasks s) \<rparr>)))"
| "task_apply s TaskListAll = Inr s"

text \<open>The mailbox handler keeps the old list on a refusal.\<close>

definition task_step :: "task_list_state \<Rightarrow> task_list_action \<Rightarrow> task_list_state" where
  "task_step s a = (case task_apply s a of Inl e \<Rightarrow> s | Inr s' \<Rightarrow> s')"

section \<open>The invariant\<close>

definition task_list_wf :: "task_list_state \<Rightarrow> bool" where
  "task_list_wf s \<longleftrightarrow> distinct (map tk_id (tl_tasks s)) \<and>
     (\<forall>t\<in>set (tl_tasks s). 1 \<le> tk_id t \<and> tk_id t < tl_next_id s) \<and> 1 \<le> tl_next_id s"

lemma length_new_tasks [simp]: "length (new_tasks n ts) = length ts"
  by (simp add: new_tasks_def)

lemma ids_new_tasks [simp]: "map tk_id (new_tasks n ts) = [n ..< n + length ts]"
  by (rule nth_equalityI) (simp_all add: new_tasks_def)

lemma contents_new_tasks [simp]: "map tk_content (new_tasks n ts) = ts"
  by (rule nth_equalityI) (simp_all add: new_tasks_def)

lemma new_tasks_pending: "t \<in> set (new_tasks n ts) \<Longrightarrow> tk_status t = TPending"
  by (auto simp: new_tasks_def)

lemma id_in_new_tasks: "t \<in> set (new_tasks n ts) \<Longrightarrow> n \<le> tk_id t \<and> tk_id t < n + length ts"
proof -
  assume "t \<in> set (new_tasks n ts)"
  then have "tk_id t \<in> tk_id ` set (new_tasks n ts)" by (rule imageI)
  then have "tk_id t \<in> set (map tk_id (new_tasks n ts))" by (simp only: set_map)
  then show ?thesis by (simp only: ids_new_tasks set_upt atLeastLessThan_iff)
qed

lemma tk_id_set_status [simp]: "tk_id (set_status ids st t) = tk_id t"
  "tk_content (set_status ids st t) = tk_content t"
  by (simp_all add: set_status_def)

lemma map_id_set_status [simp]: "map (tk_id \<circ> set_status ids st) ts = map tk_id ts"
  by (simp add: comp_def)

lemma task_list_wf_default [simp]: "task_list_wf task_list_default"
  by (simp add: task_list_wf_def task_list_default_def)

lemma task_list_wf_insert:
  assumes "task_list_wf s"
  shows "task_list_wf (s\<lparr> tl_tasks := take p (tl_tasks s) @ new_tasks (tl_next_id s) ts
      @ drop p (tl_tasks s), tl_next_id := tl_next_id s + length ts \<rparr>)"
proof -
  let ?old = "map tk_id (tl_tasks s)" and ?new = "[tl_next_id s ..< tl_next_id s + length ts]"
  have "distinct ?old" and old: "\<forall>i\<in>set ?old. 1 \<le> i \<and> i < tl_next_id s"
    using assms by (auto simp: task_list_wf_def)
  moreover from this(1) have "set (take p ?old) \<inter> set (drop p ?old) = {}"
    by (rule set_take_disj_set_drop_if_distinct) simp
  moreover have "set (take p ?old) \<inter> set ?new = {}" "set (drop p ?old) \<inter> set ?new = {}"
    using old by (fastforce dest!: in_set_takeD in_set_dropD)+
  ultimately have "distinct (take p ?old @ ?new @ drop p ?old)"
    by (simp add: distinct_append Int_Un_distrib Int_commute)
  then show ?thesis
    using assms by (auto simp: task_list_wf_def take_map drop_map
        dest!: in_set_takeD in_set_dropD id_in_new_tasks)
qed

lemma task_apply_wf: "task_list_wf s \<Longrightarrow> task_apply s a = Inr s' \<Longrightarrow> task_list_wf s'"
proof (cases a)
  case (TaskCreate ts)
  assume "task_apply s a = Inr s'"
  with TaskCreate show ?thesis
    by (auto simp: task_list_wf_def split: if_splits dest!: id_in_new_tasks)
next
  case (TaskInsert ts pos)
  assume "task_list_wf s" "task_apply s a = Inr s'"
  with TaskInsert show ?thesis
    by (auto simp: Let_def split: if_splits intro: task_list_wf_insert)
next
  case (TaskUpdateStatus ids st)
  assume "task_list_wf s" "task_apply s a = Inr s'"
  with TaskUpdateStatus show ?thesis
    by (auto simp: task_list_wf_def Let_def split: if_splits)
qed auto

interpretation tasks: event_sourced task_step task_list_default task_list_wf "\<lambda>_. True"
  by unfold_locales (auto simp: task_step_def split: sum.splits intro: task_apply_wf)

section \<open>What an action does to the tasks already there\<close>

lemma task_insert_keeps:
  assumes "task_apply s (TaskInsert ts pos) = Inr s'"
  shows "filter (\<lambda>t. tk_id t < tl_next_id s) (tl_tasks s') = filter (\<lambda>t. tk_id t < tl_next_id s) (tl_tasks s)"
proof -
  have "filter (\<lambda>t. tk_id t < tl_next_id s) (new_tasks (tl_next_id s) ts) = []"
    by (auto simp: filter_empty_conv dest!: id_in_new_tasks)
  moreover have "filter P (take p xs) @ filter P (drop p xs) = filter P xs"
    for P and p and xs :: "task_record list"
    by (simp flip: filter_append)
  ultimately show ?thesis
    using assms by (auto simp: Let_def split: if_splits)
qed

lemma task_update_status_get:
  assumes "task_apply s (TaskUpdateStatus ids st) = Inr s'"
  shows "set ids \<subseteq> tk_id ` set (tl_tasks s) \<and> map tk_id (tl_tasks s') = map tk_id (tl_tasks s) \<and>
    map tk_content (tl_tasks s') = map tk_content (tl_tasks s) \<and>
    (\<forall>t'\<in>set (tl_tasks s'). if tk_id t' \<in> set ids then tk_status t' = st else t' \<in> set (tl_tasks s))"
  using assms
  by (auto simp: Let_def filter_empty_conv list_ex_iff comp_def set_status_def split: if_splits)

section \<open>Properties\<close>

text \<open>
  Whatever actions an agent applies to its task list, in whatever order and whether or not they are
  refused, the ids of its tasks stay distinct, at least 1 and below the next id to be handed out.\<close>

theorem task_ids_stay_distinct:
  "distinct (map tk_id (tl_tasks (foldl task_step task_list_default actions))) \<and>
   list_all (\<lambda>t. 1 \<le> tk_id t \<and> tk_id t < tl_next_id (foldl task_step task_list_default actions))
     (tl_tasks (foldl task_step task_list_default actions))"
  using tasks.inv_replay [of actions] by (simp add: task_list_wf_def list_all_iff)

text \<open>
  Inserting tasks leaves every task that was there as it was and in the same order, and gives the new
  ones, all pending, the next ids. Updating statuses is all or nothing: it succeeds only when every id
  named exists, and then sets exactly those and touches no id, no text and no other task.\<close>

theorem task_actions_frame:
  assumes "task_list_wf s"
  shows "(task_apply s (TaskInsert ts pos) = Inr s1 \<longrightarrow>
      filter (\<lambda>t. tk_id t < tl_next_id s) (tl_tasks s1) = tl_tasks s \<and>
      filter (\<lambda>t. tl_next_id s \<le> tk_id t) (tl_tasks s1) = new_tasks (tl_next_id s) ts) \<and>
    (task_apply s (TaskUpdateStatus ids st) = Inr s2 \<longrightarrow>
      set ids \<subseteq> tk_id ` set (tl_tasks s) \<and> map tk_id (tl_tasks s2) = map tk_id (tl_tasks s) \<and>
      map tk_content (tl_tasks s2) = map tk_content (tl_tasks s) \<and>
      (\<forall>t\<in>set (tl_tasks s2). if tk_id t \<in> set ids then tk_status t = st else t \<in> set (tl_tasks s)))"
proof -
  have old: "filter (\<lambda>t. tk_id t < tl_next_id s) (tl_tasks s) = tl_tasks s"
    "filter (\<lambda>t. tl_next_id s \<le> tk_id t) (take p (tl_tasks s)) = []"
    "filter (\<lambda>t. tl_next_id s \<le> tk_id t) (drop p (tl_tasks s)) = []" for p
    using assms by (auto simp: task_list_wf_def filter_id_conv filter_empty_conv dest!: in_set_takeD in_set_dropD)
  have new: "filter (\<lambda>t. tl_next_id s \<le> tk_id t) (new_tasks (tl_next_id s) ts) = new_tasks (tl_next_id s) ts"
    by (auto simp: filter_id_conv dest!: id_in_new_tasks)
  show ?thesis
    using task_insert_keeps [of s ts pos s1] task_update_status_get [of s ids st s2] old new
    by (auto simp: Let_def split: if_splits)
qed

theorem task_actions_frame_witness:
  "\<exists>s1. task_apply task_list_default (TaskInsert [''a'', ''b''] None) = Inr s1 \<and>
     filter (\<lambda>t. 1 \<le> tk_id t) (tl_tasks s1) = new_tasks 1 [''a'', ''b'']"
proof -
  obtain s1 where s1: "task_apply task_list_default (TaskInsert [''a'', ''b''] None) = Inr s1"
    by (simp add: task_list_default_def)
  with task_actions_frame [OF task_list_wf_default, of "[''a'', ''b'']" None s1 "[]" TPending s1] show ?thesis
    by (simp add: task_list_default_def)
qed

end
