(* ===== verification/Usage.thy ===== *)
theory Usage
  imports Messages
begin

text \<open>
  The running totals an agent keeps (\<open>UsageTotal\<close> and \<open>AgentEfficiencyStats\<close> of
  \<^verbatim>\<open>crates/server/src/agent_loop/agent_actor/state.rs\<close>): sums of 32-bit provider counters in 64-bit
  totals that saturate. Both \<open>combine\<close> operations satisfy the contract \<open>aggregation\<close>, so a
  session-level total does not depend on the order its agents are visited in.
\<close>

section \<open>Token totals\<close>

record usage_total =
  ut_input_tokens :: u64
  ut_output_tokens :: u64
  ut_cache_creation_tokens :: "u64 option"
  ut_cache_read_tokens :: "u64 option"

definition usage_total_default :: usage_total where
  "usage_total_default = \<lparr> ut_input_tokens = 0, ut_output_tokens = 0,
     ut_cache_creation_tokens = None, ut_cache_read_tokens = None \<rparr>"

definition opt_or_zero :: "'a::len word option \<Rightarrow> 'a word" where
  "opt_or_zero x = (case x of Some w \<Rightarrow> w | None \<Rightarrow> 0)"

definition add_optional :: "u64 option \<Rightarrow> u32 option \<Rightarrow> u64 option" where
  "add_optional tot delta =
     (if tot = None \<and> delta = None then None
      else Some (sat_add (opt_or_zero tot) (ucast (opt_or_zero delta))))"

definition combine_optional :: "u64 option \<Rightarrow> u64 option \<Rightarrow> u64 option" where
  "combine_optional a b =
     (if a = None \<and> b = None then None else Some (sat_add (opt_or_zero a) (opt_or_zero b)))"

definition usage_add :: "usage_total \<Rightarrow> usage \<Rightarrow> usage_total" where
  "usage_add t u = \<lparr>
     ut_input_tokens = sat_add (ut_input_tokens t) (ucast (u_input_tokens u)),
     ut_output_tokens = sat_add (ut_output_tokens t) (ucast (u_output_tokens u)),
     ut_cache_creation_tokens = add_optional (ut_cache_creation_tokens t) (u_cache_creation_tokens u),
     ut_cache_read_tokens = add_optional (ut_cache_read_tokens t) (u_cache_read_tokens u) \<rparr>"

definition usage_combine :: "usage_total \<Rightarrow> usage_total \<Rightarrow> usage_total" where
  "usage_combine a b = \<lparr>
     ut_input_tokens = sat_add (ut_input_tokens a) (ut_input_tokens b),
     ut_output_tokens = sat_add (ut_output_tokens a) (ut_output_tokens b),
     ut_cache_creation_tokens =
       combine_optional (ut_cache_creation_tokens a) (ut_cache_creation_tokens b),
     ut_cache_read_tokens = combine_optional (ut_cache_read_tokens a) (ut_cache_read_tokens b) \<rparr>"

section \<open>Efficiency counters\<close>

record efficiency_stats =
  ef_provider_calls :: u64
  ef_provider_generation_ms :: u64
  ef_max_provider_generation_ms :: u64
  ef_tool_calls :: u64
  ef_result_tool_calls :: u64
  ef_tool_execution_ms :: u64
  ef_max_tool_execution_ms :: u64
  ef_failed_tool_calls :: u64
  ef_tool_result_bytes :: u64
  ef_original_tool_result_bytes :: u64
  ef_truncated_tool_result_bytes :: u64
  ef_spilled_tool_result_bytes :: u64
  ef_completed_runs :: u64
  ef_aborted_runs :: u64
  ef_compactions :: u64

definition efficiency_default :: efficiency_stats where
  "efficiency_default = \<lparr> ef_provider_calls = 0, ef_provider_generation_ms = 0,
     ef_max_provider_generation_ms = 0, ef_tool_calls = 0, ef_result_tool_calls = 0,
     ef_tool_execution_ms = 0, ef_max_tool_execution_ms = 0, ef_failed_tool_calls = 0,
     ef_tool_result_bytes = 0, ef_original_tool_result_bytes = 0,
     ef_truncated_tool_result_bytes = 0, ef_spilled_tool_result_bytes = 0,
     ef_completed_runs = 0, ef_aborted_runs = 0, ef_compactions = 0 \<rparr>"

definition efficiency_combine :: "efficiency_stats \<Rightarrow> efficiency_stats \<Rightarrow> efficiency_stats" where
  "efficiency_combine a b = \<lparr>
     ef_provider_calls = sat_add (ef_provider_calls a) (ef_provider_calls b),
     ef_provider_generation_ms = sat_add (ef_provider_generation_ms a) (ef_provider_generation_ms b),
     ef_max_provider_generation_ms =
       max (ef_max_provider_generation_ms a) (ef_max_provider_generation_ms b),
     ef_tool_calls = sat_add (ef_tool_calls a) (ef_tool_calls b),
     ef_result_tool_calls = sat_add (ef_result_tool_calls a) (ef_result_tool_calls b),
     ef_tool_execution_ms = sat_add (ef_tool_execution_ms a) (ef_tool_execution_ms b),
     ef_max_tool_execution_ms = max (ef_max_tool_execution_ms a) (ef_max_tool_execution_ms b),
     ef_failed_tool_calls = sat_add (ef_failed_tool_calls a) (ef_failed_tool_calls b),
     ef_tool_result_bytes = sat_add (ef_tool_result_bytes a) (ef_tool_result_bytes b),
     ef_original_tool_result_bytes =
       sat_add (ef_original_tool_result_bytes a) (ef_original_tool_result_bytes b),
     ef_truncated_tool_result_bytes =
       sat_add (ef_truncated_tool_result_bytes a) (ef_truncated_tool_result_bytes b),
     ef_spilled_tool_result_bytes =
       sat_add (ef_spilled_tool_result_bytes a) (ef_spilled_tool_result_bytes b),
     ef_completed_runs = sat_add (ef_completed_runs a) (ef_completed_runs b),
     ef_aborted_runs = sat_add (ef_aborted_runs a) (ef_aborted_runs b),
     ef_compactions = sat_add (ef_compactions a) (ef_compactions b) \<rparr>"

section \<open>Both totals satisfy the aggregation contract\<close>

lemma combine_optional_props:
  "combine_optional (combine_optional a b) c = combine_optional a (combine_optional b c)"
  "combine_optional a b = combine_optional b a"
  "combine_optional None a = a"
  by (auto simp: combine_optional_def opt_or_zero_def sat_add_assoc split: option.splits
      intro: sat_add_commute)

interpretation usage_sum: aggregation usage_combine usage_total_default
proof
  show "usage_combine (usage_combine a b) c = usage_combine a (usage_combine b c)" for a b c
    by (simp add: usage_combine_def sat_add_assoc combine_optional_props(1))
  show "usage_combine a b = usage_combine b a" for a b
    by (simp add: usage_combine_def sat_add_commute combine_optional_props(2))
  show "usage_combine usage_total_default a = a" for a
    by (simp add: usage_combine_def usage_total_default_def combine_optional_props(3))
qed

interpretation efficiency_sum: aggregation efficiency_combine efficiency_default
proof
  show "efficiency_combine (efficiency_combine a b) c = efficiency_combine a (efficiency_combine b c)"
    for a b c by (simp add: efficiency_combine_def sat_add_assoc max.assoc)
  show "efficiency_combine a b = efficiency_combine b a" for a b
    by (simp add: efficiency_combine_def sat_add_commute max.commute)
  show "efficiency_combine efficiency_default a = a" for a
    by (simp add: efficiency_combine_def efficiency_default_def max_def)
qed

section \<open>Totals never go down\<close>

definition usage_le :: "usage_total \<Rightarrow> usage_total \<Rightarrow> bool" where
  "usage_le a b \<longleftrightarrow> ut_input_tokens a \<le> ut_input_tokens b \<and> ut_output_tokens a \<le> ut_output_tokens b \<and>
     opt_or_zero (ut_cache_creation_tokens a) \<le> opt_or_zero (ut_cache_creation_tokens b) \<and>
     opt_or_zero (ut_cache_read_tokens a) \<le> opt_or_zero (ut_cache_read_tokens b)"

lemma add_optional_mono: "opt_or_zero a \<le> opt_or_zero (add_optional a b)"
  by (auto simp: add_optional_def opt_or_zero_def sat_add_mono split: option.splits)

lemma usage_le_refl [simp]: "usage_le a a"
  by (simp add: usage_le_def)

lemma usage_le_trans: "usage_le a b \<Longrightarrow> usage_le b c \<Longrightarrow> usage_le a c"
  by (auto simp: usage_le_def)

lemma usage_add_mono: "usage_le t (usage_add t u)"
  by (simp add: usage_le_def usage_add_def sat_add_mono add_optional_mono)

text \<open>Below the 64-bit ceiling the total is the exact sum.\<close>

lemma unat_ucast_u32: "unat (ucast (w :: u32) :: u64) = unat w"
proof -
  have "unat w < 2 ^ 64" using unat_less_len [of w] by simp
  then show ?thesis by (simp add: unsigned_ucast_eq take_bit_nat_eq_self)
qed

lemma unat_usage_add:
  assumes "unat (ut_input_tokens t) + unat (u_input_tokens u) < 2 ^ 64"
  shows "unat (ut_input_tokens (usage_add t u)) = unat (ut_input_tokens t) + unat (u_input_tokens u)"
  using assms by (simp add: usage_add_def sat_simps unat_ucast_u32)

section \<open>Properties\<close>

text \<open>
  The totals a session reports over its agents do not depend on the order the agents are visited in,
  for the token totals and for the efficiency counters alike, although every sum saturates.\<close>

theorem totals_ignore_order:
  assumes "mset us = mset us'" "mset es = mset es'"
  shows "foldr usage_combine us usage_total_default = foldr usage_combine us' usage_total_default \<and>
    foldr efficiency_combine es efficiency_default = foldr efficiency_combine es' efficiency_default"
  using usage_sum.aggregate_permute [OF assms(1)] efficiency_sum.aggregate_permute [OF assms(2)] by blast

theorem totals_ignore_order_witness:
  "foldr usage_combine [usage_add usage_total_default \<lparr> u_input_tokens = 3, u_output_tokens = 1,
       u_cache_creation_tokens = None, u_cache_read_tokens = None \<rparr>, usage_total_default] usage_total_default =
   foldr usage_combine [usage_total_default, usage_add usage_total_default \<lparr> u_input_tokens = 3, u_output_tokens = 1,
       u_cache_creation_tokens = None, u_cache_read_tokens = None \<rparr>] usage_total_default"
  using totals_ignore_order [THEN conjunct1, of
      "[usage_add usage_total_default \<lparr> u_input_tokens = 3, u_output_tokens = 1,
         u_cache_creation_tokens = None, u_cache_read_tokens = None \<rparr>, usage_total_default]"
      "[usage_total_default, usage_add usage_total_default \<lparr> u_input_tokens = 3, u_output_tokens = 1,
         u_cache_creation_tokens = None, u_cache_read_tokens = None \<rparr>]" "[]" "[]"]
  by simp

end
