(* ===== verification/Agent_State.thy ===== *)
theory Agent_State
  imports Hook_Translation Inbox Timers Task_List Usage
begin

text \<open>
  The durable state of one agent and the fold of its journal: \<open>AgentState\<close>
  (\<^verbatim>\<open>agent_actor/state.rs\<close>), \<open>AgentDomainEvent\<close> (\<^verbatim>\<open>types.rs\<close>), the \<open>apply\<close> of every module
  (\<^verbatim>\<open>queue.rs\<close>, \<^verbatim>\<open>run.rs\<close>, \<^verbatim>\<open>log.rs\<close>, \<^verbatim>\<open>timers.rs\<close>, \<^verbatim>\<open>task_list.rs\<close>, \<^verbatim>\<open>compaction.rs\<close>, \<^verbatim>\<open>seed.rs\<close>),
  \<open>apply_event\<close> (\<^verbatim>\<open>mod.rs\<close>), the prompt the state shows a provider (\<open>prompt_messages\<close>) and the
  snapshot a sub session starts from. The log invariant \<open>log_wf\<close> says that the sequence numbers are
  exactly \<open>0, 1, \<dots>\<close> up to the next one to hand out; \<open>state_wf\<close> adds the task list's. The locale
  \<open>event_sourced\<close> is interpreted on \<open>apply_event\<close>.
\<close>

section \<open>State\<close>

record agent_state =
  st_log :: "log_entry list"
  st_next_seq :: nat
  st_inbox :: "incoming list"
  st_asks :: "asked_question list"
  st_timers :: "timer_record list"
  st_parked :: bool
  st_nudges :: u32
  st_turn_in_flight :: bool
  st_task_list :: task_list_state
  st_usage_total :: usage_total
  st_last_turn_usage :: "usage option"
  st_context_tokens :: u32
  st_efficiency :: efficiency_stats

definition agent_state_default :: agent_state where
  "agent_state_default = \<lparr> st_log = [], st_next_seq = 0, st_inbox = [], st_asks = [], st_timers = [],
     st_parked = False, st_nudges = 0, st_turn_in_flight = False, st_task_list = task_list_default,
     st_usage_total = usage_total_default, st_last_turn_usage = None, st_context_tokens = 0,
     st_efficiency = efficiency_default \<rparr>"

record tool_complete =
  tco_call_id :: string
  tco_output :: string
  tco_is_error :: bool
  tco_artifacts :: "artifact_ref list"
  tco_original_output_bytes :: u64
  tco_truncated_output_bytes :: u64
  tco_spilled_output_bytes :: u64
  tco_started_at_ms :: u64
  tco_at_ms :: u64

record compacted =
  cp_summary :: string
  cp_carried_state :: string
  cp_retained_from :: "string option"
  cp_trigger :: compaction_trigger
  cp_instructions :: "string option"
  cp_tokens_before :: u32
  cp_tokens_after :: u32
  cp_at_ms :: u64

datatype agent_event =
    Seeded agent_state "message option"
  | InputMessage message
  | MessageComplete message
  | MessageAborted message
  | ToolComplete tool_complete
  | HookRan hook_record nat u64
  | RunComplete usage u32 u32 u64
  | RunAborted usage u32 u64
  | RunCancelled u64
  | TimerArmed timer_record u64
  | TimerCancelled "string list" u64
  | TimerFired string "u64 option" u64
  | Parked u64
  | Nudged u64
  | TaskListChanged task_list_state u64
  | LifecycleRecorded lifecycle_event u64
  | Compacted compacted
  | Received incoming u64
  | TurnBegan "string list" "string list" u64
  | AskRecorded "asked_question list" u64

section \<open>Counters\<close>

definition bump :: "u64 \<Rightarrow> u64" where
  "bump w = sat_add w 1"

definition observe_message :: "efficiency_stats \<Rightarrow> message \<Rightarrow> efficiency_stats" where
  "observe_message s m =
     (let generation_ms = (case m_started_at_ms m of None \<Rightarrow> 0
            | Some started \<Rightarrow> sat_sub (m_created_at_ms m) started);
          calls = of_nat (length (message_calls m))
      in s\<lparr> ef_provider_calls := bump (ef_provider_calls s),
            ef_provider_generation_ms := sat_add (ef_provider_generation_ms s) generation_ms,
            ef_max_provider_generation_ms := max (ef_max_provider_generation_ms s) generation_ms,
            ef_tool_calls := sat_add (ef_tool_calls s) calls \<rparr>)"

definition observe_tool :: "efficiency_stats \<Rightarrow> tool_complete \<Rightarrow> efficiency_stats" where
  "observe_tool s t =
     (let execution_ms = sat_sub (tco_at_ms t) (tco_started_at_ms t);
          retained = of_nat (min (length (tco_output t)) (2 ^ 64 - 1));
          original = (if tco_original_output_bytes t = 0 then retained else tco_original_output_bytes t)
      in s\<lparr> ef_result_tool_calls := bump (ef_result_tool_calls s),
            ef_tool_execution_ms := sat_add (ef_tool_execution_ms s) execution_ms,
            ef_max_tool_execution_ms := max (ef_max_tool_execution_ms s) execution_ms,
            ef_tool_result_bytes := sat_add (ef_tool_result_bytes s) retained,
            ef_original_tool_result_bytes := sat_add (ef_original_tool_result_bytes s) original,
            ef_truncated_tool_result_bytes :=
              sat_add (ef_truncated_tool_result_bytes s) (tco_truncated_output_bytes t),
            ef_spilled_tool_result_bytes :=
              sat_add (ef_spilled_tool_result_bytes s) (tco_spilled_output_bytes t),
            ef_failed_tool_calls :=
              (if tco_is_error t then bump (ef_failed_tool_calls s) else ef_failed_tool_calls s) \<rparr>)"

definition observe :: "efficiency_stats \<Rightarrow> agent_event \<Rightarrow> efficiency_stats" where
  "observe s ev = (case ev of
     MessageComplete m \<Rightarrow> observe_message s m
   | MessageAborted m \<Rightarrow> observe_message s m
   | ToolComplete t \<Rightarrow> observe_tool s t
   | RunComplete u it ctx at \<Rightarrow> s\<lparr> ef_completed_runs := bump (ef_completed_runs s) \<rparr>
   | RunAborted u ctx at \<Rightarrow> s\<lparr> ef_aborted_runs := bump (ef_aborted_runs s) \<rparr>
   | RunCancelled at \<Rightarrow> s\<lparr> ef_aborted_runs := bump (ef_aborted_runs s) \<rparr>
   | Compacted c \<Rightarrow> s\<lparr> ef_compactions := bump (ef_compactions s) \<rparr>
   | _ \<Rightarrow> s)"

section \<open>The log and the prompt\<close>

definition hook_entry_id :: "nat \<Rightarrow> string" where
  "hook_entry_id n = ''hook:'' @ show_nat n"

definition mk_hook_entry :: "hook_record \<Rightarrow> nat \<Rightarrow> u64 \<Rightarrow> hook_entry" where
  "mk_hook_entry r n at = \<lparr> he_id = hook_entry_id n, he_created_at_ms = at, he_record = r \<rparr>"

definition is_hook_body :: "log_body \<Rightarrow> bool" where
  "is_hook_body b = (case b of BHook h \<Rightarrow> True | _ \<Rightarrow> False)"

definition is_llm_body :: "log_body \<Rightarrow> bool" where
  "is_llm_body b = (case b of BLlm m \<Rightarrow> True | _ \<Rightarrow> False)"

definition hook_entry_count :: "agent_state \<Rightarrow> nat" where
  "hook_entry_count s = length (filter (\<lambda>e. is_hook_body (e_body e)) (st_log s))"

definition push :: "agent_state \<Rightarrow> u64 \<Rightarrow> log_body \<Rightarrow> agent_state" where
  "push s at b = s\<lparr> st_log := st_log s @ [\<lparr> e_seq = st_next_seq s, e_at_ms = at, e_body = b \<rparr>],
                    st_next_seq := st_next_seq s + 1 \<rparr>"

definition has_run :: "agent_state \<Rightarrow> bool" where
  "has_run s = list_ex (\<lambda>e. is_llm_body (e_body e)) (st_log s)"

definition tail_seq :: "agent_state \<Rightarrow> nat option" where
  "tail_seq s = (if st_log s = [] then None else Some (e_seq (last (st_log s))))"

definition entry_boundary :: "log_entry \<Rightarrow> (u64 \<times> compaction_entry) option" where
  "entry_boundary e = (case e_body e of BCompaction c \<Rightarrow> Some (e_at_ms e, c) | _ \<Rightarrow> None)"

definition last_boundary :: "agent_state \<Rightarrow> (u64 \<times> compaction_entry) option" where
  "last_boundary s = find_map entry_boundary (rev (st_log s))"

definition boundary_message :: "compaction_entry \<Rightarrow> u64 \<Rightarrow> message" where
  "boundary_message c at = \<lparr> m_id = ''compaction:'' @ show_nat (ce_covers_through_seq c),
     m_role = RUser,
     m_parts = [PText (''This session was compacted: earlier history is summarised below ''
        @ ''rather than shown in full. The messages after this one are verbatim.'' @ [nl, nl]
        @ ''## Summary of earlier work'' @ [nl] @ trim (ce_summary c) @ [nl, nl]
        @ ''## Current state'' @ [nl] @ trim (ce_carried_state c))],
     m_created_at_ms = at, m_started_at_ms = None \<rparr>"

definition entry_message :: "log_entry \<Rightarrow> message option" where
  "entry_message e = (case e_body e of
     BLlm m \<Rightarrow> Some m
   | BHook h \<Rightarrow> translate h
   | BLifecycle l \<Rightarrow> None
   | BCompaction c \<Rightarrow> None)"

definition prompt_messages :: "agent_state \<Rightarrow> message list" where
  "prompt_messages s =
     (let boundary = last_boundary s;
          from_seq = (case boundary of None \<Rightarrow> 0 | Some (at, c) \<Rightarrow> ce_retained_from_seq c)
      in (case boundary of None \<Rightarrow> [] | Some (at, c) \<Rightarrow> [boundary_message c at])
         @ List.map_filter entry_message (filter (\<lambda>e. from_seq \<le> e_seq e) (st_log s)))"

definition resolve_boundary :: "agent_state \<Rightarrow> string option \<Rightarrow> nat \<times> nat" where
  "resolve_boundary s retained =
     (let retain_nothing = ((case tail_seq s of Some t \<Rightarrow> t | None \<Rightarrow> 0), st_next_seq s)
      in case retained of
           None \<Rightarrow> retain_nothing
         | Some i \<Rightarrow>
             (case position (\<lambda>e. log_body_id (e_body e) = Some i) (st_log s) of
                None \<Rightarrow> retain_nothing
              | Some idx \<Rightarrow>
                  (let from_seq = e_seq (st_log s ! idx)
                   in ((if idx = 0 then from_seq else e_seq (st_log s ! (idx - 1))), from_seq))))"

definition boundary_seqs :: "agent_state \<Rightarrow> nat list" where
  "boundary_seqs s = map e_seq (filter (\<lambda>e. entry_boundary e \<noteq> None) (st_log s))"

definition snapshot_at :: "agent_state \<Rightarrow> nat \<Rightarrow> agent_state" where
  "snapshot_at s at_seq = \<lparr> st_log = filter (\<lambda>e. e_seq e < at_seq) (st_log s),
     st_next_seq = at_seq, st_inbox = [], st_asks = [], st_timers = [], st_parked = False,
     st_nudges = 0, st_turn_in_flight = False, st_task_list = st_task_list s,
     st_usage_total = usage_total_default, st_last_turn_usage = None,
     st_context_tokens = st_context_tokens s, st_efficiency = efficiency_default \<rparr>"

record agent_usage_snapshot =
  us_usage_total :: usage_total
  us_last_turn_usage :: "usage option"
  us_context_tokens :: u32
  us_efficiency :: efficiency_stats

record agent_state_view =
  sv_tasks :: "task_record list"
  sv_usage_total :: usage_total
  sv_last_turn_usage :: "usage option"
  sv_context_tokens :: u32
  sv_efficiency :: efficiency_stats
  sv_as_of_seq :: nat

definition state_view :: "agent_state \<Rightarrow> agent_state_view" where
  "state_view s = \<lparr> sv_tasks = tl_tasks (st_task_list s), sv_usage_total = st_usage_total s,
     sv_last_turn_usage = st_last_turn_usage s, sv_context_tokens = st_context_tokens s,
     sv_efficiency = st_efficiency s,
     sv_as_of_seq = (case tail_seq s of Some t \<Rightarrow> t | None \<Rightarrow> 0) \<rparr>"

definition usage_snapshot :: "agent_state \<Rightarrow> agent_usage_snapshot" where
  "usage_snapshot s = \<lparr> us_usage_total = st_usage_total s,
     us_last_turn_usage = st_last_turn_usage s, us_context_tokens = st_context_tokens s,
     us_efficiency = st_efficiency s \<rparr>"

section \<open>The fold, module by module\<close>

definition seeding_apply :: "agent_state \<Rightarrow> agent_event \<Rightarrow> agent_state" where
  "seeding_apply s ev = (case ev of
     Seeded seeded seed \<Rightarrow>
       (case seed of None \<Rightarrow> seeded | Some m \<Rightarrow> push seeded (m_created_at_ms m) (BLlm m))
   | _ \<Rightarrow> s)"

definition push_ask :: "u64 \<Rightarrow> agent_state \<Rightarrow> asked_question \<Rightarrow> agent_state" where
  "push_ask at s a = push s at (BLifecycle (LAskRecorded (aq_call_id a) (aq_question a)))"

definition queue_apply :: "agent_state \<Rightarrow> agent_event \<Rightarrow> agent_state" where
  "queue_apply s ev = (case ev of
     Received item at \<Rightarrow>
       (let s' = (case item of IncUser i t arts \<Rightarrow> push s at (BLifecycle (LMessageQueued i t)) | _ \<Rightarrow> s)
        in s'\<lparr> st_inbox := st_inbox s' @ [item] \<rparr>)
   | TurnBegan consumed answered at \<Rightarrow>
       (let visible = map incoming_id
              (filter (\<lambda>i. is_user i \<and> incoming_id i \<in> set consumed) (st_inbox s));
            s' = push s at (BLifecycle (LTurnBegan visible answered))
        in s'\<lparr> st_inbox := filter (\<lambda>i. incoming_id i \<notin> set consumed) (st_inbox s'),
               st_asks := [], st_turn_in_flight := True \<rparr>)
   | AskRecorded asks at \<Rightarrow>
       (foldl (push_ask at) s asks)\<lparr> st_asks := asks, st_turn_in_flight := False \<rparr>
   | InputMessage m \<Rightarrow> push (s\<lparr> st_parked := False \<rparr>) (m_created_at_ms m) (BLlm m)
   | Parked at \<Rightarrow> s\<lparr> st_parked := True, st_turn_in_flight := False, st_nudges := 0 \<rparr>
   | _ \<Rightarrow> s)"

definition run_apply :: "agent_state \<Rightarrow> agent_event \<Rightarrow> agent_state" where
  "run_apply s ev = (case ev of
     MessageComplete m \<Rightarrow> push s (m_created_at_ms m) (BLlm m)
   | MessageAborted m \<Rightarrow> push s (m_created_at_ms m) (BLlm m)
   | ToolComplete t \<Rightarrow> push s (tco_at_ms t) (BLlm (message_tool_result (tco_call_id t) (tco_output t)
       (tco_is_error t) (tco_artifacts t) (tco_at_ms t)))
   | RunComplete u it ctx at \<Rightarrow> s\<lparr> st_usage_total := usage_add (st_usage_total s) u,
       st_context_tokens := ctx, st_last_turn_usage := Some u, st_turn_in_flight := False \<rparr>
   | RunAborted u ctx at \<Rightarrow> s\<lparr> st_usage_total := usage_add (st_usage_total s) u,
       st_context_tokens := ctx, st_turn_in_flight := False \<rparr>
   | RunCancelled at \<Rightarrow> s\<lparr> st_turn_in_flight := False \<rparr>
   | Nudged at \<Rightarrow> s\<lparr> st_nudges := sat_add (st_nudges s) 1, st_turn_in_flight := False \<rparr>
   | _ \<Rightarrow> s)"

definition log_apply :: "agent_state \<Rightarrow> agent_event \<Rightarrow> agent_state" where
  "log_apply s ev = (case ev of
     LifecycleRecorded l at \<Rightarrow> push s at (BLifecycle l)
   | HookRan r n at \<Rightarrow> push s at (BHook (mk_hook_entry r n at))
   | _ \<Rightarrow> s)"

definition compaction_apply :: "agent_state \<Rightarrow> agent_event \<Rightarrow> agent_state" where
  "compaction_apply s ev = (case ev of
     Compacted c \<Rightarrow>
       (let (covers, retained) = resolve_boundary s (cp_retained_from c);
            entry = \<lparr> ce_summary = cp_summary c, ce_carried_state = cp_carried_state c,
              ce_covers_through_seq = covers, ce_retained_from_seq = retained,
              ce_trigger = cp_trigger c, ce_instructions = cp_instructions c,
              ce_tokens_before = cp_tokens_before c, ce_tokens_after = cp_tokens_after c \<rparr>
        in push (s\<lparr> st_context_tokens := cp_tokens_after c \<rparr>) (cp_at_ms c) (BCompaction entry))
   | _ \<Rightarrow> s)"

definition timers_apply :: "agent_state \<Rightarrow> agent_event \<Rightarrow> agent_state" where
  "timers_apply s ev = (case ev of
     TimerArmed t at \<Rightarrow> s\<lparr> st_timers := st_timers s @ [t] \<rparr>
   | TimerCancelled ids at \<Rightarrow> s\<lparr> st_timers := timers_cancelled ids (st_timers s) \<rparr>
   | TimerFired i nxt at \<Rightarrow> s\<lparr> st_timers := timers_fired i nxt (st_timers s) \<rparr>
   | _ \<Rightarrow> s)"

definition task_lists_apply :: "agent_state \<Rightarrow> agent_event \<Rightarrow> agent_state" where
  "task_lists_apply s ev = (case ev of
     TaskListChanged snap at \<Rightarrow>
       (push s at (BLifecycle (LTaskList (wire_tasks snap))))\<lparr> st_task_list := snap \<rparr>
   | _ \<Rightarrow> s)"

definition apply_event :: "agent_state \<Rightarrow> agent_event \<Rightarrow> agent_state" where
  "apply_event s0 ev =
     (let s = s0\<lparr> st_efficiency := observe (st_efficiency s0) ev \<rparr>
      in case ev of
           Seeded seeded seed \<Rightarrow> seeding_apply s ev
         | InputMessage m \<Rightarrow> queue_apply s ev
         | Received i at \<Rightarrow> queue_apply s ev
         | TurnBegan c a at \<Rightarrow> queue_apply s ev
         | AskRecorded asks at \<Rightarrow> queue_apply s ev
         | Parked at \<Rightarrow> queue_apply s ev
         | MessageComplete m \<Rightarrow> run_apply s ev
         | MessageAborted m \<Rightarrow> run_apply s ev
         | ToolComplete t \<Rightarrow> run_apply s ev
         | RunComplete u it ctx at \<Rightarrow> run_apply s ev
         | RunAborted u ctx at \<Rightarrow> run_apply s ev
         | RunCancelled at \<Rightarrow> run_apply s ev
         | Nudged at \<Rightarrow> run_apply s ev
         | HookRan r n at \<Rightarrow> log_apply s ev
         | LifecycleRecorded l at \<Rightarrow> log_apply s ev
         | Compacted c \<Rightarrow> compaction_apply s ev
         | TimerArmed t at \<Rightarrow> timers_apply s ev
         | TimerCancelled ids at \<Rightarrow> timers_apply s ev
         | TimerFired i nxt at \<Rightarrow> timers_apply s ev
         | TaskListChanged snap at \<Rightarrow> task_lists_apply s ev)"

lemmas fold_defs = apply_event_def seeding_apply_def queue_apply_def run_apply_def log_apply_def
  compaction_apply_def timers_apply_def task_lists_apply_def Let_def

section \<open>What an event appends to the log\<close>

text \<open>
  The abstract account of the fold: an event contributes a list of dated bodies, and the fold numbers
  them from the next sequence number on. Only \<open>Seeded\<close> replaces the log.
\<close>

fun number :: "nat \<Rightarrow> (u64 \<times> log_body) list \<Rightarrow> log_entry list" where
  "number n [] = []"
| "number n ((at, b) # bs) = \<lparr> e_seq = n, e_at_ms = at, e_body = b \<rparr> # number (Suc n) bs"

definition event_bodies :: "agent_state \<Rightarrow> agent_event \<Rightarrow> (u64 \<times> log_body) list" where
  "event_bodies s ev = (case ev of
     Received item at \<Rightarrow>
       (case item of IncUser i t arts \<Rightarrow> [(at, BLifecycle (LMessageQueued i t))] | _ \<Rightarrow> [])
   | TurnBegan consumed answered at \<Rightarrow>
       [(at, BLifecycle (LTurnBegan (map incoming_id
          (filter (\<lambda>i. is_user i \<and> incoming_id i \<in> set consumed) (st_inbox s))) answered))]
   | AskRecorded asks at \<Rightarrow>
       map (\<lambda>a. (at, BLifecycle (LAskRecorded (aq_call_id a) (aq_question a)))) asks
   | InputMessage m \<Rightarrow> [(m_created_at_ms m, BLlm m)]
   | MessageComplete m \<Rightarrow> [(m_created_at_ms m, BLlm m)]
   | MessageAborted m \<Rightarrow> [(m_created_at_ms m, BLlm m)]
   | ToolComplete t \<Rightarrow> [(tco_at_ms t, BLlm (message_tool_result (tco_call_id t) (tco_output t)
       (tco_is_error t) (tco_artifacts t) (tco_at_ms t)))]
   | LifecycleRecorded l at \<Rightarrow> [(at, BLifecycle l)]
   | HookRan r n at \<Rightarrow> [(at, BHook (mk_hook_entry r n at))]
   | Compacted c \<Rightarrow> [(cp_at_ms c, BCompaction \<lparr> ce_summary = cp_summary c,
       ce_carried_state = cp_carried_state c,
       ce_covers_through_seq = fst (resolve_boundary s (cp_retained_from c)),
       ce_retained_from_seq = snd (resolve_boundary s (cp_retained_from c)),
       ce_trigger = cp_trigger c, ce_instructions = cp_instructions c,
       ce_tokens_before = cp_tokens_before c, ce_tokens_after = cp_tokens_after c \<rparr>)]
   | TaskListChanged snap at \<Rightarrow> [(at, BLifecycle (LTaskList (wire_tasks snap)))]
   | _ \<Rightarrow> [])"

definition is_seeded :: "agent_event \<Rightarrow> bool" where
  "is_seeded ev = (case ev of Seeded s m \<Rightarrow> True | _ \<Rightarrow> False)"

lemma push_sels [simp]:
  "st_log (push s at b) = st_log s @ [\<lparr> e_seq = st_next_seq s, e_at_ms = at, e_body = b \<rparr>]"
  "st_next_seq (push s at b) = Suc (st_next_seq s)"
  "st_inbox (push s at b) = st_inbox s" "st_asks (push s at b) = st_asks s"
  "st_timers (push s at b) = st_timers s" "st_parked (push s at b) = st_parked s"
  "st_nudges (push s at b) = st_nudges s"
  "st_turn_in_flight (push s at b) = st_turn_in_flight s"
  "st_task_list (push s at b) = st_task_list s"
  "st_usage_total (push s at b) = st_usage_total s"
  "st_last_turn_usage (push s at b) = st_last_turn_usage s"
  "st_context_tokens (push s at b) = st_context_tokens s"
  "st_efficiency (push s at b) = st_efficiency s"
  by (simp_all add: push_def)

lemma push_asks_log:
  "st_log (foldl (push_ask at) s asks) = st_log s @ number (st_next_seq s)
     (map (\<lambda>a. (at, BLifecycle (LAskRecorded (aq_call_id a) (aq_question a)))) asks)
   \<and> st_next_seq (foldl (push_ask at) s asks) = st_next_seq s + length asks"
  by (induction asks arbitrary: s) (simp_all add: push_ask_def)

lemma push_asks_sels [simp]:
  "st_task_list (foldl (push_ask at) s asks) = st_task_list s"
  "st_usage_total (foldl (push_ask at) s asks) = st_usage_total s"
  "st_inbox (foldl (push_ask at) s asks) = st_inbox s"
  "st_timers (foldl (push_ask at) s asks) = st_timers s"
  by (induction asks arbitrary: s) (simp_all add: push_ask_def)

lemma resolve_boundary_cong:
  "resolve_boundary (s\<lparr> st_efficiency := e \<rparr>) r = resolve_boundary s r"
  by (simp add: resolve_boundary_def tail_seq_def Let_def split: option.split)

lemma apply_event_log:
  assumes "\<not> is_seeded ev"
  shows "st_log (apply_event s ev) = st_log s @ number (st_next_seq s) (event_bodies s ev) \<and>
    st_next_seq (apply_event s ev) = st_next_seq s + length (event_bodies s ev)"
  using assms
  by (cases ev)
    (simp_all add: fold_defs event_bodies_def is_seeded_def push_asks_log resolve_boundary_cong
      case_prod_beta split: incoming.splits)

lemma length_number [simp]: "length (number n bs) = length bs"
  by (induction n bs rule: number.induct) auto

lemma seqs_number [simp]: "map e_seq (number n bs) = [n ..< n + length bs]"
  by (induction n bs rule: number.induct) (auto simp: upt_rec)

lemma bodies_number [simp]: "map e_body (number n bs) = map snd bs"
  by (induction n bs rule: number.induct) auto

section \<open>Invariants\<close>

definition log_wf :: "agent_state \<Rightarrow> bool" where
  "log_wf s \<longleftrightarrow> map e_seq (st_log s) = [0 ..< st_next_seq s]"

definition hook_ids_wf :: "agent_state \<Rightarrow> bool" where
  "hook_ids_wf s \<longleftrightarrow> (\<forall>e\<in>set (st_log s). case e_body e of
     BHook h \<Rightarrow> prefix ''hook:'' (he_id h) | _ \<Rightarrow> True)"

text \<open>A compaction retains nothing from after its own entry.\<close>

definition boundary_wf :: "agent_state \<Rightarrow> bool" where
  "boundary_wf s \<longleftrightarrow> (\<forall>e\<in>set (st_log s). case e_body e of
     BCompaction c \<Rightarrow> ce_retained_from_seq c \<le> e_seq e | _ \<Rightarrow> True)"

definition state_wf :: "agent_state \<Rightarrow> bool" where
  "state_wf s \<longleftrightarrow> log_wf s \<and> hook_ids_wf s \<and> boundary_wf s \<and> task_list_wf (st_task_list s)"

definition event_ok :: "agent_event \<Rightarrow> bool" where
  "event_ok ev = (case ev of
     Seeded s m \<Rightarrow> state_wf s
   | TaskListChanged snap at \<Rightarrow> task_list_wf snap
   | _ \<Rightarrow> True)"

lemma log_wf_nth: "log_wf s \<Longrightarrow> i < length (st_log s) \<Longrightarrow> e_seq (st_log s ! i) = i"
  by (metis log_wf_def add_0 length_map map_nth nth_map nth_upt length_upt diff_zero)

lemma log_wf_length: "log_wf s \<Longrightarrow> length (st_log s) = st_next_seq s"
  by (metis log_wf_def length_map length_upt diff_zero)

lemma log_wf_push: "log_wf s \<Longrightarrow> log_wf (push s at b)"
  by (simp add: log_wf_def)

lemma hook_ids_wf_push:
  "hook_ids_wf s \<Longrightarrow> (\<And>h. b = BHook h \<Longrightarrow> prefix ''hook:'' (he_id h)) \<Longrightarrow> hook_ids_wf (push s at b)"
  by (auto simp: hook_ids_wf_def split: log_body.splits)

lemma event_bodies_hook_ids:
  "(at, BHook h) \<in> set (event_bodies s ev) \<Longrightarrow> prefix ''hook:'' (he_id h)"
  by (cases ev) (auto simp: event_bodies_def mk_hook_entry_def hook_entry_id_def split: incoming.splits)

lemma apply_event_task_list:
  "\<not> is_seeded ev \<Longrightarrow> st_task_list (apply_event s ev) =
     (case ev of TaskListChanged snap at \<Rightarrow> snap | _ \<Rightarrow> st_task_list s)"
  by (cases ev) (simp_all add: fold_defs is_seeded_def case_prod_beta split: incoming.splits)

lemma number_bodyD: "e \<in> set (number n bs) \<Longrightarrow> (e_at_ms e, e_body e) \<in> set bs"
  by (induction n bs rule: number.induct) auto

lemma number_seqD: "e \<in> set (number n bs) \<Longrightarrow> n \<le> e_seq e"
  by (induction n bs rule: number.induct) fastforce+

lemma resolve_boundary_adjacent:
  assumes "log_wf s"
  shows "snd (resolve_boundary s r) \<le> Suc (fst (resolve_boundary s r)) \<and>
    snd (resolve_boundary s r) \<le> st_next_seq s"
proof -
  have len: "length (st_log s) = st_next_seq s" using assms by (simp add: log_wf_length)
  have nth: "i < length (st_log s) \<Longrightarrow> e_seq (st_log s ! i) = i" for i
    using assms by (simp add: log_wf_nth)
  have "Suc t = st_next_seq s" if t: "tail_seq s = Some t" for t
  proof -
    have "st_log s \<noteq> []" and "t = e_seq (last (st_log s))"
      using t by (auto simp: tail_seq_def split: if_splits)
    then have "t = length (st_log s) - 1" and "0 < length (st_log s)"
      using nth [of "length (st_log s) - 1"] by (simp_all add: last_conv_nth)
    with len show ?thesis by simp
  qed
  moreover have "tail_seq s = None \<Longrightarrow> st_next_seq s = 0"
    using len by (simp add: tail_seq_def split: if_splits)
  ultimately show ?thesis
    using nth len
    by (auto simp: resolve_boundary_def Let_def split: option.splits dest!: position_SomeD)
qed

lemma event_bodies_boundary:
  "log_wf s \<Longrightarrow> (at, BCompaction c) \<in> set (event_bodies s ev) \<Longrightarrow> ce_retained_from_seq c \<le> st_next_seq s"
  using resolve_boundary_adjacent [of s]
  by (cases ev) (auto simp: event_bodies_def Let_def split: incoming.splits prod.splits)

lemma entries_wf_append:
  assumes "log_wf s" "hook_ids_wf s" "boundary_wf s"
    "st_log s' = st_log s @ number (st_next_seq s) (event_bodies s ev)"
  shows "hook_ids_wf s'" "boundary_wf s'"
proof -
  show "hook_ids_wf s'"
    using assms by (auto simp: hook_ids_wf_def split: log_body.splits dest!: number_bodyD dest: event_bodies_hook_ids)
  have "ce_retained_from_seq c \<le> e_seq e"
    if "e \<in> set (number (st_next_seq s) (event_bodies s ev))" "e_body e = BCompaction c" for e c
    using that number_bodyD [OF that(1)] number_seqD [OF that(1)] event_bodies_boundary [OF assms(1)]
    by fastforce
  then show "boundary_wf s'" using assms by (auto simp: boundary_wf_def split: log_body.splits)
qed

lemma apply_event_wf:
  assumes "state_wf s" "event_ok ev"
  shows "state_wf (apply_event s ev)"
proof (cases "is_seeded ev")
  case True
  then obtain s' m where ev: "ev = Seeded s' m" by (auto simp: is_seeded_def split: agent_event.splits)
  then have "apply_event s ev = (case m of None \<Rightarrow> s' | Some m \<Rightarrow> push s' (m_created_at_ms m) (BLlm m))"
    by (simp add: fold_defs)
  with ev assms show ?thesis
    by (auto simp: state_wf_def event_ok_def log_wf_push boundary_wf_def intro!: hook_ids_wf_push split: option.splits)
next
  case False
  have "task_list_wf (st_task_list (apply_event s ev))"
    using assms apply_event_task_list [OF False] by (auto simp: state_wf_def event_ok_def split: agent_event.splits)
  moreover have "log_wf (apply_event s ev)"
    using assms(1) apply_event_log [OF False] by (simp add: state_wf_def log_wf_def upt_add_eq_append [symmetric])
  ultimately show ?thesis
    using entries_wf_append [of s "apply_event s ev" ev] assms(1) apply_event_log [OF False]
    by (simp add: state_wf_def)
qed

lemma state_wf_default [simp]: "state_wf agent_state_default"
  by (simp add: state_wf_def log_wf_def hook_ids_wf_def boundary_wf_def agent_state_default_def)

interpretation agent: event_sourced apply_event agent_state_default state_wf event_ok
  by unfold_locales (simp_all add: apply_event_wf)

section \<open>Replay is append only\<close>

lemma fold_log_prefix:
  "\<forall>ev\<in>set evs. \<not> is_seeded ev \<Longrightarrow>
     \<exists>new. st_log (foldl apply_event s evs) = st_log s @ new"
proof (induction evs arbitrary: s)
  case Nil
  then show ?case by simp
next
  case (Cons ev evs)
  then obtain new where "st_log (foldl apply_event (apply_event s ev) evs) = st_log (apply_event s ev) @ new"
    by fastforce
  with Cons.prems apply_event_log [of ev s] show ?case by simp
qed

lemma filter_seq_less:
  "map e_seq es = [0 ..< n] \<Longrightarrow> k \<le> n \<Longrightarrow> filter (\<lambda>e. e_seq e < k) es = take k es"
proof (induction es arbitrary: n rule: rev_induct)
  case Nil
  then show ?case by simp
next
  case (snoc e es)
  then obtain n' where n: "n = Suc n'" by (cases n) simp_all
  with snoc.prems have es: "map e_seq es = [0 ..< n']" "e_seq e = n'" by simp_all
  then have len: "length es = n'" by (metis length_map length_upt diff_zero)
  show ?case
  proof (cases "k = n")
    case True
    have "\<forall>x\<in>set es. e_seq x < n'"
      by (metis es(1) atLeastLessThan_iff imageI list.set_map set_upt)
    with True n es len show ?thesis by (auto simp: filter_id_conv)
  next
    case False
    with snoc.prems n have "k \<le> n'" by simp
    with snoc.IH [OF es(1)] es(2) len show ?thesis by simp
  qed
qed

lemma filter_seq_ge:
  "map e_seq es = [0 ..< n] \<Longrightarrow> filter (\<lambda>e. k \<le> e_seq e) es = drop k es"
proof (induction es arbitrary: n rule: rev_induct)
  case Nil
  then show ?case by simp
next
  case (snoc e es)
  then obtain n' where n: "n = Suc n'" by (cases n) simp_all
  with snoc.prems have es: "map e_seq es = [0 ..< n']" "e_seq e = n'" by simp_all
  then have "length es = n'" by (metis length_map length_upt diff_zero)
  with snoc.IH [OF es(1)] es(2) show ?case by auto
qed

lemma snapshot_log:
  "log_wf s \<Longrightarrow> k \<le> st_next_seq s \<Longrightarrow> st_log (snapshot_at s k) = take k (st_log s)"
  by (simp add: snapshot_at_def log_wf_def filter_seq_less)

lemma snapshot_wf:
  assumes "state_wf s" "k \<le> st_next_seq s"
  shows "state_wf (snapshot_at s k)"
proof -
  have log: "st_log (snapshot_at s k) = take k (st_log s)"
    using assms snapshot_log by (simp add: state_wf_def)
  have "map e_seq (take k (st_log s)) = [0 ..< k]"
    using assms by (simp add: state_wf_def log_wf_def take_map [symmetric] take_upt)
  with log assms show ?thesis
    by (auto simp: state_wf_def log_wf_def hook_ids_wf_def boundary_wf_def snapshot_at_def dest!: in_set_takeD)
qed

section \<open>The prompt\<close>

definition from_seq_of :: "agent_state \<Rightarrow> nat" where
  "from_seq_of s = (case last_boundary s of None \<Rightarrow> 0 | Some (at, c) \<Rightarrow> ce_retained_from_seq c)"

definition boundary_part :: "agent_state \<Rightarrow> message list" where
  "boundary_part s = (case last_boundary s of None \<Rightarrow> [] | Some (at, c) \<Rightarrow> [boundary_message c at])"

lemma prompt_messages_drop:
  "log_wf s \<Longrightarrow>
     prompt_messages s = boundary_part s @ List.map_filter entry_message (drop (from_seq_of s) (st_log s))"
  by (simp add: prompt_messages_def boundary_part_def from_seq_of_def Let_def log_wf_def
      filter_seq_ge split: option.splits)

lemma last_boundary_push:
  "last_boundary (push s at b) =
     (case b of BCompaction c \<Rightarrow> Some (at, c) | _ \<Rightarrow> last_boundary s)"
  by (simp add: last_boundary_def entry_boundary_def split: log_body.splits)

lemma last_boundary_cong [simp]:
  "last_boundary (s\<lparr> st_efficiency := e \<rparr>) = last_boundary s"
  "last_boundary (s\<lparr> st_context_tokens := ct \<rparr>) = last_boundary s"
  by (simp_all add: last_boundary_def)

text \<open>The entry a compaction journals, as the fold resolves it.\<close>

definition compaction_entry_of :: "agent_state \<Rightarrow> compacted \<Rightarrow> compaction_entry" where
  "compaction_entry_of s c = \<lparr> ce_summary = cp_summary c,
       ce_carried_state = cp_carried_state c,
       ce_covers_through_seq = fst (resolve_boundary s (cp_retained_from c)),
       ce_retained_from_seq = snd (resolve_boundary s (cp_retained_from c)),
       ce_trigger = cp_trigger c, ce_instructions = cp_instructions c,
       ce_tokens_before = cp_tokens_before c, ce_tokens_after = cp_tokens_after c \<rparr>"

lemma compacted_last_boundary:
  "last_boundary (apply_event s (Compacted c)) = Some (cp_at_ms c, compaction_entry_of s c)"
  by (simp add: fold_defs last_boundary_push compaction_entry_of_def case_prod_beta resolve_boundary_cong)

lemma compacted_log:
  "st_log (apply_event s (Compacted c)) = st_log s @
     [\<lparr> e_seq = st_next_seq s, e_at_ms = cp_at_ms c, e_body = BCompaction (compaction_entry_of s c) \<rparr>]"
  using apply_event_log [of "Compacted c" s]
  by (simp add: is_seeded_def event_bodies_def compaction_entry_of_def)

lemma compacted_prompt:
  assumes "state_wf s"
  shows "prompt_messages (apply_event s (Compacted c)) =
    boundary_message (compaction_entry_of s c) (cp_at_ms c) #
    List.map_filter entry_message (drop (snd (resolve_boundary s (cp_retained_from c))) (st_log s))"
proof -
  have "log_wf (apply_event s (Compacted c))"
    using assms apply_event_wf [of s "Compacted c"] by (simp add: state_wf_def event_ok_def)
  moreover have "List.map_filter entry_message (drop k [\<lparr> e_seq = n, e_at_ms = a, e_body = BCompaction x \<rparr>]) = []"
    for k n a x by (cases k) (simp_all add: map_filter_simps entry_message_def)
  ultimately show ?thesis
    by (simp add: prompt_messages_drop boundary_part_def from_seq_of_def compacted_last_boundary
        compacted_log compaction_entry_of_def)
qed

lemma resolve_boundary_found:
  assumes "state_wf s" "position (\<lambda>e. log_body_id (e_body e) = Some i) (st_log s) = Some idx"
  shows "snd (resolve_boundary s (Some i)) = idx"
  using assms position_SomeD [OF assms(2)]
  by (simp add: resolve_boundary_def Let_def state_wf_def log_wf_nth)

lemma resolve_boundary_missing:
  assumes "\<forall>e\<in>set (st_log s). log_body_id (e_body e) \<noteq> Some i"
  shows "snd (resolve_boundary s (Some i)) = st_next_seq s"
proof -
  from assms have "position (\<lambda>e. log_body_id (e_body e) = Some i) (st_log s) = None"
    by (simp add: position_None)
  then show ?thesis by (simp add: resolve_boundary_def Let_def)
qed

text \<open>Anything but a seeding or a compaction appends to the prompt what its entries say.\<close>

definition body_message :: "log_body \<Rightarrow> message option" where
  "body_message b = (case b of BLlm m \<Rightarrow> Some m | BHook h \<Rightarrow> translate h | _ \<Rightarrow> None)"

lemma from_seq_le:
  assumes "state_wf s"
  shows "from_seq_of s \<le> length (st_log s)"
proof (cases "last_boundary s")
  case None
  then show ?thesis by (simp add: from_seq_of_def)
next
  case (Some p)
  then obtain e where e: "e \<in> set (st_log s)" "entry_boundary e = Some p"
    by (auto simp: last_boundary_def dest!: find_map_SomeD)
  then obtain i where "i < length (st_log s)" "st_log s ! i = e" by (metis in_set_conv_nth)
  then have "e_seq e < length (st_log s)" using assms log_wf_nth [of s i] by (simp add: state_wf_def)
  moreover have "ce_retained_from_seq (snd p) \<le> e_seq e"
    using e assms by (auto simp: state_wf_def boundary_wf_def entry_boundary_def split: log_body.splits)
  ultimately show ?thesis using Some by (cases p) (simp add: from_seq_of_def)
qed

lemma map_filter_number: "List.map_filter entry_message (number n bs) = List.map_filter (\<lambda>(at, b). body_message b) bs"
proof (induction n bs rule: number.induct)
  case (2 n at b bs)
  have "entry_message e = body_message (e_body e)" for e
    by (simp add: entry_message_def body_message_def split: log_body.splits)
  with 2 show ?case by (simp add: map_filter_simps split: option.splits)
qed (simp add: map_filter_simps)

lemma prompt_appended:
  assumes "state_wf s" "\<not> is_seeded ev" "event_ok ev" "\<forall>c. ev \<noteq> Compacted c"
  shows "prompt_messages (apply_event s ev) =
    prompt_messages s @ List.map_filter (\<lambda>(at, b). body_message b) (event_bodies s ev)"
proof -
  let ?new = "number (st_next_seq s) (event_bodies s ev)"
  have log: "st_log (apply_event s ev) = st_log s @ ?new" using apply_event_log [OF assms(2)] by blast
  have "b \<noteq> BCompaction c" if "(at, b) \<in> set (event_bodies s ev)" for at b c
    using that assms(4) by (cases ev) (auto simp: event_bodies_def split: incoming.splits)
  then have "\<forall>e\<in>set ?new. entry_boundary e = None"
    by (fastforce simp: entry_boundary_def split: log_body.splits dest!: number_bodyD)
  then have b: "last_boundary (apply_event s ev) = last_boundary s"
    by (simp add: last_boundary_def log find_map_append find_map_None [THEN iffD2])
  have "log_wf (apply_event s ev)" "log_wf s" using apply_event_wf [OF assms(1,3)] assms(1) by (simp_all add: state_wf_def)
  with from_seq_le [OF assms(1)] b log show ?thesis
    by (simp add: prompt_messages_drop boundary_part_def from_seq_of_def map_filter_number)
qed

section \<open>Properties\<close>

lemma apply_event_usage_mono: "\<not> is_seeded ev \<Longrightarrow> usage_le (st_usage_total s) (st_usage_total (apply_event s ev))"
  by (cases ev) (auto simp: fold_defs is_seeded_def usage_add_mono case_prod_beta split: incoming.splits)

text \<open>
  Replaying events only ever extends the log and never lowers a token total: apart from the seeding a
  sub session starts from, no event changes, reorders or drops an entry that is already there.\<close>

theorem log_is_append_only:
  assumes "\<forall>ev\<in>set evs. \<not> is_seeded ev"
  shows "prefix (st_log s) (st_log (foldl apply_event s evs)) \<and>
    usage_le (st_usage_total s) (st_usage_total (foldl apply_event s evs))"
proof -
  have "usage_le (st_usage_total s) (st_usage_total (foldl apply_event s evs))"
    using assms
  proof (induction evs arbitrary: s)
    case (Cons ev evs)
    have "usage_le (st_usage_total s) (st_usage_total (apply_event s ev))"
      using Cons.prems by (simp add: apply_event_usage_mono)
    moreover have "usage_le (st_usage_total (apply_event s ev)) (st_usage_total (foldl apply_event (apply_event s ev) evs))"
      using Cons by simp
    ultimately show ?case unfolding foldl_Cons by (rule usage_le_trans)
  qed simp
  with fold_log_prefix [OF assms, of s] show ?thesis by (auto simp: prefix_def)
qed

definition sample_said :: "string \<Rightarrow> string \<Rightarrow> message" where
  "sample_said i body = message_user i body 1"

definition sample_talk :: agent_state where
  "sample_talk = foldl apply_event agent_state_default
     [InputMessage (sample_said ''m1'' ''one''), InputMessage (sample_said ''m2'' ''two'')]"

lemma sample_talk_wf: "state_wf sample_talk"
  unfolding sample_talk_def by (rule agent.inv_replay) (simp add: event_ok_def)

theorem log_is_append_only_witness:
  "prefix (st_log sample_talk) (st_log (foldl apply_event sample_talk [Parked 3, InputMessage (sample_said ''m3'' ''three'')])) \<and>
   length (st_log sample_talk) = 2"
proof -
  have "length (st_log sample_talk) = 2" by code_simp
  moreover have "\<forall>ev\<in>set [Parked 3, InputMessage (sample_said ''m3'' ''three'')]. \<not> is_seeded ev"
    by (simp add: is_seeded_def)
  ultimately show ?thesis using log_is_append_only by blast
qed

text \<open>
  A sub session branching at a point of its source's log starts from exactly the entries before that
  point, in a well-formed state whose next entry is numbered on from there, and inherits nothing that was
  in flight and no bill: no queue, question, timer, nudge, park or token is carried.\<close>

theorem snapshot_is_the_history_before_the_branch:
  assumes "state_wf s" "k \<le> st_next_seq s"
  shows "st_log (snapshot_at s k) = take k (st_log s) \<and> state_wf (snapshot_at s k) \<and>
    st_next_seq (snapshot_at s k) = k \<and> st_task_list (snapshot_at s k) = st_task_list s \<and>
    st_inbox (snapshot_at s k) = [] \<and> st_asks (snapshot_at s k) = [] \<and> st_timers (snapshot_at s k) = [] \<and>
    \<not> st_parked (snapshot_at s k) \<and> \<not> st_turn_in_flight (snapshot_at s k) \<and> st_nudges (snapshot_at s k) = 0 \<and>
    st_usage_total (snapshot_at s k) = usage_total_default \<and> st_efficiency (snapshot_at s k) = efficiency_default"
  using assms snapshot_log [of s k] snapshot_wf [OF assms] by (simp add: state_wf_def snapshot_at_def)

theorem snapshot_is_the_history_before_the_branch_witness:
  "st_log (snapshot_at sample_talk 1) = take 1 (st_log sample_talk) \<and> state_wf (snapshot_at sample_talk 1)"
proof -
  have "1 \<le> st_next_seq sample_talk" by code_simp
  then show ?thesis using snapshot_is_the_history_before_the_branch [OF sample_talk_wf] by blast
qed

text \<open>
  C22: After a compaction the prompt is the boundary message followed by exactly what the log says from the
  retained message on; when nothing was retained, or the id is not in the log, the boundary stands alone.\<close>

theorem compaction_keeps_the_suffix:
  assumes "state_wf s"
  shows "prompt_messages (apply_event s (Compacted c)) =
    boundary_message (compaction_entry_of s c) (cp_at_ms c) #
    (case Option.bind (cp_retained_from c) (\<lambda>i. position (\<lambda>e. log_body_id (e_body e) = Some i) (st_log s)) of
       Some idx \<Rightarrow> List.map_filter entry_message (drop idx (st_log s))
     | None \<Rightarrow> [])"
proof -
  have len: "length (st_log s) = st_next_seq s" using assms by (simp add: state_wf_def log_wf_length)
  have none: "snd (resolve_boundary s None) = st_next_seq s" by (simp add: resolve_boundary_def Let_def)
  show ?thesis
  proof (cases "cp_retained_from c")
    case None
    then show ?thesis using compacted_prompt [OF assms, of c] none len by (simp add: map_filter_simps)
  next
    case (Some i)
    show ?thesis
    proof (cases "position (\<lambda>e. log_body_id (e_body e) = Some i) (st_log s)")
      case None
      then have "snd (resolve_boundary s (Some i)) = st_next_seq s" by (simp add: resolve_boundary_def Let_def)
      then show ?thesis using compacted_prompt [OF assms, of c] Some None len by (simp add: map_filter_simps)
    next
      case (Some idx)
      then show ?thesis
        using compacted_prompt [OF assms, of c] \<open>cp_retained_from c = _\<close> resolve_boundary_found [OF assms Some] by simp
    qed
  qed
qed

definition sample_compacted :: "string \<Rightarrow> compacted" where
  "sample_compacted i = \<lparr> cp_summary = ''s'', cp_carried_state = ''c'', cp_retained_from = Some i,
     cp_trigger = TrigAuto, cp_instructions = None, cp_tokens_before = 9, cp_tokens_after = 4, cp_at_ms = 5 \<rparr>"

theorem compaction_keeps_the_suffix_witness:
  "prompt_messages (apply_event sample_talk (Compacted (sample_compacted ''m2''))) =
   [boundary_message (compaction_entry_of sample_talk (sample_compacted ''m2'')) 5, sample_said ''m2'' ''two'']"
proof -
  have "position (\<lambda>e. log_body_id (e_body e) = Some ''m2'') (st_log sample_talk) = Some 1" by code_simp
  moreover have "List.map_filter entry_message (drop 1 (st_log sample_talk)) = [sample_said ''m2'' ''two'']" by code_simp
  ultimately show ?thesis
    using compaction_keeps_the_suffix [OF sample_talk_wf, of "sample_compacted ''m2''"]
    by (simp add: sample_compacted_def)
qed


definition sample_hook :: hook_record where
  "sample_hook = \<lparr> hr_plugin = ''p'', hr_duration_ms = 1, hr_halt = None,
     hr_action = SessionStart ''startup'' None (StartRan (Some ''ctx'')) \<rparr>"

definition sample_hooked :: agent_state where
  "sample_hooked = foldl apply_event agent_state_default
     [InputMessage (sample_said ''m1'' ''one''), HookRan sample_hook 0 2, InputMessage (sample_said ''m2'' ''two'')]"


end
