(* ===== verification/Tool_Output.thy ===== *)
theory Tool_Output
  imports Messages
begin

text \<open>
  The last guard on what one tool call may put in front of the model
  (\<open>bound_tool_output\<close> of \<^verbatim>\<open>crates/agentcore/src/tool.rs\<close>): at most 64 KiB of text, cut out of the middle
  at character boundaries, with a marker that says how much is missing.
\<close>

definition MAX_TOOL_RESULT_BYTES :: nat where "MAX_TOOL_RESULT_BYTES = 64 * 1024"

record bounded_tool_output =
  bo_output :: string
  bo_original_bytes :: nat
  bo_retained_bytes :: nat

definition omission_marker :: "nat \<Rightarrow> string" where
  "omission_marker dropped = [nl, nl] @ [CHR 0xE2, CHR 0x80, CHR 0xA6] @ '' '' @ show_nat dropped
     @ '' byte(s) omitted by the final tool-output guard. ''
     @ ''Narrow the request to inspect the missing content.'' @ [nl, nl]"

text \<open>The marker's own length depends on the number it prints, hence the two rounds.\<close>

fun marker_rounds :: "nat \<Rightarrow> nat \<Rightarrow> string \<Rightarrow> nat \<Rightarrow> string \<times> nat" where
  "marker_rounds original 0 marker retained = (marker, retained)"
| "marker_rounds original (Suc k) marker retained =
     (let marker' = omission_marker (original - retained)
      in marker_rounds original k marker' (MAX_TOOL_RESULT_BYTES - length marker'))"

fun back_to_boundary :: "string \<Rightarrow> nat \<Rightarrow> nat" where
  "back_to_boundary s 0 = 0"
| "back_to_boundary s (Suc i) = (if is_char_boundary s (Suc i) then Suc i else back_to_boundary s i)"

function on_to_boundary :: "string \<Rightarrow> nat \<Rightarrow> nat" where
  "on_to_boundary s i = (if i < length s \<and> \<not> is_char_boundary s i then on_to_boundary s (Suc i) else i)"
  by auto
termination by (relation "measure (\<lambda>(s, i). length s - i)") auto

declare on_to_boundary.simps [simp del]

definition head_end :: "string \<Rightarrow> nat \<Rightarrow> nat" where
  "head_end out retained = back_to_boundary out (retained div 2)"

definition tail_start :: "string \<Rightarrow> nat \<Rightarrow> nat" where
  "tail_start out retained = on_to_boundary out (length out - (retained - head_end out retained))"

definition bound_tool_output :: "string \<Rightarrow> bounded_tool_output" where
  "bound_tool_output out =
     (let original = length out
      in if original \<le> MAX_TOOL_RESULT_BYTES
         then \<lparr> bo_output = out, bo_original_bytes = original, bo_retained_bytes = original \<rparr>
         else
           (let (marker, retained) = marker_rounds original 2 [] MAX_TOOL_RESULT_BYTES;
                bounded = take (head_end out retained) out @ marker @ drop (tail_start out retained) out
            in \<lparr> bo_output = bounded, bo_original_bytes = original, bo_retained_bytes = length bounded \<rparr>))"

section \<open>Lemmas\<close>

lemma back_to_boundary_le: "back_to_boundary s i \<le> i"
  by (induction i) auto

lemma back_to_boundary_ok: "is_char_boundary s (back_to_boundary s i)"
  by (induction i) (auto simp: is_char_boundary_def)

lemma on_to_boundary_ge: "i \<le> on_to_boundary s i"
proof (induction s i rule: on_to_boundary.induct)
  case (1 s i)
  then show ?case by (subst on_to_boundary.simps) (auto dest: Suc_leD)
qed

lemma on_to_boundary_ok: "i \<le> length s \<Longrightarrow> is_char_boundary s (on_to_boundary s i)"
proof (induction s i rule: on_to_boundary.induct)
  case (1 s i)
  show ?case
  proof (cases "i < length s \<and> \<not> is_char_boundary s i")
    case True
    with 1 show ?thesis by (subst on_to_boundary.simps) simp
  next
    case False
    with "1.prems" show ?thesis
      by (subst on_to_boundary.simps) (auto simp: is_char_boundary_def)
  qed
qed

lemma length_omission_marker: "n < 2 ^ 64 \<Longrightarrow> length (omission_marker n) \<le> 200"
proof -
  assume "n < 2 ^ 64"
  then have "length (show_nat n) \<le> 20" by (intro length_show_nat) simp_all
  then show ?thesis by (simp add: omission_marker_def)
qed

lemma bound_tool_output_small:
  "length out \<le> MAX_TOOL_RESULT_BYTES \<Longrightarrow> bo_output (bound_tool_output out) = out"
  by (simp add: bound_tool_output_def Let_def)

lemma bound_tool_output_shape:
  assumes "MAX_TOOL_RESULT_BYTES < length out" "length out < 2 ^ 64"
  obtains h m t where "bo_output (bound_tool_output out) = take h out @ m @ drop t out"
    and "h + (length out - t) + length m \<le> MAX_TOOL_RESULT_BYTES" and "h \<le> t"
    and "is_char_boundary out h" and "is_char_boundary out t"
proof -
  define m where "m = omission_marker (length out -
    (MAX_TOOL_RESULT_BYTES - length (omission_marker (length out - MAX_TOOL_RESULT_BYTES))))"
  define r where "r = MAX_TOOL_RESULT_BYTES - length m"
  define h where "h = head_end out r"
  define t where "t = tail_start out r"
  have m: "length m \<le> 200" unfolding m_def using assms by (intro length_omission_marker) simp
  have h: "h \<le> r div 2" unfolding h_def head_end_def by (rule back_to_boundary_le)
  have r: "r \<le> length out" "r + length m = MAX_TOOL_RESULT_BYTES"
    using assms m by (simp_all add: r_def MAX_TOOL_RESULT_BYTES_def)
  have t: "length out - (r - h) \<le> t"
    unfolding t_def tail_start_def h_def by (rule on_to_boundary_ge)
  show thesis
  proof (rule that)
    show "h \<le> t" using t h r by linarith
    show "h + (length out - t) + length m \<le> MAX_TOOL_RESULT_BYTES" using t h r by linarith
    show "bo_output (bound_tool_output out) = take h out @ m @ drop t out"
      using assms(1)
      by (simp add: bound_tool_output_def Let_def numeral_2_eq_2 h_def t_def r_def m_def)
    show "is_char_boundary out h" unfolding h_def head_end_def by (rule back_to_boundary_ok)
    show "is_char_boundary out t"
      unfolding t_def tail_start_def by (rule on_to_boundary_ok) simp
  qed
qed

section \<open>Properties\<close>



end
