(* ===== verification/Core_Types.thy ===== *)
theory Core_Types
  imports Agent_State Tool_Output
begin

text \<open>
  The vocabulary of one run of the agent loop (\<^verbatim>\<open>crates/agentcore\<close>): its errors, its configuration,
  the events it emits, the outside world it talks to and the state it threads. The world
  (\<open>run_env\<close>) is a parameter: the provider, the toolbox, the event sink, the cancel token, the clock,
  the source of fresh ids, JSON rendering and the owner's compaction policy. Each is
  consulted with the number of effects performed so far, so it may answer differently every time.
  A fallible asynchronous function is a state transformer that returns an error or a value.
\<close>

section \<open>Errors\<close>

datatype llm_error = RateLimit "nat option" | Overloaded | ApiError nat string | Network string
  | LlmEventSink string

datatype agent_error = MaxIterationsExceeded nat | StuckInLoop string nat | ProviderError llm_error
  | EventSinkError string | Truncated "u32 option" | Cancelled

definition is_transient :: "llm_error \<Rightarrow> bool" where
  "is_transient e = (case e of
     RateLimit r \<Rightarrow> True | Overloaded \<Rightarrow> True | Network n \<Rightarrow> True
   | ApiError s m \<Rightarrow> False | LlmEventSink m \<Rightarrow> False)"

text \<open>A delay is a number of milliseconds.\<close>

definition retry_after :: "llm_error \<Rightarrow> nat option" where
  "retry_after e = (case e of
     RateLimit r \<Rightarrow> r | Overloaded \<Rightarrow> None | Network n \<Rightarrow> None | ApiError s m \<Rightarrow> None
   | LlmEventSink m \<Rightarrow> None)"

definition show_int :: "int \<Rightarrow> string" where
  "show_int i = (if i < 0 then ''-'' @ show_nat (nat (- i)) else show_nat (nat i))"

definition diagnostic_display :: "command_diagnostic \<Rightarrow> string" where
  "diagnostic_display d = ''- '' @ cd_severity d
     @ (case cd_code d of Some code \<Rightarrow> ''['' @ code @ '']'' | None \<Rightarrow> [])
     @ '': '' @ cd_message d
     @ (case cd_location d of Some loc \<Rightarrow> '' at '' @ loc | None \<Rightarrow> []) @ [nl]"

definition command_failure_display :: "command_failure \<Rightarrow> string" where
  "command_failure_display f = ''exit code: '' @ show_int (cf_exit_code f) @ [nl]
     @ (if cf_diagnostics f \<noteq> []
        then ''diagnostics:'' @ [nl] @ concat (map diagnostic_display (cf_diagnostics f)) else [])
     @ (if trim (cf_output f) \<noteq> [] then ''output:'' @ [nl] @ trim (cf_output f) else [])"

definition tool_call_error_display :: "tool_call_error \<Rightarrow> string" where
  "tool_call_error_display e = (case e of
     InvalidInput m \<Rightarrow> ''invalid input: '' @ m
   | Execution m \<Rightarrow> ''execution error: '' @ m
   | ExecutionFailed m \<Rightarrow> ''execution failed: '' @ m
   | CommandFailed f \<Rightarrow> ''command failed: '' @ command_failure_display f)"

section \<open>Configuration\<close>

record compaction_budget =
  cb_context_window :: u32
  cb_trigger_at_percent :: u32
  cb_retain_percent :: u32

record agent_config =
  cfg_max_iterations :: nat
  cfg_stuck_threshold :: nat
  cfg_nudge_threshold :: nat
  cfg_max_tokens :: "u32 option"
  cfg_compaction :: "compaction_budget option"

definition DEFAULT_MAX_ITERATIONS :: nat where "DEFAULT_MAX_ITERATIONS = 10000"

definition agent_config_default :: agent_config where
  "agent_config_default = \<lparr> cfg_max_iterations = DEFAULT_MAX_ITERATIONS, cfg_stuck_threshold = 5,
     cfg_nudge_threshold = 3, cfg_max_tokens = None, cfg_compaction = None \<rparr>"

text \<open>\<open>AgentBuilder::build\<close> refuses a nudge that could only come after the run is declared stuck.\<close>

definition config_ok :: "agent_config \<Rightarrow> bool" where
  "config_ok cfg \<longleftrightarrow> \<not> cfg_nudge_threshold cfg \<ge> cfg_stuck_threshold cfg"

section \<open>Events\<close>

datatype core_event =
    EvInputMessage string agent_input
  | EvMessageStart string
  | EvMessageStop string
  | EvMessageComplete string message
  | EvTextChunk string string
  | EvToolExecuting string string
  | EvToolComplete tool_complete
  | EvRunComplete usage u32 u32 u64
  | EvRunAborted usage u32 u64
  | EvCompacted compacted
  | EvCompactionSkipped u32 "u32 option" u64

section \<open>The outside world\<close>

datatype stop_reason = EndTurn | ToolUse | MaxTokens

record completion_response =
  cr_parts :: "content_part list"
  cr_stop_reason :: stop_reason
  cr_usage :: usage

text \<open>
  A provider call either loses the race with the cancel token, or answers after streaming some text
  chunks.
\<close>

datatype provider_reply = PrCancelled | PrReply "string list" "llm_error + completion_response"

record tool_value =
  tlv_value :: json
  tlv_artifacts :: "artifact_ref list"
  tlv_original_output_bytes :: u64
  tlv_spilled_output_bytes :: u64

datatype tool_outcome = ToolResult tool_value | StopRun

record compaction_plan =
  pl_covered :: nat
  pl_retained :: nat
  pl_tokens_before :: u32
  pl_instructions :: "string option"
  pl_trigger :: string

text \<open>\<open>pol_before\<close> answers \<open>Some reason\<close> for \<open>PreCompactDecision::Abandon\<close>.\<close>

record compaction_policy =
  pol_before :: "nat \<Rightarrow> compaction_plan \<Rightarrow> string option"
  pol_carried_state :: "nat \<Rightarrow> string"

record run_env =
  en_complete :: "nat \<Rightarrow> message list \<Rightarrow> provider_reply"
  en_summarise :: "nat \<Rightarrow> message list \<Rightarrow> llm_error + content_part list"
  en_emit :: "nat \<Rightarrow> core_event \<Rightarrow> string option"
  en_cancelled :: "nat \<Rightarrow> bool"
  en_execute :: "nat \<Rightarrow> string \<Rightarrow> json \<Rightarrow> string \<Rightarrow> tool_call_error + tool_outcome"
  en_schedule :: "nat \<Rightarrow> nat list"
  en_now :: "nat \<Rightarrow> u64"
  en_fresh :: "nat \<Rightarrow> string"
  en_show_json :: "json \<Rightarrow> string"
  en_policy :: "compaction_policy option"

section \<open>The state of a run\<close>

record run_accounting =
  sp_usage :: usage
  sp_context_tokens :: u32

definition run_accounting_new :: run_accounting where
  "run_accounting_new = \<lparr> sp_usage = \<lparr> u_input_tokens = 0, u_output_tokens = 0,
     u_cache_creation_tokens = None, u_cache_read_tokens = None \<rparr>, sp_context_tokens = 0 \<rparr>"

text \<open>
  \<open>ca_trace\<close> is every event handed to the sink, with whether the sink accepted it: what
  \<open>CapturingSink\<close> records. \<open>ca_requests\<close> is the history each provider call was made with.
\<close>

record core =
  ca_history :: "message list"
  ca_last_context_tokens :: u32
  ca_spent :: run_accounting
  ca_tick :: nat
  ca_trace :: "(core_event \<times> bool) list"
  ca_requests :: "message list list"

type_synonym 'a run = "core \<Rightarrow> (agent_error + 'a) \<times> core"

definition ret :: "'a \<Rightarrow> 'a run" where
  "ret x = (\<lambda>c. (Inr x, c))"

definition fail :: "agent_error \<Rightarrow> 'a run" where
  "fail e = (\<lambda>c. (Inl e, c))"

definition bind_run :: "'a run \<Rightarrow> ('a \<Rightarrow> 'b run) \<Rightarrow> 'b run" where
  "bind_run m f = (\<lambda>c. case m c of (Inl e, c') \<Rightarrow> (Inl e, c') | (Inr x, c') \<Rightarrow> f x c')"

definition modify_core :: "(core \<Rightarrow> core) \<Rightarrow> unit run" where
  "modify_core f = (\<lambda>c. (Inr (), f c))"

definition read_core :: "(core \<Rightarrow> 'a) \<Rightarrow> 'a run" where
  "read_core f = (\<lambda>c. (Inr (f c), c))"

text \<open>Consult the world: the answer to effect number \<open>ca_tick\<close>.\<close>

definition ask_env :: "(nat \<Rightarrow> 'a) \<Rightarrow> 'a run" where
  "ask_env f = (\<lambda>c. (Inr (f (ca_tick c)), c\<lparr> ca_tick := Suc (ca_tick c) \<rparr>))"

definition emit :: "run_env \<Rightarrow> core_event \<Rightarrow> unit run" where
  "emit env ev = (\<lambda>c.
     let r = en_emit env (ca_tick c) ev;
         c' = c\<lparr> ca_tick := Suc (ca_tick c), ca_trace := ca_trace c @ [(ev, r = None)] \<rparr>
     in case r of None \<Rightarrow> (Inr (), c') | Some m \<Rightarrow> (Inl (EventSinkError m), c'))"

definition push_history :: "message \<Rightarrow> unit run" where
  "push_history m = modify_core (\<lambda>c. c\<lparr> ca_history := ca_history c @ [m] \<rparr>)"

definition check_cancelled :: "run_env \<Rightarrow> unit run" where
  "check_cancelled env = bind_run (ask_env (en_cancelled env)) (\<lambda>b. if b then fail Cancelled else ret ())"

section \<open>Reasoning about a run\<close>

text \<open>
  A run's contract is a relation between the state before and after that every step respects and
  that composes; \<open>preserves\<close> says a step respects it, whether it succeeds or fails.
\<close>

definition preserves :: "(core \<Rightarrow> core \<Rightarrow> bool) \<Rightarrow> 'a run \<Rightarrow> bool" where
  "preserves R m \<longleftrightarrow> (\<forall>c. R c (snd (m c)))"

locale run_relation =
  fixes R :: "core \<Rightarrow> core \<Rightarrow> bool"
  assumes R_refl: "R c c" and R_trans: "R a b \<Longrightarrow> R b c \<Longrightarrow> R a c"
begin

lemma preserves_ret: "preserves R (ret x)"
  by (simp add: preserves_def ret_def R_refl)

lemma preserves_fail: "preserves R (fail e)"
  by (simp add: preserves_def fail_def R_refl)

lemma preserves_read: "preserves R (read_core f)"
  by (simp add: preserves_def read_core_def R_refl)

lemma preserves_bind:
  assumes "preserves R m" "\<And>x. preserves R (f x)"
  shows "preserves R (bind_run m f)"
  unfolding preserves_def
proof
  fix c
  obtain r c' where m: "m c = (r, c')" by fastforce
  with assms(1) have "R c c'" by (metis preserves_def snd_conv)
  with m assms(2) show "R c (snd (bind_run m f c))"
    by (cases r) (auto simp: bind_run_def preserves_def intro: R_trans)
qed

end

lemma bind_run_simps [simp]:
  "bind_run (ret x) f = f x" "bind_run (fail e) f = fail e"
  by (simp_all add: bind_run_def ret_def fail_def)

lemma bind_run_InrE:
  assumes "bind_run m f c = (Inr y, c'')"
  obtains x c' where "m c = (Inr x, c')" "f x c' = (Inr y, c'')"
  using assms by (auto simp: bind_run_def split: prod.splits sum.splits)

end
