(* ===== verification/Core_Compaction.thy ===== *)
theory Core_Compaction
  imports Core_Types
begin

text \<open>
  Deciding what a compaction keeps and rewriting the running agent's history
  (\<^verbatim>\<open>crates/agentcore/src/compaction.rs\<close>).
\<close>

section \<open>Budgets\<close>

definition trigger_tokens :: "compaction_budget \<Rightarrow> u32" where
  "trigger_tokens b = sat_mul (cb_context_window b) (cb_trigger_at_percent b) div 100"

definition retain_tokens :: "compaction_budget \<Rightarrow> u32" where
  "retain_tokens b = sat_mul (cb_context_window b) (cb_retain_percent b) div 100"

definition artifact_chars :: "artifact_ref \<Rightarrow> nat" where
  "artifact_chars a =
     (let tokens = (case af_kind a of
            Image w h \<Rightarrow>
              (case (w, h) of (Some w', Some h') \<Rightarrow> (unat w' * unat h') div 750 | _ \<Rightarrow> 1500)
          | Document \<Rightarrow> 3000)
      in tokens * 4)"

definition part_chars :: "(json \<Rightarrow> string) \<Rightarrow> content_part \<Rightarrow> nat" where
  "part_chars show_json p = (case p of
     PText t \<Rightarrow> length t
   | PToolResult r \<Rightarrow> length (tr_output r)
   | PToolCall c \<Rightarrow> length (show_json (tc_input c))
   | PThinking t s \<Rightarrow> length t
   | PSubAgentResult r \<Rightarrow> length (sr_text r)
   | PArtifact a \<Rightarrow> artifact_chars a)"

definition approx_tokens :: "(json \<Rightarrow> string) \<Rightarrow> message \<Rightarrow> u32" where
  "approx_tokens show_json m =
     (let chars = sum_list (map (part_chars show_json) (m_parts m))
      in of_nat (min (chars div 4) (2 ^ 32 - 1)))"

section \<open>Where to cut\<close>

definition is_safe_boundary :: "message \<Rightarrow> bool" where
  "is_safe_boundary m \<longleftrightarrow> m_role m = RUser \<and> \<not> list_ex (\<lambda>p. part_result p \<noteq> None) (m_parts m)"

text \<open>The table \<open>suffix\<close>: the tokens from an index to the end, saturating.\<close>

fun suffix_tokens :: "(json \<Rightarrow> string) \<Rightarrow> message list \<Rightarrow> u32" where
  "suffix_tokens sj [] = 0"
| "suffix_tokens sj (m # ms) = sat_add (suffix_tokens sj ms) (approx_tokens sj m)"

fun cut_loop :: "(json \<Rightarrow> string) \<Rightarrow> u32 \<Rightarrow> nat \<Rightarrow> nat option \<Rightarrow> message list \<Rightarrow> nat" where
  "cut_loop sj budget idx latest [] = (case latest of Some i \<Rightarrow> i | None \<Rightarrow> idx)"
| "cut_loop sj budget idx latest (m # ms) =
     (if \<not> is_safe_boundary m then cut_loop sj budget (Suc idx) latest ms
      else if suffix_tokens sj (m # ms) \<le> budget then idx
      else cut_loop sj budget (Suc idx) (Some idx) ms)"

definition choose_cut :: "(json \<Rightarrow> string) \<Rightarrow> message list \<Rightarrow> u32 \<Rightarrow> nat" where
  "choose_cut sj history budget = (if history = [] then 0 else cut_loop sj budget 0 None history)"

section \<open>The summarising call\<close>

definition summary_prompt :: "string option \<Rightarrow> string" where
  "summary_prompt instructions =
     ''Summarise the conversation so far for an agent that will continue the ''
     @ ''work without being able to see it. Write for a reader who has the ''
     @ ''recent messages but none of the earlier ones.'' @ [nl, nl]
     @ ''Cover, as headed sections, and omit a section only when it is truly ''
     @ ''empty:'' @ [nl]
     @ ''- What was asked, and what the user actually wants'' @ [nl]
     @ ''- Decisions taken, and the reasoning that is not obvious from the result'' @ [nl]
     @ ''- Files and code touched, by exact path'' @ [nl]
     @ ''- Errors hit and how they were resolved'' @ [nl]
     @ ''- What is in flight right now'' @ [nl]
     @ ''- The immediate next step'' @ [nl, nl]
     @ ''Be specific. Names, paths, ids and error text are worth more than ''
     @ ''prose. Do not invent anything that is not in the conversation, and do ''
     @ ''not address the user.''
     @ (case map_option trim instructions of
          None \<Rightarrow> []
        | Some extra \<Rightarrow> if extra = [] then []
            else [nl, nl] @ ''The user asked you to pay particular attention to: '' @ extra)"

definition extract_text :: "content_part list \<Rightarrow> string" where
  "extract_text ps = concat (List.map_filter (\<lambda>p. case p of PText t \<Rightarrow> Some t | _ \<Rightarrow> None) ps)"

definition summarise_cut :: "run_env \<Rightarrow> nat \<Rightarrow> string option \<Rightarrow> string run" where
  "summarise_cut env cutp instructions =
     bind_run (read_core ca_history) (\<lambda>history.
     bind_run (ask_env (en_now env)) (\<lambda>now.
     bind_run (ask_env (\<lambda>n. en_summarise env n (take cutp history
       @ [message_user (''compaction-request:'' @ show_nat cutp) (summary_prompt instructions) now])))
     (\<lambda>r. case r of
        Inl e \<Rightarrow> fail (ProviderError e)
      | Inr parts \<Rightarrow>
          if trim (extract_text parts) = [] then
            fail (ProviderError (ApiError 502 ''the summariser returned no text''))
          else ret (extract_text parts))))"

text \<open>\<open>summarise_all\<close>: a reading of the whole history that changes nothing.\<close>

definition summarise_all :: "run_env \<Rightarrow> string option \<Rightarrow> string run" where
  "summarise_all env instructions =
     bind_run (read_core ca_history) (\<lambda>history.
       if history = [] then ret [] else summarise_cut env (length history) instructions)"

definition core_boundary_text :: "string \<Rightarrow> string \<Rightarrow> string" where
  "core_boundary_text summary carried =
     ''This conversation was compacted: earlier history is summarised below ''
     @ ''rather than shown in full. The messages after this one are verbatim.'' @ [nl, nl]
     @ ''## Summary of earlier work'' @ [nl] @ trim summary @ [nl, nl] @ ''## Current state'' @ [nl]
     @ trim carried"

section \<open>Compacting\<close>

definition report_nothing_to_fold :: "run_env \<Rightarrow> agent_config \<Rightarrow> compaction_trigger \<Rightarrow> unit run" where
  "report_nothing_to_fold env cfg trigger = (case trigger of
     TrigAuto \<Rightarrow> ret ()
   | TrigManual \<Rightarrow>
       bind_run (read_core ca_last_context_tokens) (\<lambda>tokens.
       bind_run (ask_env (en_now env)) (\<lambda>now.
         emit env (EvCompactionSkipped tokens (map_option retain_tokens (cfg_compaction cfg)) now))))"

definition trigger_name :: "compaction_trigger \<Rightarrow> string" where
  "trigger_name t = (case t of TrigAuto \<Rightarrow> ''auto'' | TrigManual \<Rightarrow> ''manual'')"

text \<open>The history a compaction leaves: the boundary, then everything from the cut on.\<close>

definition rewritten_history :: "message list \<Rightarrow> nat \<Rightarrow> string \<Rightarrow> string \<Rightarrow> u64 \<Rightarrow> message list" where
  "rewritten_history history cutp summary carried now =
     message_user (''compaction:'' @ show_nat (length history)) (core_boundary_text summary carried) now
     # drop cutp history"

definition compact_at ::
    "run_env \<Rightarrow> compaction_policy \<Rightarrow> nat \<Rightarrow> string option \<Rightarrow> compaction_trigger \<Rightarrow> unit run" where
  "compact_at env pol cutp instructions trigger =
     bind_run (read_core ca_history) (\<lambda>history.
     bind_run (read_core ca_last_context_tokens) (\<lambda>tokens_before.
     bind_run (ask_env (\<lambda>n. pol_before pol n \<lparr> pl_covered = cutp, pl_retained = length history - cutp,
         pl_tokens_before = tokens_before, pl_instructions = instructions,
         pl_trigger = trigger_name trigger \<rparr>)) (\<lambda>verdict.
     case verdict of
       Some reason \<Rightarrow> ret ()
     | None \<Rightarrow>
         bind_run (summarise_cut env cutp instructions) (\<lambda>summary.
         bind_run (ask_env (pol_carried_state pol)) (\<lambda>carried.
         bind_run (ask_env (en_now env)) (\<lambda>now.
           let retained_from = (if cutp < length history then Some (m_id (history ! cutp)) else None);
               rewritten = rewritten_history history cutp summary carried now;
               tokens_after = sum_list (map (approx_tokens (en_show_json env)) rewritten)
           in bind_run (modify_core (\<lambda>c. c\<lparr> ca_history := rewritten,
                  ca_last_context_tokens := tokens_after \<rparr>)) (\<lambda>_.
              emit env (EvCompacted \<lparr> cp_summary = summary, cp_carried_state = carried,
                cp_retained_from = retained_from, cp_trigger = trigger,
                cp_instructions = instructions, cp_tokens_before = tokens_before,
                cp_tokens_after = tokens_after, cp_at_ms = now \<rparr>))))))))"

definition compact ::
    "run_env \<Rightarrow> agent_config \<Rightarrow> string option \<Rightarrow> compaction_trigger \<Rightarrow> unit run" where
  "compact env cfg instructions trigger = (case en_policy env of
     None \<Rightarrow> report_nothing_to_fold env cfg trigger
   | Some pol \<Rightarrow>
       bind_run (read_core ca_history) (\<lambda>history.
         let retain = (case cfg_compaction cfg of None \<Rightarrow> 0 | Some b \<Rightarrow> retain_tokens b);
             cutp = choose_cut (en_show_json env) history retain
         in if cutp = 0 then report_nothing_to_fold env cfg trigger
            else compact_at env pol cutp instructions trigger))"

definition compact_only :: "run_env \<Rightarrow> agent_config \<Rightarrow> string option \<Rightarrow> unit run" where
  "compact_only env cfg instructions = compact env cfg instructions TrigManual"

text \<open>A failed compaction is not a failed turn: the error is logged and dropped.\<close>

definition swallow :: "unit run \<Rightarrow> unit run" where
  "swallow m = (\<lambda>c. (Inr (), snd (m c)))"

definition maybe_compact :: "run_env \<Rightarrow> agent_config \<Rightarrow> unit run" where
  "maybe_compact env cfg = (case cfg_compaction cfg of
     None \<Rightarrow> ret ()
   | Some budget \<Rightarrow>
       bind_run (read_core ca_last_context_tokens) (\<lambda>tokens.
         if en_policy env = None \<or> tokens < trigger_tokens budget then ret ()
         else swallow (compact env cfg None TrigAuto)))"

section \<open>The cut\<close>

lemma suffix_tokens_mono: "suffix_tokens sj (drop j h) \<le> suffix_tokens sj (drop i h)" if "i \<le> j"
  using that
proof (induction h arbitrary: i j)
  case (Cons m ms)
  have step: "suffix_tokens sj ms \<le> suffix_tokens sj (m # ms)" by (simp add: sat_add_mono)
  show ?case
  proof (cases j)
    case (Suc j')
    show ?thesis
    proof (cases i)
      case 0
      have "suffix_tokens sj (drop j' ms) \<le> suffix_tokens sj (drop 0 ms)" using Cons.IH [of 0 j'] by simp
      with step 0 Suc show ?thesis by simp
    qed (use Cons Suc in simp)
  qed (use Cons in simp)
qed simp

text \<open>\<open>fits\<close> is an index the code may cut at within the budget.\<close>

definition fits :: "(json \<Rightarrow> string) \<Rightarrow> u32 \<Rightarrow> message list \<Rightarrow> nat \<Rightarrow> bool" where
  "fits sj budget h i \<longleftrightarrow> i < length h \<and> is_safe_boundary (h ! i) \<and> suffix_tokens sj (drop i h) \<le> budget"

lemma cut_loop_spec:
  assumes "\<forall>j<i. \<not> fits sj b h j" and "i \<le> length h"
    and "case latest of None \<Rightarrow> \<forall>j<i. \<not> is_safe_boundary (h ! j)
         | Some k \<Rightarrow> k < i \<and> is_safe_boundary (h ! k) \<and> (\<forall>j. k < j \<and> j < i \<longrightarrow> \<not> is_safe_boundary (h ! j))"
    and "cutp = cut_loop sj b i latest (drop i h)"
  shows "(fits sj b h cutp \<and> (\<forall>j<cutp. \<not> fits sj b h j)) \<or>
    ((\<forall>j. \<not> fits sj b h j) \<and>
      (cutp < length h \<and> is_safe_boundary (h ! cutp) \<and> (\<forall>j. cutp < j \<and> j < length h \<longrightarrow> \<not> is_safe_boundary (h ! j))
       \<or> cutp = length h \<and> (\<forall>j<length h. \<not> is_safe_boundary (h ! j))))"
  using assms
proof (induction "length h - i" arbitrary: i latest)
  case 0
  then have "drop i h = []" and i: "i = length h" by auto
  moreover have "\<forall>j. \<not> fits sj b h j" using 0 i by (auto simp: fits_def)
  ultimately show ?case using 0 by (auto split: option.splits)
next
  case (Suc n)
  then have i: "i < length h" by simp
  then have drop: "drop i h = h ! i # drop (Suc i) h" by (simp add: Cons_nth_drop_Suc)
  have hyp: "\<lbrakk>\<forall>j<Suc i. \<not> fits sj b h j; case latest' of None \<Rightarrow> \<forall>j<Suc i. \<not> is_safe_boundary (h ! j)
         | Some k \<Rightarrow> k < Suc i \<and> is_safe_boundary (h ! k) \<and> (\<forall>j. k < j \<and> j < Suc i \<longrightarrow> \<not> is_safe_boundary (h ! j));
      cutp = cut_loop sj b (Suc i) latest' (drop (Suc i) h)\<rbrakk> \<Longrightarrow> ?case" for latest'
    by (rule Suc.hyps(1)) (use Suc.hyps(2) i in auto)
  show ?case
  proof (cases "is_safe_boundary (h ! i)")
    case False
    then have "\<not> fits sj b h i" by (simp add: fits_def)
    with Suc.prems(1) have "\<forall>j<Suc i. \<not> fits sj b h j" by (simp add: less_Suc_eq)
    moreover have "cutp = cut_loop sj b (Suc i) latest (drop (Suc i) h)"
      using Suc.prems(4) drop False by simp
    moreover have "case latest of None \<Rightarrow> \<forall>j<Suc i. \<not> is_safe_boundary (h ! j)
         | Some k \<Rightarrow> k < Suc i \<and> is_safe_boundary (h ! k) \<and> (\<forall>j. k < j \<and> j < Suc i \<longrightarrow> \<not> is_safe_boundary (h ! j))"
      using Suc.prems(3) False by (auto simp: less_Suc_eq split: option.splits)
    ultimately show ?thesis using hyp [of latest] by blast
  next
    case True
    show ?thesis
    proof (cases "suffix_tokens sj (drop i h) \<le> b")
      case fit: True
      then have "cutp = i" using Suc.prems(4) drop True by simp
      moreover have "fits sj b h i" using i True fit by (simp add: fits_def)
      ultimately show ?thesis using Suc.prems(1) by simp
    next
      case unfit: False
      then have "\<not> fits sj b h i" by (simp add: fits_def)
      with Suc.prems(1) have "\<forall>j<Suc i. \<not> fits sj b h j" by (simp add: less_Suc_eq)
      moreover have "cutp = cut_loop sj b (Suc i) (Some i) (drop (Suc i) h)"
        using Suc.prems(4) drop True unfit by simp
      ultimately show ?thesis by (intro hyp [of "Some i"]) (use True in auto)
    qed
  qed
qed

lemma choose_cut_spec:
  assumes "cutp = choose_cut sj h b"
  shows "(fits sj b h cutp \<and> (\<forall>j<cutp. \<not> fits sj b h j)) \<or>
    ((\<forall>j. \<not> fits sj b h j) \<and>
      (cutp < length h \<and> is_safe_boundary (h ! cutp) \<and> (\<forall>j. cutp < j \<and> j < length h \<longrightarrow> \<not> is_safe_boundary (h ! j))
       \<or> cutp = length h \<and> (\<forall>j<length h. \<not> is_safe_boundary (h ! j))))"
proof (cases "h = []")
  case True
  with assms show ?thesis by (simp add: choose_cut_def fits_def)
next
  case False
  with assms show ?thesis
    by (intro cut_loop_spec [where i = 0 and latest = None]) (simp_all add: choose_cut_def)
qed

lemma choose_cut_le: "choose_cut sj h b \<le> length h"
  using choose_cut_spec [OF refl, where sj = sj and h = h and b = b] by (auto simp: fits_def)

lemma choose_cut_safe:
  "choose_cut sj h b < length h \<Longrightarrow> is_safe_boundary (h ! choose_cut sj h b)"
  using choose_cut_spec [OF refl, where sj = sj and h = h and b = b] by (auto simp: fits_def)

section \<open>Properties\<close>

text \<open>
  C30: A compaction cuts at the earliest message the history may be cut at whose suffix fits the budget, so
  as much as possible is kept. When no suffix fits it keeps from the last safe message on, and when there
  is none it keeps nothing. A cut inside the history is therefore always at a user message that answers no
  tool call, never between a call and its result.\<close>

theorem compaction_cut_is_the_earliest_that_fits:
  "let k = choose_cut sj h budget in
     k \<le> length h \<and> (k < length h \<longrightarrow> is_safe_boundary (h ! k)) \<and>
     (fits sj budget h k \<and> (\<forall>j<k. \<not> fits sj budget h j) \<or>
      (\<forall>j. \<not> fits sj budget h j) \<and> (\<forall>j. k < j \<and> j < length h \<longrightarrow> \<not> is_safe_boundary (h ! j)) \<and>
        (k = length h \<longrightarrow> (\<forall>j<length h. \<not> is_safe_boundary (h ! j))))"
  using choose_cut_spec [OF refl, where sj = sj and h = h and b = budget] choose_cut_le [of sj h budget]
    choose_cut_safe [of sj h budget]
  unfolding Let_def by fastforce

theorem compaction_cut_is_the_earliest_that_fits_witness:
  "choose_cut (\<lambda>_. []) [message_user ''a'' ''long enough text'' 1, message_user ''b'' ''hi'' 2] 1 = 1 \<and>
   is_safe_boundary ([message_user ''a'' ''long enough text'' 1, message_user ''b'' ''hi'' 2] ! 1)"
proof -
  let ?h = "[message_user ''a'' ''long enough text'' 1, message_user ''b'' ''hi'' 2]"
  have k: "choose_cut (\<lambda>_. []) ?h 1 = 1"
    by (simp add: choose_cut_def is_safe_boundary_def message_user_def approx_tokens_def part_chars_def sat_add_def Let_def)
      (simp add: word_le_nat_alt)
  moreover have "length ?h = 2" by simp
  ultimately show ?thesis
    using compaction_cut_is_the_earliest_that_fits [where sj = "\<lambda>_. []" and h = ?h and budget = 1]
    unfolding Let_def by simp
qed

end
