(* ===== verification/Repair.thy ===== *)
theory Repair
  imports Agent_State
begin

text \<open>
  What a dead process left dangling (\<^verbatim>\<open>agent_actor/repair.rs\<close>). \<open>repair_dangling\<close> is the source's two
  passes: a map from insertion index to the calls repaired there, then one walk that weaves the
  synthetic results in. It is proved equal to \<open>repair_rec\<close>, a single left-to-right pass, and every
  property of the repaired history is proved of the latter. The clock is read once, as \<open>now\<close>.
\<close>

section \<open>Operations\<close>

definition INTERRUPTED_RESULT :: string where
  "INTERRUPTED_RESULT = ''interrupted, no result was recorded''"

definition parked_call_ids :: "agent_state \<Rightarrow> string list" where
  "parked_call_ids s = List.map_filter aq_call_id (st_asks s)"

definition synthetic_result :: "u64 \<Rightarrow> string \<Rightarrow> message" where
  "synthetic_result now call = message_tool_result call INTERRUPTED_RESULT True [] now"

definition synthetic_results :: "u64 \<Rightarrow> string list \<Rightarrow> message list" where
  "synthetic_results now ids = map (synthetic_result now) ids"

definition answered_ids :: "message list \<Rightarrow> string list" where
  "answered_ids ms = concat (map message_results ms)"

definition missing_tool_results :: "message list \<Rightarrow> string list \<Rightarrow> u64 \<Rightarrow> message list" where
  "missing_tool_results ms parked_on now =
     (let answered = answered_ids ms;
          dangling = filter (\<lambda>c. c \<notin> set answered \<and> c \<notin> set parked_on)
            (concat (map message_calls (filter (\<lambda>m. m_role m = RAssistant) ms)))
      in if dangling = [] then [] else synthetic_results now dangling)"

text \<open>The calls of an assistant message that nothing answers.\<close>

definition dangling_of :: "string set \<Rightarrow> message \<Rightarrow> string list" where
  "dangling_of answered m =
     (if m_role m \<noteq> RAssistant then [] else filter (\<lambda>c. c \<notin> answered) (message_calls m))"

definition tool_run :: "message list \<Rightarrow> nat" where
  "tool_run ms = length (takeWhile (\<lambda>m. m_role m = RTool) ms)"

definition insertion_point :: "message list \<Rightarrow> nat \<Rightarrow> nat" where
  "insertion_point ms i = Suc i + tool_run (drop (Suc i) ms)"

definition repairs_at :: "string set \<Rightarrow> message list \<Rightarrow> nat \<Rightarrow> string list" where
  "repairs_at answered ms k =
     concat (map (\<lambda>i. if insertion_point ms i = k then dangling_of answered (ms ! i) else [])
       [0 ..< length ms])"

fun weave :: "(nat \<Rightarrow> 'a list) \<Rightarrow> 'a list \<Rightarrow> 'a list" where
  "weave f [] = f 0"
| "weave f (m # ms) = f 0 @ m # weave (\<lambda>k. f (Suc k)) ms"

definition repair_dangling :: "message list \<Rightarrow> string set \<Rightarrow> u64 \<Rightarrow> message list" where
  "repair_dangling ms answering now =
     (let answered = set (answered_ids ms) \<union> answering
      in if list_all (\<lambda>m. dangling_of answered m = []) ms then ms
         else weave (\<lambda>k. synthetic_results now (repairs_at answered ms k)) ms)"

definition repair_unanswered_tool_calls :: "message list \<Rightarrow> u64 \<Rightarrow> message list" where
  "repair_unanswered_tool_calls ms now = repair_dangling ms {} now"

definition repair_unanswered_tool_calls_except ::
    "message list \<Rightarrow> string set \<Rightarrow> u64 \<Rightarrow> message list" where
  "repair_unanswered_tool_calls_except ms answering now = repair_dangling ms answering now"

section \<open>One pass\<close>

fun repair_rec :: "string set \<Rightarrow> u64 \<Rightarrow> string list \<Rightarrow> message list \<Rightarrow> message list" where
  "repair_rec answered now pend [] = synthetic_results now pend"
| "repair_rec answered now pend (m # ms) =
     (if m_role m = RTool then m # repair_rec answered now pend ms
      else synthetic_results now pend @ m # repair_rec answered now (dangling_of answered m) ms)"

lemma repairs_at_Cons:
  "repairs_at answered (m # ms) 0 = []"
  "repairs_at answered (m # ms) (Suc k) =
     (if tool_run ms = k then dangling_of answered m else []) @ repairs_at answered ms k"
proof -
  have upt: "[0 ..< length (m # ms)] = 0 # map Suc [0 ..< length ms]"
    by (simp add: upt_conv_Cons map_Suc_upt del: upt_Suc)
  show "repairs_at answered (m # ms) 0 = []"
    unfolding repairs_at_def insertion_point_def by simp
  show "repairs_at answered (m # ms) (Suc k) =
     (if tool_run ms = k then dangling_of answered m else []) @ repairs_at answered ms k"
    unfolding repairs_at_def upt by (simp add: insertion_point_def comp_def cong: if_cong)
qed

lemma synthetic_results_append [simp]:
  "synthetic_results now (xs @ ys) = synthetic_results now xs @ synthetic_results now ys"
  "synthetic_results now [] = []"
  by (simp_all add: synthetic_results_def)

lemma weave_repair_rec:
  "weave (\<lambda>k. synthetic_results now ((if tool_run ms = k then pend else []) @ repairs_at answered ms k)) ms
   = repair_rec answered now pend ms"
proof (induction ms arbitrary: pend)
  case Nil
  then show ?case by (simp add: tool_run_def repairs_at_def)
next
  case (Cons m ms)
  show ?case
  proof (cases "m_role m = RTool")
    case True
    then have "tool_run (m # ms) = Suc (tool_run ms)" "dangling_of answered m = []"
      by (simp_all add: tool_run_def dangling_of_def)
    with True Cons.IH [of pend] show ?thesis by (simp add: repairs_at_Cons cong: if_cong)
  next
    case False
    then have "tool_run (m # ms) = 0" by (simp add: tool_run_def)
    with False Cons.IH [of "dangling_of answered m"] show ?thesis by (simp add: repairs_at_Cons)
  qed
qed

lemma repair_rec_clean:
  "\<forall>m\<in>set ms. dangling_of answered m = [] \<Longrightarrow> repair_rec answered now [] ms = ms"
  by (induction ms) auto

lemma repair_dangling_rec:
  "repair_dangling ms answering now = repair_rec (set (answered_ids ms) \<union> answering) now [] ms"
proof -
  let ?a = "set (answered_ids ms) \<union> answering"
  have "weave (\<lambda>k. synthetic_results now (repairs_at ?a ms k)) ms = repair_rec ?a now [] ms"
    using weave_repair_rec [where pend = "[]"] by simp
  then show ?thesis
    by (auto simp: repair_dangling_def Let_def list_all_iff repair_rec_clean)
qed

section \<open>Properties of the repaired history\<close>

lemma synthetic_result_sels [simp]:
  "m_role (synthetic_result now c) = RTool" "message_calls (synthetic_result now c) = []"
  "message_results (synthetic_result now c) = [c]"
  by (simp_all add: synthetic_result_def) (simp add: message_tool_result_def)

lemma synthetic_results_roles [simp]: "m \<in> set (synthetic_results now ids) \<Longrightarrow> m_role m = RTool"
  by (auto simp: synthetic_results_def)

lemma answered_ids_append [simp]:
  "answered_ids (xs @ ys) = answered_ids xs @ answered_ids ys" "answered_ids [] = []"
  "answered_ids (m # ys) = message_results m @ answered_ids ys"
  by (simp_all add: answered_ids_def)

lemma answered_ids_synthetic [simp]: "answered_ids (synthetic_results now ids) = ids"
  by (induction ids) (simp_all add: synthetic_results_def answered_ids_def)

lemma dangling_synthetic [simp]: "dangling_of a (synthetic_result now c) = []"
  by (simp add: dangling_of_def)

text \<open>Nothing is removed or reordered.\<close>

lemma repair_rec_subseq: "subseq ms (repair_rec a now pend ms)"
proof (induction ms arbitrary: pend)
  case (Cons m ms)
  have "subseq (m # ms) (xs @ m # repair_rec a now p ms)" for xs p
    using Cons.IH [of p] by (simp add: list_emb_append2)
  from this [of "[]" pend] this [of "synthetic_results now pend" "dangling_of a m"] show ?case
    by (cases "m_role m = RTool") simp_all
qed simp

lemma repair_rec_set:
  "m \<in> set (repair_rec a now pend ms) \<longleftrightarrow>
     m \<in> set ms \<or> (\<exists>c\<in>set pend \<union> (\<Union>m'\<in>set ms. set (dangling_of a m')). m = synthetic_result now c)"
proof (induction ms arbitrary: pend)
  case Nil
  then show ?case by (auto simp: synthetic_results_def)
next
  case (Cons x ms)
  have "m_role x = RTool \<Longrightarrow> dangling_of a x = []" by (simp add: dangling_of_def)
  with Cons.IH show ?case by (auto simp: synthetic_results_def)
qed

lemma repair_rec_answers:
  "set (answered_ids (repair_rec a now pend ms)) =
     set (answered_ids ms) \<union> set pend \<union> (\<Union>m'\<in>set ms. set (dangling_of a m'))"
proof (induction ms arbitrary: pend)
  case (Cons x ms)
  have "m_role x = RTool \<Longrightarrow> dangling_of a x = []" by (simp add: dangling_of_def)
  with Cons.IH show ?case by auto
qed simp

lemma repair_clean_after:
  assumes "m \<in> set (repair_rec a now [] ms)" "set (answered_ids ms) \<subseteq> a"
  shows "dangling_of (set (answered_ids (repair_rec a now [] ms)) \<union> a) m = []"
proof -
  from assms(1) consider "m \<in> set ms" | c where "m = synthetic_result now c"
    by (auto simp: repair_rec_set)
  then show ?thesis
  proof cases
    case 1
    then have "set (dangling_of a m) \<subseteq> set (answered_ids (repair_rec a now [] ms))"
      by (auto simp: repair_rec_answers)
    then show ?thesis by (auto simp: dangling_of_def filter_empty_conv split: if_splits)
  next
    case 2
    then show ?thesis by simp
  qed
qed

text \<open>
  A result the repair adds sits in the unbroken run of tool messages directly behind the assistant
  message that made the call, which is where a provider looks for it.
\<close>

fun repaired_in_place :: "string set \<Rightarrow> message list \<Rightarrow> bool" where
  "repaired_in_place a [] = True"
| "repaired_in_place a (m # ms) =
     (set (dangling_of a m) \<subseteq> set (answered_ids (takeWhile (\<lambda>m. m_role m = RTool) ms))
      \<and> repaired_in_place a ms)"

lemma repaired_in_place_append:
  "\<forall>m\<in>set xs. m_role m = RTool \<Longrightarrow> repaired_in_place a (xs @ ys) = repaired_in_place a ys"
  by (induction xs) (auto simp: dangling_of_def)

lemma pend_in_run:
  "set pend \<subseteq> set (answered_ids (takeWhile (\<lambda>m. m_role m = RTool) (repair_rec a now pend ms)))"
proof (induction ms)
  case Nil
  have run: "takeWhile (\<lambda>m. m_role m = RTool) (synthetic_results now pend) = synthetic_results now pend"
    by (auto simp: takeWhile_eq_all_conv)
  show ?case unfolding repair_rec.simps run answered_ids_synthetic by (rule subset_refl)
next
  case (Cons m ms)
  then show ?case by (auto simp: takeWhile_append2)
qed

lemma repair_rec_in_place: "repaired_in_place a (repair_rec a now pend ms)"
proof (induction ms arbitrary: pend)
  case Nil
  then show ?case using repaired_in_place_append [of "synthetic_results now pend" a "[]"] by simp
next
  case (Cons m ms)
  show ?case
  proof (cases "m_role m = RTool")
    case True
    with Cons.IH show ?thesis by (simp add: dangling_of_def)
  next
    case False
    with Cons.IH pend_in_run [of "dangling_of a m" a now ms] show ?thesis
      by (simp add: repaired_in_place_append)
  qed
qed

section \<open>Properties\<close>

definition sample_call :: message where
  "sample_call = \<lparr> m_id = ''a'', m_role = RAssistant,
     m_parts = [PToolCall \<lparr> tc_id = ''c'', tc_name = ''bash'', tc_input = JNull \<rparr>],
     m_created_at_ms = 1, m_started_at_ms = None \<rparr>"



text \<open>
  The two passes of the repair, a table from insertion points to dangling calls and a walk that weaves
  the results in, compute what one left-to-right pass would that holds the calls of the last message that
  was not a tool result and flushes them before the next one. A history with nothing dangling comes back as it is.\<close>

theorem repair_is_one_pass:
  "repair_dangling ms answering now = repair_rec (set (answered_ids ms) \<union> answering) now [] ms \<and>
   ((\<forall>m\<in>set ms. dangling_of (set (answered_ids ms) \<union> answering) m = []) \<longrightarrow> repair_dangling ms answering now = ms)"
  using repair_rec_clean [of ms "set (answered_ids ms) \<union> answering" now] by (simp add: repair_dangling_rec)

theorem repair_is_one_pass_witness:
  "repair_dangling [message_user ''u'' ''hi'' 1] {} 2 = [message_user ''u'' ''hi'' 1]"
proof -
  have "dangling_of A (message_user ''u'' ''hi'' 1) = []" for A
    by (simp add: dangling_of_def message_user_def)
  then show ?thesis using repair_is_one_pass [of "[message_user ''u'' ''hi'' 1]" "{}" 2] by simp
qed

end
