(* ===== verification/Core_Agent.thy ===== *)
theory Core_Agent
  imports Core_Compaction Repair
begin

text \<open>
  The tool loop (\<^verbatim>\<open>crates/agentcore/src/agent.rs\<close>). One iteration is \<open>iteration\<close>; \<open>run_loop\<close> repeats it,
  structurally on the iterations that remain, so the loop ends whatever the provider does. The calls
  of one batch run concurrently: \<open>en_schedule\<close> lists, in order, which call makes its next move, and a
  schedule that runs dry before every call is done is a batch abandoned to the cancel token. Artifact
  bytes travel beside the history and are left out.
\<close>

section \<open>Reading a message\<close>

definition part_artifact_ids :: "content_part \<Rightarrow> string list" where
  "part_artifact_ids p = (case p of
     PArtifact a \<Rightarrow> [af_id a]
   | PToolResult r \<Rightarrow> map af_id (tr_artifacts r)
   | _ \<Rightarrow> [])"

definition artifact_ids :: "message list \<Rightarrow> string list" where
  "artifact_ids ms = rev (remdups (rev (concat (map part_artifact_ids (concat (map m_parts ms))))))"

record tool_call =
  ct_id :: string
  ct_name :: string
  ct_input :: json

definition extract_tool_calls :: "content_part list \<Rightarrow> tool_call list" where
  "extract_tool_calls ps = List.map_filter (\<lambda>p. case p of
     PToolCall c \<Rightarrow> Some \<lparr> ct_id = tc_id c, ct_name = tc_name c, ct_input = tc_input c \<rparr> | _ \<Rightarrow> None) ps"

definition tool_fingerprint :: "(json \<Rightarrow> string) \<Rightarrow> tool_call list \<Rightarrow> string" where
  "tool_fingerprint sj calls = join ''|'' (map (\<lambda>c. ct_name c @ '':'' @ sj (ct_input c)) calls)"

definition sum_optional :: "u32 option \<Rightarrow> u32 option \<Rightarrow> u32 option" where
  "sum_optional a b =
     (if a = None \<and> b = None then None else Some (opt_or_zero a + opt_or_zero b))"

definition bank :: "usage \<Rightarrow> usage \<Rightarrow> usage" where
  "bank spent u = \<lparr>
     u_input_tokens = u_input_tokens spent + u_input_tokens u,
     u_output_tokens = u_output_tokens spent + u_output_tokens u,
     u_cache_creation_tokens = sum_optional (u_cache_creation_tokens spent) (u_cache_creation_tokens u),
     u_cache_read_tokens = sum_optional (u_cache_read_tokens spent) (u_cache_read_tokens u) \<rparr>"

section \<open>One batch of tool calls\<close>

record stopped_call =
  sc_tool :: string
  sc_call_id :: string
  sc_input :: json

datatype dispatched = DResult message | DStopped stopped_call

datatype call_state = CNew | CRunning u64 | CDone "agent_error + dispatched"

definition tool_text :: "(json \<Rightarrow> string) \<Rightarrow> json \<Rightarrow> string" where
  "tool_text sj v = (case v of JString s \<Rightarrow> s | _ \<Rightarrow> sj v)"

text \<open>A call's second move: execute, bound the output, journal the result.\<close>

definition complete_call :: "run_env \<Rightarrow> tool_call \<Rightarrow> u64 \<Rightarrow> dispatched run" where
  "complete_call env call started =
     bind_run (ask_env (\<lambda>n. en_execute env n (ct_name call) (ct_input call) (ct_id call))) (\<lambda>r.
     case r of
       Inr StopRun \<Rightarrow> ret (DStopped \<lparr> sc_tool = ct_name call, sc_call_id = ct_id call,
         sc_input = ct_input call \<rparr>)
     | _ \<Rightarrow>
       (let (output, is_error, arts, reported, spilled) = (case r of
              Inr (ToolResult v) \<Rightarrow> (tool_text (en_show_json env) (tlv_value v), False, tlv_artifacts v,
                tlv_original_output_bytes v, tlv_spilled_output_bytes v)
            | Inl e \<Rightarrow> (tool_call_error_display e, True, [], 0, 0)
            | Inr StopRun \<Rightarrow> ([], False, [], 0, 0));
            bounded = bound_tool_output output;
            original = max reported (of_nat (bo_original_bytes bounded));
            truncated = sat_sub original (of_nat (bo_retained_bytes bounded))
        in bind_run (ask_env (en_now env)) (\<lambda>finished.
           bind_run (emit env (EvToolComplete \<lparr> tco_call_id = ct_id call, tco_output = bo_output bounded,
               tco_is_error = is_error, tco_artifacts = arts, tco_original_output_bytes = original,
               tco_truncated_output_bytes = truncated, tco_spilled_output_bytes = spilled,
               tco_started_at_ms = started, tco_at_ms = finished \<rparr>)) (\<lambda>_.
           ret (DResult (message_tool_result (ct_id call) (bo_output bounded) is_error arts finished))))))"

definition capture :: "'a run \<Rightarrow> (agent_error + 'a) run" where
  "capture m = (\<lambda>c. case m c of (r, c') \<Rightarrow> (Inr r, c'))"

definition call_move :: "run_env \<Rightarrow> tool_call \<Rightarrow> call_state \<Rightarrow> call_state run" where
  "call_move env call st = (case st of
     CDone d \<Rightarrow> ret (CDone d)
   | CNew \<Rightarrow>
       bind_run (capture (emit env (EvToolExecuting (result_id (ct_id call)) (ct_id call)))) (\<lambda>r.
       case r of
         Inl e \<Rightarrow> ret (CDone (Inl e))
       | Inr _ \<Rightarrow> bind_run (ask_env (en_now env)) (\<lambda>started. ret (CRunning started)))
   | CRunning started \<Rightarrow>
       bind_run (capture (complete_call env call started)) (\<lambda>r. ret (CDone r)))"

fun run_schedule ::
    "run_env \<Rightarrow> tool_call list \<Rightarrow> nat list \<Rightarrow> call_state list \<Rightarrow> call_state list run" where
  "run_schedule env calls [] sts = ret sts"
| "run_schedule env calls (i # is) sts =
     (if i < length calls then
        bind_run (call_move env (calls ! i) (sts ! i)) (\<lambda>st. run_schedule env calls is (sts[i := st]))
      else run_schedule env calls is sts)"

fun call_result :: "call_state \<Rightarrow> (agent_error + dispatched) option" where
  "call_result (CDone d) = Some d"
| "call_result _ = None"

fun collect :: "(agent_error + dispatched) list \<Rightarrow> (message list \<times> stopped_call list) run" where
  "collect [] = ret ([], [])"
| "collect (Inl e # ds) = fail e"
| "collect (Inr d # ds) = bind_run (collect ds) (\<lambda>(ms, ss).
     ret (case d of DResult m \<Rightarrow> (m # ms, ss) | DStopped s \<Rightarrow> (ms, s # ss)))"

definition execute_tool_calls ::
    "run_env \<Rightarrow> tool_call list \<Rightarrow> (message list \<times> stopped_call list) run" where
  "execute_tool_calls env calls =
     (if calls = [] then ret ([], [])
      else bind_run (ask_env (en_schedule env)) (\<lambda>sched.
        bind_run (run_schedule env calls sched (map (\<lambda>_. CNew) calls)) (\<lambda>sts.
          if list_ex (\<lambda>st. call_result st = None) sts then fail Cancelled
          else collect (List.map_filter call_result sts))))"

section \<open>One iteration\<close>

datatype agent_result = Completed string | Stopped "stopped_call list"

datatype iteration_result = Again "string list" | Finished agent_result

definition NUDGE_TEXT :: string where
  "NUDGE_TEXT = ''You have called this tool with identical arguments multiple times. Please try a different approach.''"

definition nudge_message :: "u64 \<Rightarrow> tool_call \<Rightarrow> message" where
  "nudge_message now call = \<lparr> m_id = ''nudge:'' @ ct_id call, m_role = RTool,
     m_parts = [PToolResult \<lparr> tr_call_id = ct_id call, tr_output = NUDGE_TEXT, tr_is_error = False,
       tr_artifacts = [] \<rparr>],
     m_created_at_ms = now, m_started_at_ms = None \<rparr>"

text \<open>The window of recent fingerprints after this batch, bounded by the stuck threshold.\<close>

definition push_fingerprint :: "nat \<Rightarrow> string list \<Rightarrow> string \<Rightarrow> string list" where
  "push_fingerprint bound fps fp =
     (let fps' = fps @ [fp] in if length fps' > bound then tl fps' else fps')"

definition call_provider :: "run_env \<Rightarrow> string \<Rightarrow> completion_response run" where
  "call_provider env msg_id =
     bind_run (read_core ca_history) (\<lambda>history.
     bind_run (modify_core (\<lambda>c. c\<lparr> ca_requests := ca_requests c @ [history] \<rparr>)) (\<lambda>_.
     bind_run (ask_env (\<lambda>n. en_complete env n history)) (\<lambda>reply.
     case reply of
       PrCancelled \<Rightarrow> fail Cancelled
     | PrReply chunks r \<Rightarrow>
         bind_run (modify_core (\<lambda>c. c\<lparr> ca_trace := ca_trace c
           @ map (\<lambda>t. (EvTextChunk msg_id t, True)) chunks \<rparr>)) (\<lambda>_.
         case r of Inl e \<Rightarrow> fail (ProviderError e) | Inr resp \<Rightarrow> ret resp))))"

definition bank_response :: "completion_response \<Rightarrow> core \<Rightarrow> core" where
  "bank_response resp c = c\<lparr> ca_spent := \<lparr> sp_usage = bank (sp_usage (ca_spent c)) (cr_usage resp),
       sp_context_tokens = u_input_tokens (cr_usage resp) \<rparr>,
     ca_last_context_tokens := u_input_tokens (cr_usage resp) \<rparr>"

definition finish_run :: "run_env \<Rightarrow> nat \<Rightarrow> agent_result \<Rightarrow> iteration_result run" where
  "finish_run env n res =
     bind_run (read_core ca_spent) (\<lambda>spent.
     bind_run (ask_env (en_now env)) (\<lambda>now.
     bind_run (emit env (EvRunComplete (sp_usage spent) (of_nat n) (sp_context_tokens spent) now)) (\<lambda>_.
     ret (Finished res))))"

definition push_all :: "message list \<Rightarrow> unit run" where
  "push_all ms = modify_core (\<lambda>c. c\<lparr> ca_history := ca_history c @ ms \<rparr>)"

definition handle_calls ::
    "run_env \<Rightarrow> agent_config \<Rightarrow> nat \<Rightarrow> string list \<Rightarrow> tool_call list \<Rightarrow> iteration_result run" where
  "handle_calls env cfg n fps calls =
     (let fp = tool_fingerprint (en_show_json env) calls;
          fps' = push_fingerprint (cfg_stuck_threshold cfg) fps fp;
          same = list_all (\<lambda>f. f = fp) fps'
      in if length fps' \<ge> cfg_stuck_threshold cfg \<and> same
         then fail (StuckInLoop (ct_name (hd calls)) (cfg_stuck_threshold cfg))
         else if length fps' \<ge> cfg_nudge_threshold cfg \<and> same
         then bind_run (ask_env (en_now env)) (\<lambda>now.
                bind_run (push_all (map (nudge_message now) calls)) (\<lambda>_. ret (Again fps')))
         else
           bind_run (check_cancelled env) (\<lambda>_.
           bind_run (execute_tool_calls env calls) (\<lambda>(ms, stopped).
           bind_run (push_all ms) (\<lambda>_.
             if stopped = [] then ret (Again fps') else finish_run env n (Stopped stopped)))))"

definition iteration ::
    "run_env \<Rightarrow> agent_config \<Rightarrow> nat \<Rightarrow> string list \<Rightarrow> iteration_result run" where
  "iteration env cfg n fps =
     bind_run (maybe_compact env cfg) (\<lambda>_.
     bind_run (ask_env (en_fresh env)) (\<lambda>msg_id.
     bind_run (emit env (EvMessageStart msg_id)) (\<lambda>_.
     bind_run (ask_env (en_now env)) (\<lambda>started.
     bind_run (call_provider env msg_id) (\<lambda>resp.
     bind_run (emit env (EvMessageStop msg_id)) (\<lambda>_.
     bind_run (modify_core (bank_response resp)) (\<lambda>_.
     bind_run (ask_env (en_now env)) (\<lambda>now.
       let msg = \<lparr> m_id = msg_id, m_role = RAssistant, m_parts = cr_parts resp,
                   m_created_at_ms = now, m_started_at_ms = Some started \<rparr>;
           calls = extract_tool_calls (cr_parts resp)
       in bind_run (emit env (EvMessageComplete msg_id msg)) (\<lambda>_.
          bind_run (push_history msg) (\<lambda>_.
            if cr_stop_reason resp = MaxTokens \<and> calls = [] then fail (Truncated (cfg_max_tokens cfg))
            else if calls = [] then finish_run env n (Completed (extract_text (cr_parts resp)))
            else handle_calls env cfg n fps calls))))))))))"

section \<open>The run\<close>

fun run_loop :: "run_env \<Rightarrow> agent_config \<Rightarrow> nat \<Rightarrow> nat \<Rightarrow> string list \<Rightarrow> agent_result run" where
  "run_loop env cfg 0 n fps =
     bind_run (check_cancelled env) (\<lambda>_. fail (MaxIterationsExceeded (cfg_max_iterations cfg)))"
| "run_loop env cfg (Suc k) n fps =
     bind_run (check_cancelled env) (\<lambda>_.
     bind_run (iteration env cfg (Suc n) fps) (\<lambda>r.
     case r of Again fps' \<Rightarrow> run_loop env cfg k (Suc n) fps' | Finished res \<Rightarrow> ret res))"

definition run_inner :: "run_env \<Rightarrow> agent_config \<Rightarrow> agent_input \<Rightarrow> agent_result run" where
  "run_inner env cfg input =
     bind_run (ask_env (en_now env)) (\<lambda>now.
     bind_run (emit env (EvInputMessage (message_id input) input)) (\<lambda>_.
     bind_run (push_history (to_message input now)) (\<lambda>_.
     run_loop env cfg (cfg_max_iterations cfg) 0 [])))"

text \<open>\<open>Agent::run\<close>: whatever the loop returns, a run that failed reports what it had spent.\<close>

definition agent_run :: "run_env \<Rightarrow> agent_config \<Rightarrow> agent_input \<Rightarrow> agent_result run" where
  "agent_run env cfg input = (\<lambda>c.
     case run_inner env cfg input (c\<lparr> ca_spent := run_accounting_new \<rparr>) of
       (Inr res, c') \<Rightarrow> (Inr res, c')
     | (Inl e, c') \<Rightarrow>
         (Inl e, snd (bind_run (ask_env (en_now env)) (\<lambda>now.
            emit env (EvRunAborted (sp_usage (ca_spent c')) (sp_context_tokens (ca_spent c')) now)) c')))"

section \<open>Primitive steps\<close>

named_theorems run_defs \<open>the primitive steps of a run\<close>

lemmas primitive_defs [run_defs] = ret_def fail_def read_core_def modify_core_def ask_env_def emit_def
  push_history_def push_all_def Let_def

lemma emit_InrD:
  "emit env ev c = (Inr x, c') \<Longrightarrow> ca_trace c' = ca_trace c @ [(ev, True)] \<and> ca_history c' = ca_history c
     \<and> ca_requests c' = ca_requests c \<and> ca_spent c' = ca_spent c"
  by (auto simp: emit_def Let_def split: option.splits)

text \<open>Steps that make no provider call.\<close>

interpretation same_requests: run_relation "\<lambda>a b. ca_requests b = ca_requests a"
  by unfold_locales simp_all

text \<open>Steps that do not end the run.\<close>

definition is_end_event :: "core_event \<Rightarrow> bool" where
  "is_end_event ev = (case ev of EvRunComplete u n ct now \<Rightarrow> True | EvRunAborted u ct now \<Rightarrow> True | _ \<Rightarrow> False)"

definition no_end :: "core \<Rightarrow> core \<Rightarrow> bool" where
  "no_end a b \<longleftrightarrow> (\<exists>new. ca_trace b = ca_trace a @ new \<and> list_all (\<lambda>e. \<not> is_end_event (fst e)) new)"

interpretation no_end: run_relation no_end
proof
  show "no_end c c" for c by (auto simp: no_end_def)
  show "no_end a c" if "no_end a b" "no_end b c" for a b c
    using that by (fastforce simp: no_end_def)
qed

text \<open>Both relations hold of every step below the loop; each is proved once per primitive.\<close>

definition quiet :: "'a run \<Rightarrow> bool" where
  "quiet m \<longleftrightarrow> preserves (\<lambda>a b. ca_requests b = ca_requests a) m \<and> preserves no_end m"

lemma quiet_ret [simp]: "quiet (ret x)" "quiet (fail e)" "quiet (read_core f)"
  by (simp_all add: quiet_def same_requests.preserves_ret no_end.preserves_ret
      same_requests.preserves_fail no_end.preserves_fail same_requests.preserves_read
      no_end.preserves_read)

lemma quiet_bind: "quiet m \<Longrightarrow> (\<And>x. quiet (f x)) \<Longrightarrow> quiet (bind_run m f)"
  by (simp add: quiet_def same_requests.preserves_bind no_end.preserves_bind)

lemma quiet_ask [simp]: "quiet (ask_env f)"
  by (auto simp: quiet_def preserves_def ask_env_def no_end_def)

lemma quiet_emit: "\<not> is_end_event ev \<Longrightarrow> quiet (emit env ev)"
  by (auto simp: quiet_def preserves_def emit_def no_end_def Let_def split: option.splits)

lemma quiet_push [simp]: "quiet (push_all ms)" "quiet (push_history m)"
  by (auto simp: quiet_def preserves_def push_all_def push_history_def modify_core_def no_end_def)

lemma quiet_capture: "quiet m \<Longrightarrow> quiet (capture m)"
  by (auto simp: quiet_def preserves_def capture_def case_prod_beta)

lemma quiet_swallow: "quiet m \<Longrightarrow> quiet (swallow m)"
  by (auto simp: quiet_def preserves_def swallow_def)

lemma quiet_check_cancelled [simp]: "quiet (check_cancelled env)"
  by (auto simp: check_cancelled_def intro!: quiet_bind)

lemma quiet_complete_call: "quiet (complete_call env call started)"
  unfolding complete_call_def
  by (intro quiet_bind quiet_ask)
    (auto simp: Let_def is_end_event_def split: sum.splits tool_outcome.splits prod.splits
      intro!: quiet_bind quiet_emit)

lemma quiet_call_move: "quiet (call_move env call st)"
  unfolding call_move_def
  by (cases st)
    (auto simp: is_end_event_def split: sum.splits
      intro!: quiet_bind quiet_capture quiet_emit quiet_complete_call)

lemma quiet_run_schedule: "quiet (run_schedule env calls sched sts)"
  by (induction env calls sched sts rule: run_schedule.induct)
    (auto intro!: quiet_bind quiet_call_move)

lemma quiet_collect: "quiet (collect ds)"
  by (induction ds rule: collect.induct) (auto intro!: quiet_bind)

lemma quiet_execute_tool_calls: "quiet (execute_tool_calls env calls)"
  unfolding execute_tool_calls_def
  by (auto intro!: quiet_bind quiet_run_schedule quiet_collect)

lemma quiet_report: "quiet (report_nothing_to_fold env cfg trigger)"
  unfolding report_nothing_to_fold_def
  by (cases trigger) (auto simp: is_end_event_def intro!: quiet_bind quiet_emit)

lemma quiet_summarise_cut: "quiet (summarise_cut env k ins)"
  unfolding summarise_cut_def by (auto intro!: quiet_bind split: sum.splits)

lemma quiet_modify:
  "(\<And>c. ca_requests (f c) = ca_requests c) \<Longrightarrow> (\<And>c. ca_trace (f c) = ca_trace c) \<Longrightarrow>
     quiet (modify_core f)"
  by (auto simp: quiet_def preserves_def modify_core_def no_end_def)

lemma quiet_compact: "quiet (compact env cfg ins trigger)"
  unfolding compact_def compact_at_def
  by (auto simp: Let_def is_end_event_def split: option.splits
      intro!: quiet_bind quiet_report quiet_summarise_cut quiet_modify quiet_emit)

lemma quiet_maybe_compact: "quiet (maybe_compact env cfg)"
  unfolding maybe_compact_def
  by (auto split: option.splits intro!: quiet_bind quiet_swallow quiet_compact)

section \<open>How many calls a run makes, and how it ends\<close>

definition within :: "nat \<Rightarrow> 'a run \<Rightarrow> bool" where
  "within k m \<longleftrightarrow> (\<forall>c. length (ca_requests (snd (m c))) \<le> length (ca_requests c) + k)"

lemma within_bind:
  assumes "within k m" "\<And>x. within l (f x)"
  shows "within (k + l) (bind_run m f)"
  unfolding within_def
proof
  fix c
  obtain r c' where m: "m c = (r, c')" by fastforce
  with assms(1) have "length (ca_requests c') \<le> length (ca_requests c) + k"
    by (metis within_def snd_conv)
  moreover have "length (ca_requests (snd (f x c'))) \<le> length (ca_requests c') + l" for x
    using assms(2) by (simp add: within_def)
  ultimately show "length (ca_requests (snd (bind_run m f c))) \<le> length (ca_requests c) + (k + l)"
    using m by (cases r) (auto simp: bind_run_def intro: le_trans [where j = "length (ca_requests c') + l"])
qed

lemma within_quiet: "quiet m \<Longrightarrow> within k m"
  by (simp add: quiet_def within_def preserves_def)

lemma within_ret [simp]: "within k (ret x)" "within k (fail e)"
  by (simp_all add: within_quiet)

lemma within_bind_quiet: "quiet m \<Longrightarrow> (\<And>x. within k (f x)) \<Longrightarrow> within k (bind_run m f)"
  using within_bind [of 0 m k f] by (simp add: within_quiet)

lemma quiet_bank [simp]: "quiet (modify_core (bank_response resp))"
  by (rule quiet_modify) (simp_all add: bank_response_def)

lemma call_provider_requests:
  "ca_requests (snd (call_provider env i c)) = ca_requests c @ [ca_history c]"
  by (simp add: call_provider_def bind_run_def run_defs split: provider_reply.splits sum.splits)

lemma within_call_provider: "within 1 (call_provider env i)"
  by (simp add: within_def call_provider_requests)

lemma same_requests_finish_run: "within k (finish_run env n res)"
  unfolding finish_run_def
  by (auto simp: within_def bind_run_def run_defs split: option.splits)

lemma within_handle_calls: "within k (handle_calls env cfg n fps calls)"
  unfolding handle_calls_def Let_def
  by (auto split: prod.splits intro!: within_bind_quiet quiet_execute_tool_calls
      same_requests_finish_run)

lemma within_bind_provider:
  "(\<And>x. within 0 (f x)) \<Longrightarrow> within 1 (bind_run (call_provider env i) f)"
  using within_bind [OF within_call_provider, of 0 f env i] by simp

lemma within_iteration: "within 1 (iteration env cfg n fps)"
  unfolding iteration_def
  by (intro within_bind_quiet [OF quiet_maybe_compact] within_bind_quiet [OF quiet_ask]
      within_bind_quiet [OF quiet_emit] within_bind_provider)
    (auto simp: is_end_event_def Let_def intro!: within_bind_quiet quiet_emit within_handle_calls
      same_requests_finish_run)

lemma within_run_loop: "within k (run_loop env cfg k n fps)"
proof (induction k arbitrary: n fps)
  case 0
  then show ?case by (auto intro!: within_bind_quiet)
next
  case (Suc k)
  have "within (1 + k) (bind_run (iteration env cfg (Suc n) fps) (\<lambda>r.
     case r of Again fps' \<Rightarrow> run_loop env cfg k (Suc n) fps' | Finished res \<Rightarrow> ret res))"
    by (rule within_bind [OF within_iteration])
      (auto split: iteration_result.splits intro: Suc.IH)
  then show ?case by (auto intro!: within_bind_quiet)
qed

text \<open>The end events the sink accepted. A step is silent when it adds none.\<close>

definition ends :: "core \<Rightarrow> (core_event \<times> bool) list" where
  "ends c = filter (\<lambda>(e, ok). ok \<and> is_end_event e) (ca_trace c)"

definition silent :: "'a run \<Rightarrow> bool" where
  "silent m \<longleftrightarrow> (\<forall>c. ends (snd (m c)) = ends c)"

definition ended ::
    "('a \<Rightarrow> bool) \<Rightarrow> (core_event \<times> bool) list \<Rightarrow> (agent_error + 'a) \<times> core \<Rightarrow> bool" where
  "ended fin before p = (case p of
     (Inl e, c') \<Rightarrow> ends c' = before
   | (Inr x, c') \<Rightarrow>
       if fin x then \<exists>n now. ends c' = before @ [(EvRunComplete (sp_usage (ca_spent c')) n
           (sp_context_tokens (ca_spent c')) now, True)]
       else ends c' = before)"

definition ends_when :: "('a \<Rightarrow> bool) \<Rightarrow> 'a run \<Rightarrow> bool" where
  "ends_when fin m \<longleftrightarrow> (\<forall>c. ended fin (ends c) (m c))"

lemma silent_quiet:
  assumes "quiet m"
  shows "silent m"
  unfolding silent_def
proof
  fix c
  from assms obtain new where "ca_trace (snd (m c)) = ca_trace c @ new"
    and "list_all (\<lambda>e. \<not> is_end_event (fst e)) new"
    by (auto simp: quiet_def preserves_def no_end_def)
  then show "ends (snd (m c)) = ends c"
    by (auto simp: ends_def list_all_iff filter_empty_conv)
qed

lemma silent_call_provider: "silent (call_provider env i)"
  by (simp add: silent_def ends_def call_provider_def bind_run_def run_defs filter_empty_conv
      is_end_event_def split: provider_reply.splits sum.splits)

lemma ends_when_bind:
  assumes "silent m" "\<And>x. ends_when fin (f x)"
  shows "ends_when fin (bind_run m f)"
  unfolding ends_when_def
proof
  fix c
  obtain r c' where m: "m c = (r, c')" by fastforce
  with assms(1) have "ends c' = ends c" by (metis silent_def snd_conv)
  moreover have "ended fin (ends c') (f x c')" for x using assms(2) by (simp add: ends_when_def)
  ultimately show "ended fin (ends c) (bind_run m f c)"
    using m by (cases r) (simp_all add: bind_run_def ended_def)
qed

lemma ends_when_ret: "\<not> fin x \<Longrightarrow> ends_when fin (ret x)" "ends_when fin (fail e)"
  by (simp_all add: ends_when_def ended_def ret_def fail_def)

definition is_finished :: "iteration_result \<Rightarrow> bool" where
  "is_finished r = (case r of Again fps \<Rightarrow> False | Finished res \<Rightarrow> True)"

lemma ends_finish_run: "ends_when is_finished (finish_run env n res)"
  by (auto simp: ends_when_def ended_def finish_run_def bind_run_def run_defs ends_def is_end_event_def
      is_finished_def split: option.splits)

lemma ends_handle_calls: "ends_when is_finished (handle_calls env cfg n fps calls)"
  unfolding handle_calls_def Let_def
  by (auto simp: is_finished_def split: prod.splits
      intro!: ends_when_bind silent_quiet quiet_execute_tool_calls ends_when_ret ends_finish_run)

lemma ends_iteration: "ends_when is_finished (iteration env cfg n fps)"
  unfolding iteration_def
  by (intro ends_when_bind silent_quiet [OF quiet_maybe_compact] silent_quiet [OF quiet_ask]
      silent_quiet [OF quiet_emit] silent_call_provider silent_quiet [OF quiet_bank])
    (auto simp: is_end_event_def Let_def
      intro!: ends_when_bind silent_quiet quiet_emit ends_finish_run ends_handle_calls ends_when_ret)

lemma ends_run_loop: "ends_when (\<lambda>_. True) (run_loop env cfg k n fps)"
proof (induction k arbitrary: n fps)
  case 0
  then show ?case by (auto intro!: ends_when_bind silent_quiet ends_when_ret)
next
  case (Suc k)
  have "ends_when (\<lambda>_. True) (bind_run (iteration env cfg (Suc n) fps) (\<lambda>r.
     case r of Again fps' \<Rightarrow> run_loop env cfg k (Suc n) fps' | Finished res \<Rightarrow> ret res))"
    unfolding ends_when_def
  proof
    fix c
    obtain r c' where it: "iteration env cfg (Suc n) fps c = (r, c')" by fastforce
    have step: "ended is_finished (ends c) (r, c')"
      using ends_iteration [of env cfg "Suc n" fps] it by (metis ends_when_def)
    have loop: "ended (\<lambda>_. True) (ends c') (run_loop env cfg k (Suc n) fps' c')" for fps'
      using Suc.IH by (simp add: ends_when_def)
    show "ended (\<lambda>_. True) (ends c) (bind_run (iteration env cfg (Suc n) fps) (\<lambda>r.
       case r of Again fps' \<Rightarrow> run_loop env cfg k (Suc n) fps' | Finished res \<Rightarrow> ret res) c)"
    proof (cases "\<exists>fps'. r = Inr (Again fps')")
      case True
      then obtain fps' where r: "r = Inr (Again fps')" by blast
      with step have "ends c' = ends c" by (simp add: ended_def is_finished_def)
      with loop [of fps'] it r show ?thesis by (simp add: bind_run_def)
    next
      case False
      with step it show ?thesis
        by (cases r) (auto simp: bind_run_def ret_def is_finished_def ended_def
            split: iteration_result.splits)
    qed
  qed
  then show ?case by (auto intro!: ends_when_bind silent_quiet)
qed

lemma ends_run_inner: "ends_when (\<lambda>_. True) (run_inner env cfg input)"
  unfolding run_inner_def
  by (intro ends_when_bind silent_quiet [OF quiet_ask] silent_quiet [OF quiet_emit] ends_run_loop
      silent_quiet [OF quiet_push(2)])
    (simp add: is_end_event_def)

section \<open>Every request is answered\<close>

text \<open>
  A history is closed when every call of an assistant message has a result behind it. A provider
  rejects one that is not.
\<close>

fun closed :: "message list \<Rightarrow> bool" where
  "closed [] = True"
| "closed (m # ms) =
     ((m_role m = RAssistant \<longrightarrow> set (message_calls m) \<subseteq> set (answered_ids ms)) \<and> closed ms)"

lemma closed_append: "closed xs \<Longrightarrow> closed ys \<Longrightarrow> closed (xs @ ys)"
  by (induction xs) auto

lemma closed_drop: "closed h \<Longrightarrow> closed (drop k h)"
  by (induction h arbitrary: k) (auto simp: drop_Cons split: nat.splits)

lemma closed_not_assistant: "\<forall>m\<in>set ms. m_role m \<noteq> RAssistant \<Longrightarrow> closed ms"
  by (induction ms) auto

lemma closed_batch:
  assumes "closed h" "set (message_calls m) \<subseteq> set (answered_ids ms)"
    and "\<forall>m\<in>set ms. m_role m \<noteq> RAssistant"
  shows "closed (h @ m # ms)"
  using assms by (intro closed_append) (auto intro: closed_not_assistant)

lemma closed_rewritten: "closed h \<Longrightarrow> closed (rewritten_history h k summary carried now)"
  by (simp add: rewritten_history_def message_user_def closed_drop)

text \<open>Steps that touch neither the history nor the list of requests.\<close>

definition framed :: "'a run \<Rightarrow> bool" where
  "framed m \<longleftrightarrow> (\<forall>c. ca_history (snd (m c)) = ca_history c \<and> ca_requests (snd (m c)) = ca_requests c)"

lemma framed_simps [simp]:
  "framed (ret x)" "framed (fail e)" "framed (read_core f)" "framed (ask_env g)" "framed (emit env ev)"
  "framed (modify_core (bank_response resp))"
  by (auto simp: framed_def run_defs bank_response_def split: option.splits)

lemma framed_bind: "framed m \<Longrightarrow> (\<And>x. framed (f x)) \<Longrightarrow> framed (bind_run m f)"
  unfolding framed_def
  by (auto simp: bind_run_def split: prod.splits sum.splits) (metis snd_conv)+

lemma framed_capture: "framed m \<Longrightarrow> framed (capture m)"
  by (auto simp: framed_def capture_def case_prod_beta)

lemma framed_check_cancelled [simp]: "framed (check_cancelled env)"
  by (auto simp: check_cancelled_def intro!: framed_bind)

lemma framed_finish_run [simp]: "framed (finish_run env n res)"
  unfolding finish_run_def by (auto intro!: framed_bind)

lemma framed_call_move: "framed (call_move env call st)"
  unfolding call_move_def complete_call_def
  by (cases st)
    (auto simp: Let_def split: sum.splits tool_outcome.splits prod.splits intro!: framed_bind framed_capture)

lemma framed_execute_tool_calls: "framed (execute_tool_calls env calls)"
proof -
  have "framed (run_schedule env calls sched sts)" for sched sts
    by (induction env calls sched sts rule: run_schedule.induct)
      (auto intro!: framed_bind framed_call_move)
  moreover have "framed (collect ds)" for ds
    by (induction ds rule: collect.induct) (auto intro!: framed_bind)
  ultimately show ?thesis unfolding execute_tool_calls_def by (auto intro!: framed_bind)
qed

lemma compact_history:
  "ca_history (snd (compact env cfg ins trigger c)) = ca_history c \<or>
     (\<exists>k summary carried now. ca_history (snd (compact env cfg ins trigger c)) =
        rewritten_history (ca_history c) k summary carried now)"
proof -
  have rep: "ca_history (snd (report_nothing_to_fold env cfg trigger c)) = ca_history c"
    by (cases trigger) (simp_all add: report_nothing_to_fold_def bind_run_def run_defs split: option.splits)
  have at: "ca_history (snd (compact_at env pol k ins trigger c)) = ca_history c \<or>
     (\<exists>summary carried now. ca_history (snd (compact_at env pol k ins trigger c)) =
        rewritten_history (ca_history c) k summary carried now)" for pol k
    unfolding compact_at_def summarise_cut_def
    by (auto simp: bind_run_def run_defs split: option.splits sum.splits)
  show ?thesis
  proof (cases "en_policy env")
    case None
    with rep show ?thesis by (simp add: compact_def)
  next
    case (Some pol)
    define k where "k = choose_cut (en_show_json env) (ca_history c)
      (case cfg_compaction cfg of None \<Rightarrow> 0 | Some b \<Rightarrow> retain_tokens b)"
    have "compact env cfg ins trigger c =
      (if k = 0 then report_nothing_to_fold env cfg trigger c else compact_at env pol k ins trigger c)"
      using Some by (simp add: compact_def bind_run_def read_core_def Let_def k_def)
    with rep at [of pol k] show ?thesis by auto
  qed
qed

lemma maybe_compact_closed:
  "closed (ca_history c) \<Longrightarrow> closed (ca_history (snd (maybe_compact env cfg c)))"
proof -
  assume "closed (ca_history c)"
  then have "closed (ca_history (snd (compact env cfg None TrigAuto c)))"
    using compact_history [of env cfg None TrigAuto c] by (auto simp: closed_rewritten)
  with \<open>closed (ca_history c)\<close> show ?thesis
    by (auto simp: maybe_compact_def bind_run_def run_defs swallow_def split: option.splits)
qed

section \<open>What a batch produces\<close>

definition state_results :: "call_state \<Rightarrow> message list" where
  "state_results st = (case st of CDone (Inr (DResult m)) \<Rightarrow> [m] | _ \<Rightarrow> [])"

definition result_of :: "tool_call \<Rightarrow> message \<Rightarrow> bool" where
  "result_of call m \<longleftrightarrow> m_role m = RTool \<and> message_results m = [ct_id call]"

definition batch_ok :: "tool_call list \<Rightarrow> call_state list \<Rightarrow> bool" where
  "batch_ok calls sts \<longleftrightarrow> list_all2 (\<lambda>call st. \<forall>m\<in>set (state_results st). result_of call m) calls sts"

text \<open>The messages the journal rebuilds from the events the sink accepted.\<close>

definition event_message :: "core_event \<Rightarrow> message option" where
  "event_message ev = (case ev of
     EvMessageComplete i m \<Rightarrow> Some m
   | EvToolComplete t \<Rightarrow> Some (message_tool_result (tco_call_id t) (tco_output t) (tco_is_error t)
       (tco_artifacts t) (tco_at_ms t))
   | _ \<Rightarrow> None)"

definition journal_messages :: "core \<Rightarrow> message list" where
  "journal_messages c = List.map_filter (\<lambda>(ev, ok). if ok then event_message ev else None) (ca_trace c)"

lemma result_of_tool_result [simp]:
  "result_of call (message_tool_result (ct_id call) out err arts now)"
  by (simp add: result_of_def) (simp add: message_tool_result_def)

lemma complete_call_InrD:
  assumes "complete_call env call started c = (Inr d, c')"
  shows "(case d of DStopped s \<Rightarrow> journal_messages c' = journal_messages c
    | DResult m \<Rightarrow> result_of call m \<and> journal_messages c' = journal_messages c @ [m])"
  using assms unfolding complete_call_def
  by (auto simp: bind_run_def run_defs journal_messages_def map_filter_simps event_message_def
      split: sum.splits tool_outcome.splits option.splits if_splits)

lemma complete_call_InlD:
  "complete_call env call started c = (Inl e, c') \<Longrightarrow> journal_messages c' = journal_messages c"
  unfolding complete_call_def
  by (auto simp: bind_run_def run_defs journal_messages_def map_filter_simps
      split: sum.splits tool_outcome.splits option.splits if_splits)

lemma emit_journal:
  "journal_messages (snd (emit env ev c)) = journal_messages c @
     (if en_emit env (ca_tick c) ev = None then (case event_message ev of Some m \<Rightarrow> [m] | None \<Rightarrow> []) else [])"
  by (auto simp: emit_def Let_def journal_messages_def map_filter_simps split: option.splits)

lemma call_move_journal:
  assumes "call_move env call st c = (r, c')" "\<forall>m\<in>set (state_results st). result_of call m"
  obtains st' where "r = Inr st'" "\<forall>m\<in>set (state_results st'). result_of call m"
    and "\<exists>new. journal_messages c' = journal_messages c @ new \<and> state_results st' = state_results st @ new"
proof (cases st)
  case CNew
  with assms that show thesis
    by (auto simp: call_move_def bind_run_def capture_def run_defs state_results_def journal_messages_def
        map_filter_simps event_message_def split: option.splits)
next
  case (CRunning started)
  obtain d c1 where d: "complete_call env call started c = (d, c1)" by fastforce
  with CRunning assms(1) have r: "r = Inr (CDone d)" "c' = c1"
    by (auto simp: call_move_def bind_run_def capture_def ret_def)
  show thesis
  proof (rule that [OF r(1)])
    show "\<forall>m\<in>set (state_results (CDone d)). result_of call m"
      using d complete_call_InrD [of env call started c]
      by (auto simp: state_results_def split: sum.splits dispatched.splits)
    show "\<exists>new. journal_messages c' = journal_messages c @ new \<and> state_results (CDone d) = state_results st @ new"
      using d r CRunning complete_call_InrD [of env call started c] complete_call_InlD [of env call started c]
      by (cases d) (auto simp: state_results_def split: dispatched.splits)
  qed
next
  case (CDone d)
  with assms that show thesis by (auto simp: call_move_def ret_def)
qed

lemma mset_concat_update:
  "i < length xs \<Longrightarrow> mset (concat (map f (xs[i := x]))) + mset (f (xs ! i)) =
     mset (concat (map f xs)) + mset (f x)"
proof (induction xs arbitrary: i)
  case (Cons y ys)
  then show ?case by (cases i) (auto simp: add_ac)
qed simp

lemma run_schedule_journal:
  assumes "batch_ok calls sts" "run_schedule env calls sched sts c = (r, c')"
  obtains sts' where "r = Inr sts'" "batch_ok calls sts'"
    and "mset (journal_messages c') + mset (concat (map state_results sts)) =
         mset (journal_messages c) + mset (concat (map state_results sts'))"
  using assms
proof (induction sched arbitrary: sts c thesis)
  case Nil
  then show ?case by (auto simp: ret_def)
next
  case (Cons i sched)
  have len: "length sts = length calls" using Cons.prems(2) by (simp add: batch_ok_def list_all2_lengthD)
  show ?case
  proof (cases "i < length calls")
    case False
    then have "run_schedule env calls sched sts c = (r, c')" using Cons.prems(3) by simp
    with Cons.prems(2) show ?thesis by (rule Cons.IH [rotated]) (rule Cons.prems(1))
  next
    case True
    have ok: "\<forall>m\<in>set (state_results (sts ! i)). result_of (calls ! i) m"
      using Cons.prems(2) True by (auto simp: batch_ok_def list_all2_conv_all_nth)
    obtain st c1 new where mv: "call_move env (calls ! i) (sts ! i) c = (Inr st, c1)"
      and st: "\<forall>m\<in>set (state_results st). result_of (calls ! i) m"
      and new: "journal_messages c1 = journal_messages c @ new" "state_results st = state_results (sts ! i) @ new"
      using ok by (metis call_move_journal surj_pair)
    have "batch_ok calls (sts[i := st])"
      using Cons.prems(2) st True
      by (auto simp: batch_ok_def list_all2_conv_all_nth nth_list_update)
    moreover have "run_schedule env calls sched (sts[i := st]) c1 = (r, c')"
      using Cons.prems(3) True mv by (simp add: bind_run_def)
    ultimately obtain sts' where "r = Inr sts'" "batch_ok calls sts'"
      and j: "mset (journal_messages c') + mset (concat (map state_results (sts[i := st]))) =
         mset (journal_messages c1) + mset (concat (map state_results sts'))"
      using Cons.IH by blast
    moreover have "mset (concat (map state_results (sts[i := st]))) =
        mset (concat (map state_results sts)) + mset new"
      using mset_concat_update [of i sts state_results st] True len new(2) by simp
    ultimately show ?thesis using Cons.prems(1) new(1) by (simp add: add_ac)
  qed
qed

definition dispatched_messages :: "agent_error + dispatched \<Rightarrow> message list" where
  "dispatched_messages d = (case d of Inr (DResult m) \<Rightarrow> [m] | _ \<Rightarrow> [])"

lemma collect_InrD:
  "collect ds c = (Inr (ms, ss), c') \<Longrightarrow>
     c' = c \<and> ms = concat (map dispatched_messages ds) \<and>
     (ss = [] \<longrightarrow> (\<forall>d\<in>set ds. \<exists>m. d = Inr (DResult m)))"
proof (induction ds arbitrary: ms ss c c' rule: collect.induct)
  case (3 d ds)
  then show ?case
    by (auto simp: bind_run_def ret_def dispatched_messages_def
        split: prod.splits sum.splits dispatched.splits)
qed (simp_all add: ret_def fail_def)

lemma call_result_messages:
  "\<forall>st\<in>set sts. call_result st \<noteq> None \<Longrightarrow>
     concat (map dispatched_messages (List.map_filter call_result sts)) = concat (map state_results sts)"
proof (induction sts)
  case (Cons st sts)
  then show ?case
    by (cases st) (auto simp: map_filter_simps dispatched_messages_def state_results_def
        split: sum.splits)
qed (simp add: map_filter_simps)

lemma results_answer_calls:
  assumes "batch_ok calls sts" "\<forall>st\<in>set sts. \<exists>m. st = CDone (Inr (DResult m))"
  shows "answered_ids (concat (map state_results sts)) = map ct_id calls"
  using assms unfolding batch_ok_def
proof (induction calls sts rule: list_all2_induct)
  case (Cons call calls st sts)
  then show ?case by (auto simp: state_results_def result_of_def)
qed (simp add: answered_ids_def)

lemma batch_roles:
  assumes "batch_ok calls sts" "m \<in> set (concat (map state_results sts))"
  shows "m_role m = RTool"
  using assms unfolding batch_ok_def
  by (induction calls sts rule: list_all2_induct) (auto simp: result_of_def)

lemma execute_tool_calls_InrD:
  assumes "execute_tool_calls env calls c = (Inr (ms, stopped), c')"
  shows "mset (journal_messages c') = mset (journal_messages c) + mset ms" (is ?journal)
    and "stopped = [] \<Longrightarrow> answered_ids ms = map ct_id calls"
    and "\<forall>m\<in>set ms. m_role m = RTool"
proof -
  have "?journal \<and> (stopped = [] \<longrightarrow> answered_ids ms = map ct_id calls) \<and> (\<forall>m\<in>set ms. m_role m = RTool)"
  proof (cases "calls = []")
    case True
    with assms show ?thesis by (simp add: execute_tool_calls_def ret_def)
  next
    case False
    let ?init = "map (\<lambda>_. CNew) calls"
    obtain sched c0 where c0: "ask_env (en_schedule env) c = (Inr sched, c0)" "journal_messages c0 = journal_messages c"
      by (simp add: ask_env_def journal_messages_def)
    have init: "batch_ok calls ?init" "concat (map state_results ?init) = []"
      by (auto simp: batch_ok_def list_all2_conv_all_nth state_results_def)
    obtain r c1 where r: "run_schedule env calls sched ?init c0 = (r, c1)" by fastforce
    obtain sts where sts: "r = Inr sts" "batch_ok calls sts"
      and "mset (journal_messages c1) + mset (concat (map state_results ?init)) =
         mset (journal_messages c0) + mset (concat (map state_results sts))"
      by (rule run_schedule_journal [OF init(1) r])
    then have j: "mset (journal_messages c1) = mset (journal_messages c) + mset (concat (map state_results sts))"
      unfolding init(2) c0(2) by simp
    from assms False c0 r sts(1) have done': "\<forall>st\<in>set sts. call_result st \<noteq> None"
      and col: "collect (List.map_filter call_result sts) c1 = (Inr (ms, stopped), c')"
      by (auto simp: execute_tool_calls_def bind_run_def fail_def list_ex_iff split: if_splits)
    from collect_InrD [OF col] have ms: "c' = c1" "ms = concat (map state_results sts)"
      and stop: "stopped = [] \<Longrightarrow> \<forall>d\<in>set (List.map_filter call_result sts). \<exists>m. d = Inr (DResult m)"
      by (simp_all add: call_result_messages [OF done'])
    have "\<forall>st\<in>set sts. \<exists>m. st = CDone (Inr (DResult m))" if "stopped = []"
    proof
      fix st
      assume "st \<in> set sts"
      with done' obtain d where "call_result st = Some d" by auto
      moreover with \<open>st \<in> set sts\<close> have "d \<in> set (List.map_filter call_result sts)"
        by (auto simp: set_map_filter)
      ultimately show "\<exists>m. st = CDone (Inr (DResult m))" using stop [OF that] by (cases st) auto
    qed
    with ms j results_answer_calls [OF sts(2)] batch_roles [OF sts(2)] show ?thesis by auto
  qed
  then show ?journal "stopped = [] \<Longrightarrow> answered_ids ms = map ct_id calls" "\<forall>m\<in>set ms. m_role m = RTool"
    by blast+
qed

lemma extract_calls_ids: "map ct_id (extract_tool_calls ps) = List.map_filter part_call ps"
  by (induction ps) (auto simp: extract_tool_calls_def map_filter_simps split: content_part.splits)

section \<open>Requests stay closed\<close>

definition triple ::
    "(core \<Rightarrow> bool) \<Rightarrow> 'a run \<Rightarrow> ('a \<Rightarrow> core \<Rightarrow> bool) \<Rightarrow> (core \<Rightarrow> bool) \<Rightarrow> bool" where
  "triple P m Q E \<longleftrightarrow> (\<forall>c. P c \<longrightarrow> (case m c of (Inr x, c') \<Rightarrow> Q x c' | (Inl e, c') \<Rightarrow> E c'))"

lemma tripleI:
  "(\<And>c x c'. P c \<Longrightarrow> m c = (Inr x, c') \<Longrightarrow> Q x c') \<Longrightarrow>
   (\<And>c e c'. P c \<Longrightarrow> m c = (Inl e, c') \<Longrightarrow> E c') \<Longrightarrow> triple P m Q E"
  by (auto simp: triple_def split: prod.splits sum.splits)

lemma tripleD:
  "triple P m Q E \<Longrightarrow> P c \<Longrightarrow> m c = (Inr x, c') \<Longrightarrow> Q x c'"
  "triple P m Q E \<Longrightarrow> P c \<Longrightarrow> m c = (Inl e, c') \<Longrightarrow> E c'"
  by (fastforce simp: triple_def)+

lemma triple_bind:
  assumes "triple P m Q E" "\<And>x. triple (Q x) (f x) R E"
  shows "triple P (bind_run m f) R E"
  unfolding triple_def
proof (intro allI impI)
  fix c
  assume "P c"
  obtain r c' where m: "m c = (r, c')" by fastforce
  show "case bind_run m f c of (Inr x, c') \<Rightarrow> R x c' | (Inl e, c') \<Rightarrow> E c'"
  proof (cases r)
    case (Inl e)
    with assms(1) m \<open>P c\<close> show ?thesis by (fastforce simp: triple_def bind_run_def)
  next
    case (Inr x)
    with assms(1) m \<open>P c\<close> have "Q x c'" by (fastforce simp: triple_def)
    with assms(2) [of x] m Inr show ?thesis by (simp add: triple_def bind_run_def)
  qed
qed

definition reqs_closed :: "core \<Rightarrow> bool" where
  "reqs_closed c \<longleftrightarrow> list_all closed (ca_requests c)"

definition all_closed :: "core \<Rightarrow> bool" where
  "all_closed c \<longleftrightarrow> closed (ca_history c) \<and> reqs_closed c"

definition open_at :: "message \<Rightarrow> core \<Rightarrow> bool" where
  "open_at m c \<longleftrightarrow> (\<exists>h. ca_history c = h @ [m] \<and> closed h) \<and> reqs_closed c"

lemma triple_framed:
  assumes "framed m"
  shows "triple all_closed m (\<lambda>_. all_closed) reqs_closed"
    and "triple (open_at msg) m (\<lambda>_. open_at msg) reqs_closed"
    and "triple reqs_closed m (\<lambda>_. reqs_closed) reqs_closed"
proof -
  have "m c = (r, c') \<Longrightarrow> ca_history c' = ca_history c \<and> ca_requests c' = ca_requests c" for c r c'
    using assms by (metis framed_def snd_conv)
  then show "triple all_closed m (\<lambda>_. all_closed) reqs_closed"
    "triple (open_at msg) m (\<lambda>_. open_at msg) reqs_closed"
    "triple reqs_closed m (\<lambda>_. reqs_closed) reqs_closed"
    by (auto simp: triple_def all_closed_def open_at_def reqs_closed_def split: prod.splits sum.splits)
qed

lemma triple_ret: "(\<And>c. P c \<Longrightarrow> Q x c) \<Longrightarrow> triple P (ret x) Q E"
  "(\<And>c. P c \<Longrightarrow> E c) \<Longrightarrow> triple P (fail e) Q E"
  by (simp_all add: triple_def ret_def fail_def)

lemma triple_weaken:
  "triple P m Q E \<Longrightarrow> (\<And>c. P' c \<Longrightarrow> P c) \<Longrightarrow> (\<And>x c. Q x c \<Longrightarrow> Q' x c) \<Longrightarrow> triple P' m Q' E"
  by (rule tripleI) (auto dest: tripleD)

definition again_closed :: "iteration_result \<Rightarrow> core \<Rightarrow> bool" where
  "again_closed r c \<longleftrightarrow> reqs_closed c \<and> (\<not> is_finished r \<longrightarrow> all_closed c)"

lemma again_closed_simps: "again_closed (Again fps) = all_closed" "again_closed (Finished res) = reqs_closed"
  by (auto simp: again_closed_def is_finished_def all_closed_def)

lemma triple_finish_run: "triple (open_at msg) (finish_run env n res) again_closed reqs_closed"
proof -
  have "finish_run env n res c = (Inr r, c') \<Longrightarrow> is_finished r" for c r c'
    by (auto simp: finish_run_def bind_run_def run_defs is_finished_def split: option.splits)
  with triple_framed(2) [OF framed_finish_run, of msg env n res] show ?thesis
    by (fastforce simp: triple_def again_closed_def open_at_def split: prod.splits sum.splits)
qed

lemma triple_push_all:
  assumes "set (message_calls msg) \<subseteq> set (answered_ids ms)" "\<forall>m\<in>set ms. m_role m \<noteq> RAssistant"
  shows "triple (open_at msg) (push_all ms) (\<lambda>_. all_closed) reqs_closed"
  using assms by (auto simp: triple_def open_at_def run_defs all_closed_def reqs_closed_def closed_batch)

lemma triple_push_any: "triple (open_at msg) (push_all ms) (\<lambda>_. reqs_closed) reqs_closed"
  by (auto simp: triple_def open_at_def run_defs reqs_closed_def)

lemma answered_nudges: "answered_ids (map (nudge_message now) calls) = map ct_id calls"
  by (induction calls) (simp_all add: answered_ids_def nudge_message_def message_results_def map_filter_simps)

lemma triple_execute:
  "triple (open_at msg) (execute_tool_calls env calls)
     (\<lambda>(ms, stopped) c. open_at msg c \<and> (\<forall>m\<in>set ms. m_role m = RTool)
        \<and> (stopped = [] \<longrightarrow> answered_ids ms = map ct_id calls)) reqs_closed"
  using triple_framed(2) [OF framed_execute_tool_calls, of msg env calls]
    execute_tool_calls_InrD [of env calls]
  by (fastforce simp: triple_def split: prod.splits sum.splits)

lemma triple_handle_calls:
  assumes "message_calls msg = map ct_id calls"
  shows "triple (open_at msg) (handle_calls env cfg n fps calls) again_closed reqs_closed"
proof -
  have nudge: "triple (open_at msg) (push_all (map (nudge_message now) calls)) (\<lambda>_. all_closed) reqs_closed" for now
    using assms by (intro triple_push_all) (auto simp: answered_nudges, simp add: nudge_message_def)
  have again: "triple all_closed (ret (Again fps')) again_closed reqs_closed" for fps'
    by (rule triple_ret) (simp add: again_closed_def all_closed_def)
  have tail: "triple (\<lambda>c. open_at msg c \<and> (\<forall>m\<in>set ms. m_role m = RTool)
        \<and> (stopped = [] \<longrightarrow> answered_ids ms = map ct_id calls))
      (bind_run (push_all ms) (\<lambda>_. if stopped = [] then ret (Again fps') else finish_run env n (Stopped stopped)))
      again_closed reqs_closed" for ms stopped fps'
  proof (cases "stopped = []")
    case True
    then show ?thesis
      using assms triple_push_all [of msg ms]
      by (auto simp: triple_def bind_run_def ret_def run_defs again_closed_def all_closed_def)
  next
    case False
    have fin: "finish_run env n res c = (Inr r, c') \<Longrightarrow> is_finished r" for c r c' res
      by (auto simp: finish_run_def bind_run_def run_defs is_finished_def split: option.splits)
    have "triple reqs_closed (finish_run env n (Stopped stopped)) again_closed reqs_closed"
      using triple_framed(3) [OF framed_finish_run, of env n "Stopped stopped"] fin
      by (fastforce simp: triple_def again_closed_def split: prod.splits sum.splits)
    moreover have "triple (\<lambda>c. open_at msg c \<and> (\<forall>m\<in>set ms. m_role m = RTool)
        \<and> (stopped = [] \<longrightarrow> answered_ids ms = map ct_id calls)) (push_all ms) (\<lambda>_. reqs_closed) reqs_closed"
      by (rule triple_weaken [OF triple_push_any [of msg ms]]) simp_all
    ultimately show ?thesis using False by (simp add: triple_bind)
  qed
  show ?thesis
    unfolding handle_calls_def Let_def
    by (auto simp: open_at_def intro!: triple_ret(2) triple_bind [OF triple_framed(2)] triple_bind [OF nudge]
        again triple_bind [OF triple_execute] tail)
qed

lemma triple_maybe_compact: "triple all_closed (maybe_compact env cfg) (\<lambda>_. all_closed) reqs_closed"
proof (rule tripleI)
  fix c r c'
  assume c: "all_closed c"
  have "ca_requests (snd (maybe_compact env cfg c)) = ca_requests c"
    using quiet_maybe_compact [of env cfg] by (simp add: quiet_def preserves_def)
  with c have both: "all_closed (snd (maybe_compact env cfg c))"
    by (simp add: all_closed_def reqs_closed_def maybe_compact_closed)
  show "maybe_compact env cfg c = (Inr r, c') \<Longrightarrow> all_closed c'" using both by simp
  show "maybe_compact env cfg c = (Inl e, c') \<Longrightarrow> reqs_closed c'" for e
    using both by (simp add: all_closed_def)
qed

lemma triple_call_provider: "triple all_closed (call_provider env i) (\<lambda>_. all_closed) reqs_closed"
  by (rule tripleI)
    (auto simp: call_provider_def bind_run_def run_defs all_closed_def reqs_closed_def
      split: provider_reply.splits sum.splits)

lemma triple_push_history:
  "triple all_closed (push_history m) (\<lambda>_. open_at m) reqs_closed"
  by (auto simp: triple_def run_defs all_closed_def open_at_def reqs_closed_def)

lemma triple_iteration: "triple all_closed (iteration env cfg n fps) again_closed reqs_closed"
proof -
  have body: "triple (open_at msg)
      (if stop = MaxTokens \<and> extract_tool_calls ps = [] then fail e
       else if extract_tool_calls ps = [] then finish_run env n res
       else handle_calls env cfg n fps (extract_tool_calls ps)) again_closed reqs_closed"
    if "m_parts msg = ps" for msg ps stop e res
    using that triple_handle_calls [of msg "extract_tool_calls ps" env cfg n fps]
    by (auto simp: message_calls_def extract_calls_ids open_at_def intro!: triple_finish_run triple_ret(2))
  show ?thesis
    unfolding iteration_def Let_def
    by (intro triple_bind [OF triple_maybe_compact] triple_bind [OF triple_framed(1)]
        triple_bind [OF triple_call_provider] triple_bind [OF triple_push_history] body framed_simps)
      simp_all
qed

lemma triple_run_loop: "triple all_closed (run_loop env cfg k n fps) (\<lambda>_. reqs_closed) reqs_closed"
proof (induction k arbitrary: n fps)
  case 0
  have "triple all_closed (fail e) (\<lambda>_. reqs_closed) reqs_closed" for e
    by (rule triple_ret(2)) (simp add: all_closed_def)
  then show ?case by (auto intro!: triple_bind [OF triple_framed(1)])
next
  case (Suc k)
  have "triple (again_closed r) (case r of Again fps' \<Rightarrow> run_loop env cfg k (Suc n) fps'
      | Finished res \<Rightarrow> ret res) (\<lambda>_. reqs_closed) reqs_closed" for r
    using Suc.IH by (cases r) (simp_all add: again_closed_simps triple_ret(1))
  then show ?case
    by (auto intro!: triple_bind [OF triple_framed(1)] triple_bind [OF triple_iteration])
qed

section \<open>The journal and the history agree\<close>

definition is_nudge :: "message \<Rightarrow> bool" where
  "is_nudge m \<longleftrightarrow> (\<exists>now call. m = nudge_message now call)"

text \<open>
  Everything this run put in the history, the journal can rebuild, except the nudges: as multisets,
  because the results of one batch are journaled as they complete and pushed in request order.
\<close>

definition agrees :: "core \<Rightarrow> core \<Rightarrow> bool" where
  "agrees c c' \<longleftrightarrow> (\<exists>ns. list_all is_nudge ns \<and>
     mset (ca_history c') + mset (journal_messages c) =
     mset (ca_history c) + mset (journal_messages c') + mset ns)"

lemma agrees_refl: "agrees c c"
  by (auto simp: agrees_def intro!: exI [of _ "[]"])

lemma agrees_trans: "agrees a b \<Longrightarrow> agrees b c \<Longrightarrow> agrees a c"
  unfolding agrees_def
proof (elim exE conjE)
  fix xs ys
  assume "list_all is_nudge xs" "list_all is_nudge ys"
    and x: "mset (ca_history b) + mset (journal_messages a) =
      mset (ca_history a) + mset (journal_messages b) + mset xs"
    and y: "mset (ca_history c) + mset (journal_messages b) =
      mset (ca_history b) + mset (journal_messages c) + mset ys"
  moreover have "mset (ca_history c) + mset (journal_messages a) =
      mset (ca_history a) + mset (journal_messages c) + mset (xs @ ys)"
  proof -
    have "mset (ca_history c) + mset (journal_messages a) + (mset (ca_history b) + mset (journal_messages b)) =
      mset (ca_history a) + mset (journal_messages c) + mset (xs @ ys)
        + (mset (ca_history b) + mset (journal_messages b))"
      using arg_cong2 [OF x y, of "(+)"] by (simp add: ac_simps)
    then show ?thesis by simp
  qed
  ultimately show "\<exists>ns. list_all is_nudge ns \<and> mset (ca_history c) + mset (journal_messages a) =
     mset (ca_history a) + mset (journal_messages c) + mset ns"
    by (intro exI [of _ "xs @ ys"]) simp
qed

lemma agrees_same: "ca_history c' = ca_history c \<Longrightarrow> journal_messages c' = journal_messages c \<Longrightarrow> agrees c c'"
  using agrees_refl by (simp add: agrees_def)

lemma finish_run_agrees: "finish_run env n res c = (Inr r, c') \<Longrightarrow> agrees c c'"
  by (rule agrees_same)
    (auto simp: finish_run_def bind_run_def run_defs journal_messages_def map_filter_simps
      event_message_def split: option.splits if_splits)

lemma check_cancelled_InrD:
  "check_cancelled env c = (Inr x, c') \<Longrightarrow> ca_history c' = ca_history c \<and> ca_trace c' = ca_trace c"
  by (auto simp: check_cancelled_def bind_run_def run_defs split: if_splits)

lemma handle_calls_agrees:
  assumes "handle_calls env cfg n fps calls c = (Inr r, c')"
  shows "agrees c c'"
proof -
  let ?fp = "tool_fingerprint (en_show_json env) calls"
  let ?fps = "push_fingerprint (cfg_stuck_threshold cfg) fps ?fp"
  let ?same = "list_all (\<lambda>f. f = ?fp) ?fps"
  have unstuck: "\<not> (length ?fps \<ge> cfg_stuck_threshold cfg \<and> ?same)"
    using assms by (auto simp: handle_calls_def Let_def fail_def)
  show ?thesis
  proof (cases "length ?fps \<ge> cfg_nudge_threshold cfg \<and> ?same")
    case True
    define now where "now = en_now env (ca_tick c)"
    from True unstuck assms have "ca_history c' = ca_history c @ map (nudge_message now) calls"
      and "journal_messages c' = journal_messages c"
      by (auto simp: handle_calls_def bind_run_def run_defs journal_messages_def now_def)
    moreover have "list_all is_nudge (map (nudge_message now) calls)"
      by (auto simp: list_all_iff is_nudge_def)
    ultimately show ?thesis by (auto simp: agrees_def intro!: exI [of _ "map (nudge_message now) calls"])
  next
    case False
    let ?k = "\<lambda>ms stopped. bind_run (push_all ms) (\<lambda>_. if stopped = [] then ret (Again ?fps)
          else finish_run env n (Stopped stopped))"
    from False unstuck assms have "bind_run (check_cancelled env) (\<lambda>_.
        bind_run (execute_tool_calls env calls) (\<lambda>(ms, stopped). ?k ms stopped)) c = (Inr r, c')"
      unfolding handle_calls_def Let_def by (simp only: if_False)
    then obtain u c1 where c1: "check_cancelled env c = (Inr u, c1)"
      and "bind_run (execute_tool_calls env calls) (\<lambda>(ms, stopped). ?k ms stopped) c1 = (Inr r, c')"
      by (rule bind_run_InrE)
    from this(2) obtain p c2 where p: "execute_tool_calls env calls c1 = (Inr p, c2)"
      and "(\<lambda>(ms, stopped). ?k ms stopped) p c2 = (Inr r, c')"
      by (rule bind_run_InrE)
    moreover obtain ms stopped where ms: "p = (ms, stopped)" by fastforce
    ultimately have c2: "execute_tool_calls env calls c1 = (Inr (ms, stopped), c2)"
      and rest: "(if stopped = [] then ret (Again ?fps)
          else finish_run env n (Stopped stopped)) (snd (push_all ms c2)) = (Inr r, c')"
      by (simp_all add: bind_run_def push_all_def modify_core_def)
    define c3 where "c3 = snd (push_all ms c2)"
    have hist: "ca_history c2 = ca_history c1"
      using framed_execute_tool_calls [of env calls] c2 by (metis framed_def snd_conv)
    have "mset (ca_history c3) + mset (journal_messages c) = mset (ca_history c) + mset (journal_messages c3)"
      using check_cancelled_InrD [OF c1] execute_tool_calls_InrD(1) [OF c2] hist
      by (simp add: c3_def run_defs journal_messages_def ac_simps)
    then have "agrees c c3" by (auto simp: agrees_def intro!: exI [of _ "[]"])
    moreover have "agrees c3 c'"
      using rest finish_run_agrees
      by (auto simp: c3_def ret_def agrees_refl split: if_splits)
    ultimately show ?thesis by (rule agrees_trans)
  qed
qed

definition agreeing :: "'a run \<Rightarrow> bool" where
  "agreeing m \<longleftrightarrow> (\<forall>c r c'. m c = (Inr r, c') \<longrightarrow> agrees c c')"

lemma agreeing_bind: "agreeing m \<Longrightarrow> (\<And>x. agreeing (f x)) \<Longrightarrow> agreeing (bind_run m f)"
  unfolding agreeing_def by (blast elim: bind_run_InrE intro: agrees_trans)

lemma agreeing_simps [simp]:
  "agreeing (ret x)" "agreeing (fail e)" "agreeing (ask_env g)" "agreeing (read_core h)"
  "agreeing (modify_core (bank_response resp))"
  by (auto simp: agreeing_def run_defs bank_response_def journal_messages_def intro!: agrees_same)

lemma agreeing_emit: "event_message ev = None \<Longrightarrow> agreeing (emit env ev)"
  by (auto simp: agreeing_def emit_def Let_def journal_messages_def map_filter_simps
      split: option.splits if_splits intro!: agrees_same)

lemma map_filter_chunks:
  "List.map_filter (\<lambda>(ev, ok). if ok then event_message ev else None) (map (\<lambda>t. (EvTextChunk i t, True)) ts) = []"
  by (induction ts) (simp_all add: map_filter_simps event_message_def)

lemma agreeing_call_provider: "agreeing (call_provider env i)"
  by (auto simp: agreeing_def call_provider_def bind_run_def run_defs journal_messages_def
      map_filter_chunks split: provider_reply.splits sum.splits intro!: agrees_same)

lemma agreeing_record:
  assumes "agreeing m"
  shows "agreeing (bind_run (emit env (EvMessageComplete i msg)) (\<lambda>_. bind_run (push_history msg) (\<lambda>_. m)))"
  unfolding agreeing_def
proof (intro allI impI)
  fix c r c'
  assume "bind_run (emit env (EvMessageComplete i msg)) (\<lambda>_. bind_run (push_history msg) (\<lambda>_. m)) c = (Inr r, c')"
  then obtain u c1 where e: "emit env (EvMessageComplete i msg) c = (Inr u, c1)"
    and m: "m (snd (push_history msg c1)) = (Inr r, c')"
    by (auto elim!: bind_run_InrE simp: push_history_def modify_core_def)
  from e have "journal_messages (snd (push_history msg c1)) = journal_messages c @ [msg]"
    and "ca_history (snd (push_history msg c1)) = ca_history c @ [msg]"
    using emit_InrD [OF e]
    by (simp_all add: run_defs journal_messages_def map_filter_simps event_message_def)
  then have "agrees c (snd (push_history msg c1))"
    by (auto simp: agrees_def intro!: exI [of _ "[]"])
  with m assms show "agrees c c'" unfolding agreeing_def by (blast intro: agrees_trans)
qed

lemma agreeing_iteration:
  assumes "cfg_compaction cfg = None"
  shows "agreeing (iteration env cfg n fps)"
proof -
  have fin: "agreeing (finish_run env n res)" and calls: "agreeing (handle_calls env cfg n fps calls)"
    for n res calls fps
    by (auto simp: agreeing_def finish_run_agrees handle_calls_agrees)
  show ?thesis
    unfolding iteration_def Let_def using assms
    by (auto simp: maybe_compact_def event_message_def
        intro!: agreeing_bind agreeing_emit agreeing_call_provider agreeing_record fin calls)
qed

lemma agreeing_run_loop:
  assumes "cfg_compaction cfg = None"
  shows "agreeing (run_loop env cfg k n fps)"
proof (induction k arbitrary: n fps)
  case 0
  have "agreeing (check_cancelled env)"
    by (auto simp: check_cancelled_def intro!: agreeing_bind)
  then show ?case by (auto intro!: agreeing_bind)
next
  case (Suc k)
  have "agreeing (check_cancelled env)"
    by (auto simp: check_cancelled_def intro!: agreeing_bind)
  then show ?case
    by (auto intro!: agreeing_bind agreeing_iteration [OF assms] Suc.IH split: iteration_result.splits)
qed

section \<open>Properties\<close>

lemma agent_run_requests:
  "ca_requests (snd (agent_run env cfg input c)) =
     ca_requests (snd (run_inner env cfg input (c\<lparr> ca_spent := run_accounting_new \<rparr>)))"
  by (auto simp: agent_run_def bind_run_def run_defs split: prod.splits sum.splits option.splits)

lemma within_run_inner: "within (cfg_max_iterations cfg) (run_inner env cfg input)"
  unfolding run_inner_def
  by (intro within_bind_quiet within_run_loop quiet_ask quiet_emit quiet_push(2)) (simp add: is_end_event_def)


text \<open>
  Every run reports what it spent exactly once. A run that succeeds ends with one completion event the
  sink accepted, carrying the usage banked over all its provider calls; a run that fails, for any reason,
  hands the sink one abort event with what it had banked and no completion event is accepted.\<close>

theorem run_reports_its_usage_once:
  "case agent_run env cfg input c of
     (Inr res, c') \<Rightarrow> (\<exists>n now. ends c' = ends c @ [(EvRunComplete (sp_usage (ca_spent c')) n
        (sp_context_tokens (ca_spent c')) now, True)])
   | (Inl e, c') \<Rightarrow> (\<exists>now ok. last (ca_trace c') = (EvRunAborted (sp_usage (ca_spent c'))
          (sp_context_tokens (ca_spent c')) now, ok) \<and>
        ends c' = ends c @ (if ok then [last (ca_trace c')] else []))"
proof -
  let ?c = "c\<lparr> ca_spent := run_accounting_new \<rparr>"
  obtain r c1 where r: "run_inner env cfg input ?c = (r, c1)" by fastforce
  have e: "ended (\<lambda>_. True) (ends ?c) (r, c1)" using ends_run_inner [of env cfg input] r by (metis ends_when_def)
  have c: "ends ?c = ends c" by (simp add: ends_def)
  show ?thesis
  proof (cases r)
    case (Inr res)
    with e r c show ?thesis by (simp add: agent_run_def ended_def)
  next
    case (Inl err)
    with e c have "ends c1 = ends c" by (simp add: ended_def)
    with Inl r show ?thesis
      by (auto simp: agent_run_def bind_run_def run_defs ends_def is_end_event_def split: option.splits)
  qed
qed

lemma role_to_message: "m_role (to_message input now) \<noteq> RAssistant"
  by (cases input) simp_all

lemma triple_run_inner:
  "triple all_closed (run_inner env cfg input) (\<lambda>_. reqs_closed) reqs_closed"
proof -
  have push: "triple all_closed (push_history (to_message input now)) (\<lambda>_. all_closed) reqs_closed" for now
    by (auto simp: triple_def run_defs all_closed_def reqs_closed_def role_to_message intro!: closed_append)
  show ?thesis
    unfolding run_inner_def
    by (auto intro!: triple_bind [OF triple_framed(1)] triple_bind [OF push] triple_run_loop)
qed


definition sample_env :: run_env where
  "sample_env = \<lparr> en_complete = (\<lambda>n h. PrReply [''ok''] (Inr \<lparr> cr_parts = [PText ''ok''], cr_stop_reason = EndTurn,
       cr_usage = \<lparr> u_input_tokens = 5, u_output_tokens = 1, u_cache_creation_tokens = None, u_cache_read_tokens = None \<rparr> \<rparr>)),
     en_summarise = (\<lambda>n h. Inr []), en_emit = (\<lambda>n ev. None), en_cancelled = (\<lambda>n. False),
     en_execute = (\<lambda>n name inp i. Inr StopRun), en_schedule = (\<lambda>n. []), en_now = (\<lambda>n. 1),
     en_fresh = (\<lambda>n. ''id''), en_show_json = (\<lambda>_. []), en_policy = None \<rparr>"

definition sample_core :: core where
  "sample_core = \<lparr> ca_history = [], ca_last_context_tokens = 0, ca_spent = run_accounting_new, ca_tick = 0,
     ca_trace = [], ca_requests = [] \<rparr>"

definition sample_config :: agent_config where
  "sample_config = \<lparr> cfg_max_iterations = 3, cfg_stuck_threshold = 5, cfg_nudge_threshold = 3,
     cfg_max_tokens = None, cfg_compaction = None \<rparr>"

lemma sample_run:
  "fst (agent_run sample_env sample_config (input_user_message ''m'' ''hi'') sample_core) = Inr (Completed ''ok'')"
  "length (ca_requests (snd (agent_run sample_env sample_config (input_user_message ''m'' ''hi'') sample_core))) = 1"
  by (simp_all add: agent_run_def run_inner_def iteration_def check_cancelled_def maybe_compact_def
      call_provider_def finish_run_def bank_response_def extract_tool_calls_def extract_text_def map_filter_simps
      bind_run_def run_defs numeral_3_eq_3 sample_env_def sample_core_def sample_config_def)


lemma run_inner_InrE:
  assumes "run_inner env cfg input c = (Inr res, c')"
  obtains c1 now where "run_loop env cfg (cfg_max_iterations cfg) 0 [] c1 = (Inr res, c')"
    "ca_history c1 = ca_history c @ [to_message input now]" "journal_messages c1 = journal_messages c"
  using assms unfolding run_inner_def
  by (auto simp: bind_run_def run_defs journal_messages_def event_message_def map_filter_simps split: option.splits)



text \<open>
  A nudge is never journaled. When a batch of calls has repeated often enough, the loop answers each
  call in its history with a nudge and emits no event for it, so the log keeps the assistant's calls with
  no result and every later prompt has to repair them as interrupted.\<close>

theorem nudges_are_not_journaled:
  assumes "fps' = push_fingerprint (cfg_stuck_threshold cfg) fps (tool_fingerprint (en_show_json env) calls)"
    "list_all (\<lambda>f. f = tool_fingerprint (en_show_json env) calls) fps'"
    "length fps' < cfg_stuck_threshold cfg" "cfg_nudge_threshold cfg \<le> length fps'"
  shows "\<exists>c' now. handle_calls env cfg n fps calls c = (Inr (Again fps'), c') \<and> ca_trace c' = ca_trace c \<and>
    ca_history c' = ca_history c @ map (nudge_message now) calls"
  using assms by (auto simp: handle_calls_def bind_run_def run_defs)

theorem nudges_are_not_journaled_witness:
  "\<exists>c' now. handle_calls sample_env (sample_config\<lparr> cfg_stuck_threshold := 3, cfg_nudge_threshold := 2 \<rparr>) 1
       [''t:''] [\<lparr> ct_id = ''c'', ct_name = ''t'', ct_input = JNull \<rparr>] sample_core = (Inr (Again [''t:'', ''t:'']), c') \<and>
     ca_trace c' = [] \<and> ca_history c' = [nudge_message now \<lparr> ct_id = ''c'', ct_name = ''t'', ct_input = JNull \<rparr>]"
  using nudges_are_not_journaled [of "[''t:'', ''t:'']" "sample_config\<lparr> cfg_stuck_threshold := 3, cfg_nudge_threshold := 2 \<rparr>"
      "[''t:'']" sample_env "[\<lparr> ct_id = ''c'', ct_name = ''t'', ct_input = JNull \<rparr>]" 1 sample_core]
  by (simp add: push_fingerprint_def tool_fingerprint_def sample_env_def sample_core_def)

end
