(* ===== verification/Agent_Run.thy ===== *)
theory Agent_Run
  imports Core_Agent
begin

text \<open>
  One turn on the run's own task (\<^verbatim>\<open>agent_actor/run.rs\<close>, \<open>run_with_retries\<close>): the summary a sub session
  waits on, the queued compaction, and the retry loop around \<open>Agent::run\<close>; and the mapping from the
  loop's events to the ones that are journaled (\<^verbatim>\<open>sink.rs\<close>). The retry loop recurses on the retries left.
  How an error displays is a parameter.
\<close>

section \<open>Journaled events\<close>

definition coarse_event :: "core_event \<Rightarrow> agent_event option" where
  "coarse_event ev = (case ev of
     EvMessageComplete i m \<Rightarrow> Some (MessageComplete m)
   | EvToolComplete t \<Rightarrow> Some (ToolComplete t)
   | EvRunComplete u n ctx at \<Rightarrow> Some (RunComplete u n ctx at)
   | EvRunAborted u ctx at \<Rightarrow> Some (RunAborted u ctx at)
   | EvCompacted c \<Rightarrow> Some (Compacted c)
   | EvCompactionSkipped ctx kept at \<Rightarrow> Some (LifecycleRecorded (LCompactionSkipped ctx kept) at)
   | EvInputMessage i inp \<Rightarrow> None
   | EvMessageStart i \<Rightarrow> None
   | EvMessageStop i \<Rightarrow> None
   | EvTextChunk i t \<Rightarrow> None
   | EvToolExecuting i c \<Rightarrow> None)"

definition coarse_appends_an_entry :: "agent_event \<Rightarrow> bool" where
  "coarse_appends_an_entry ev = (case ev of
     InputMessage m \<Rightarrow> True | MessageComplete m \<Rightarrow> True | MessageAborted m \<Rightarrow> True
   | ToolComplete t \<Rightarrow> True | HookRan r n at \<Rightarrow> True | LifecycleRecorded l at \<Rightarrow> True
   | TaskListChanged snap at \<Rightarrow> True | _ \<Rightarrow> False)"

definition is_run_aborted :: "core_event \<Rightarrow> bool" where
  "is_run_aborted ev = (case ev of EvRunAborted u ctx at \<Rightarrow> True | _ \<Rightarrow> False)"

definition journaled :: "core_event list \<Rightarrow> bool" where
  "journaled captured \<longleftrightarrow> list_ex (\<lambda>ev. \<not> is_run_aborted ev \<and> coarse_event ev \<noteq> None) captured"

section \<open>The retry loop\<close>

datatype run_outcome = ROCompleted string | ROStopped "stopped_call list" | ROCancelled
  | ROFailed string bool | ROAlreadyReported

record turn_params =
  tp_env :: run_env
  tp_show_error :: "agent_error \<Rightarrow> string"
  tp_cfg :: agent_config
  tp_history :: "message list"
  tp_input :: agent_input
  tp_context_tokens :: u32
  tp_compact :: "string option option"
  tp_compact_only :: bool

definition build_core :: "turn_params \<Rightarrow> nat \<Rightarrow> core" where
  "build_core p tick = \<lparr> ca_history = tp_history p, ca_last_context_tokens = tp_context_tokens p,
     ca_spent = run_accounting_new, ca_tick = tick, ca_trace = [], ca_requests = [] \<rparr>"

definition captured :: "core \<Rightarrow> core_event list" where
  "captured c = map fst (ca_trace c)"

text \<open>What one attempt comes to: an outcome, or a transient error with nothing durable behind it.\<close>

datatype attempt = Settled run_outcome | Retry llm_error

definition judge :: "turn_params \<Rightarrow> bool \<Rightarrow> (agent_error + agent_result) \<times> core \<Rightarrow> attempt" where
  "judge p budget_left res = (case res of
     (Inr (Completed t), c) \<Rightarrow> Settled (ROCompleted t)
   | (Inr (Stopped calls), c) \<Rightarrow> Settled (ROStopped calls)
   | (Inl Cancelled, c) \<Rightarrow> Settled ROCancelled
   | (Inl (ProviderError e), c) \<Rightarrow>
       if budget_left \<and> is_transient e \<and> \<not> journaled (captured c) then Retry e
       else Settled (ROFailed (tp_show_error p (ProviderError e)) (is_transient e))
   | (Inl e, c) \<Rightarrow> Settled (ROFailed (tp_show_error p e) False))"

definition run_attempt :: "turn_params \<Rightarrow> bool \<Rightarrow> nat \<Rightarrow> attempt \<times> core" where
  "run_attempt p budget_left tick =
     (let c0 = build_core p tick;
          c1 = (case tp_compact p of
                  None \<Rightarrow> c0
                | Some ins \<Rightarrow> snd (compact_only (tp_env p) (tp_cfg p) ins c0))
      in if tp_compact p \<noteq> None \<and> tp_compact_only p then (Settled (ROCompleted []), c1)
         else
           (let res = agent_run (tp_env p) (tp_cfg p) (tp_input p) c1
            in (judge p budget_left res, snd res)))"

definition backoff_ms :: "nat \<Rightarrow> nat" where
  "backoff_ms n = 50 * 2 ^ min n 6"

text \<open>
  The loop returns its outcome, the state each attempt ended in, and the delay slept before each
  retry. \<open>left\<close> is the retries that remain, \<open>n\<close> the ones used.
\<close>

fun attempts ::
    "turn_params \<Rightarrow> nat \<Rightarrow> nat \<Rightarrow> nat \<Rightarrow> run_outcome \<times> core list \<times> nat list" where
  "attempts p 0 n tick =
     (case run_attempt p False tick of
        (Settled out, c) \<Rightarrow> (out, [c], [])
      | (Retry e, c) \<Rightarrow> (ROFailed (tp_show_error p (ProviderError e)) (is_transient e), [c], []))"
| "attempts p (Suc left) n tick =
     (case run_attempt p True tick of
        (Settled out, c) \<Rightarrow> (out, [c], [])
      | (Retry e, c) \<Rightarrow>
          (let delay = (case retry_after e of Some d \<Rightarrow> d | None \<Rightarrow> backoff_ms (Suc n));
               (out, cs, ds) = attempts p left (Suc n) (ca_tick c)
           in (out, c # cs, delay # ds)))"

definition run_turn_attempts :: "turn_params \<Rightarrow> nat \<Rightarrow> nat \<Rightarrow> run_outcome \<times> core list \<times> nat list" where
  "run_turn_attempts p max_retries tick =
     (if \<not> config_ok (tp_cfg p)
      then (ROFailed (''nudge_threshold ('' @ show_nat (cfg_nudge_threshold (tp_cfg p))
              @ '') must be less than stuck_threshold ('' @ show_nat (cfg_stuck_threshold (tp_cfg p))
              @ '')'') False, [], [])
      else attempts p max_retries 0 tick)"

section \<open>Summaries for sub sessions\<close>

record seed_summary =
  ss_sub_sessions :: "uuid list"
  ss_result :: "string + string"

definition summarise_for_sub_sessions :: "turn_params \<Rightarrow> nat \<Rightarrow> (string + string) \<times> nat" where
  "summarise_for_sub_sessions p tick =
     (case summarise_all (tp_env p) None (build_core p tick) of
        (Inl e, c) \<Rightarrow> (Inl (tp_show_error p e), ca_tick c)
      | (Inr s, c) \<Rightarrow> (Inr s, ca_tick c))"

definition run_with_retries ::
    "turn_params \<Rightarrow> summarise option \<Rightarrow> bool \<Rightarrow> nat \<Rightarrow> nat
       \<Rightarrow> run_outcome \<times> seed_summary option \<times> core list" where
  "run_with_retries p summ summarise_only max_retries tick =
     (let (comp, seed, tick') = (case summ of
            Some (SumCompact ins) \<Rightarrow> (Some ins, None, tick)
          | Some (SumSubSession subs) \<Rightarrow>
              (let (r, t) = summarise_for_sub_sessions p tick
               in (None, Some \<lparr> ss_sub_sessions = subs, ss_result = r \<rparr>, t))
          | None \<Rightarrow> (None, None, tick))
      in if summarise_only \<and> comp = None then (ROCompleted [], seed, [])
         else
           (let (out, cs, ds) = run_turn_attempts
                  (p\<lparr> tp_compact := comp, tp_compact_only := summarise_only \<rparr>) max_retries tick'
            in (out, seed, cs)))"

section \<open>Lemmas\<close>

lemma judge_RetryD:
  "judge p b res = Retry e \<Longrightarrow> b \<and> is_transient e \<and> fst res = Inl (ProviderError e) \<and>
     \<not> journaled (captured (snd res))"
  by (auto simp: judge_def split: prod.splits sum.splits agent_error.splits agent_result.splits if_splits)

lemma run_attempt_RetryD:
  "run_attempt p b tick = (Retry e, c) \<Longrightarrow> b \<and> is_transient e \<and> \<not> journaled (captured c)"
  by (auto simp: run_attempt_def Let_def split: if_splits dest: judge_RetryD)

text \<open>Every attempt but the last journaled nothing of its own.\<close>

lemma attempts_retried:
  "attempts p left n tick = (out, cs, ds) \<Longrightarrow> cs \<noteq> [] \<and> length cs \<le> Suc left \<and>
     length ds = length cs - 1 \<and> (\<forall>c\<in>set (butlast cs). \<not> journaled (captured c))"
proof (induction p left n tick arbitrary: out cs ds rule: attempts.induct)
  case (1 p n tick)
  then show ?case by (auto split: prod.splits attempt.splits)
next
  case (2 p left n tick)
  obtain a c where ra: "run_attempt p True tick = (a, c)" by fastforce
  show ?case
  proof (cases a)
    case (Settled o')
    with ra 2 show ?thesis by auto
  next
    case (Retry e)
    obtain out' cs' ds' where rec: "attempts p left (Suc n) (ca_tick c) = (out', cs', ds')"
      by (metis prod_cases3)
    have ih: "cs' \<noteq> [] \<and> length cs' \<le> Suc left \<and> length ds' = length cs' - 1 \<and>
        (\<forall>c\<in>set (butlast cs'). \<not> journaled (captured c))"
      using "2.IH" ra Retry rec by fastforce
    from ra Retry rec "2.prems" have "cs = c # cs'" "length ds = Suc (length ds')" by auto
    moreover have "\<not> journaled (captured c)" using ra Retry run_attempt_RetryD by blast
    ultimately show ?thesis using ih by (cases cs') auto
  qed
qed

lemma coarse_log_unchanged:
  assumes "\<not> journaled evs"
  shows "st_log (foldl apply_event s (List.map_filter coarse_event evs)) = st_log s"
  using assms
proof (induction evs arbitrary: s)
  case Nil
  then show ?case by (simp add: map_filter_simps)
next
  case (Cons ev evs)
  then have "\<not> journaled evs" and ev: "is_run_aborted ev \<or> coarse_event ev = None"
    by (auto simp: journaled_def)
  with Cons.IH show ?case
    by (cases ev) (auto simp: map_filter_simps is_run_aborted_def coarse_event_def fold_defs)
qed

section \<open>Properties\<close>

text \<open>
  A turn is attempted at most one time more than it may be retried, with one delay before each retry, of
  at most 3.2 seconds unless the provider asked for another. An attempt is only retried when it left nothing
  behind: folding everything it emitted into the agent's state adds no entry to the log.\<close>

theorem retries_are_bounded_and_invisible:
  assumes "run_turn_attempts p max_retries tick = (out, cs, ds)"
  shows "length cs \<le> Suc max_retries \<and> length ds = length cs - 1 \<and>
    (\<forall>c\<in>set (butlast cs). st_log (foldl apply_event s (List.map_filter coarse_event (captured c))) = st_log s) \<and>
    backoff_ms n \<le> 3200"
proof -
  have "(2 :: nat) ^ min n 6 \<le> 2 ^ 6" by (rule power_increasing) simp_all
  then have "backoff_ms n \<le> 3200" by (simp add: backoff_ms_def)
  moreover have "length cs \<le> Suc max_retries \<and> length ds = length cs - 1 \<and>
      (\<forall>c\<in>set (butlast cs). \<not> journaled (captured c))"
    using assms attempts_retried [of p max_retries 0 tick out cs ds]
    by (auto simp: run_turn_attempts_def split: if_splits)
  ultimately show ?thesis using coarse_log_unchanged by blast
qed

definition sample_turn :: turn_params where
  "sample_turn = \<lparr> tp_env = sample_env, tp_show_error = (\<lambda>_. ''error''), tp_cfg = sample_config, tp_history = [],
     tp_input = input_user_message ''m'' ''hi'', tp_context_tokens = 0, tp_compact = None, tp_compact_only = False \<rparr>"

theorem retries_are_bounded_and_invisible_witness:
  "length (fst (snd (run_turn_attempts sample_turn 2 0))) \<le> 3"
  using retries_are_bounded_and_invisible [of sample_turn 2 0 "fst (run_turn_attempts sample_turn 2 0)"
      "fst (snd (run_turn_attempts sample_turn 2 0))" "snd (snd (run_turn_attempts sample_turn 2 0))"
      agent_state_default 0]
  by simp

end
