(* ===== verification/Agent_Log.thy ===== *)
theory Agent_Log
  imports Agent_State
begin

text \<open>
  Cursors and windows over an agent's log (\<^verbatim>\<open>crates/server/src/agent_loop/agent_log.rs\<close>) and the
  forward read a live client makes (\<open>read_from\<close> of \<^verbatim>\<open>agent_actor/reads.rs\<close>). The binary searches are
  the code's own, on indices; on a log sorted by sequence number they are proved equal to the
  linear definitions. The locale \<open>forward_read\<close> states what a stream of reads relies on: reading
  on from where the last read ended neither skips nor repeats an entry.
  Lower-casing and JSON rendering are parameters.
\<close>

section \<open>Cursors\<close>

record cursor =
  c_entry_seq :: nat
  c_delta_seq :: nat

definition U64_LIMIT :: nat where "U64_LIMIT = 2 ^ 64"

fun split_once :: "char \<Rightarrow> string \<Rightarrow> (string \<times> string) option" where
  "split_once d [] = None"
| "split_once d (c # cs) =
     (if c = d then Some ([], cs) else map_option (\<lambda>(a, b). (c # a, b)) (split_once d cs))"

definition cursor_parse :: "string \<Rightarrow> cursor option" where
  "cursor_parse raw = (case split_once CHR ''.'' raw of
     None \<Rightarrow>
       (case parse_uint U64_LIMIT raw of
          None \<Rightarrow> None
        | Some n \<Rightarrow> Some \<lparr> c_entry_seq = n, c_delta_seq = 0 \<rparr>)
   | Some (entry, delta) \<Rightarrow>
       (case parse_uint U64_LIMIT entry of
          None \<Rightarrow> None
        | Some n \<Rightarrow>
            (case parse_uint U64_LIMIT delta of
               None \<Rightarrow> None
             | Some d \<Rightarrow> Some \<lparr> c_entry_seq = n, c_delta_seq = d \<rparr>)))"

definition cursor_display :: "cursor \<Rightarrow> string" where
  "cursor_display c =
     (if c_delta_seq c = 0 then show_nat (c_entry_seq c)
      else show_nat (c_entry_seq c) @ ''.'' @ show_nat (c_delta_seq c))"

section \<open>Binary search\<close>

function partition_go :: "('a \<Rightarrow> bool) \<Rightarrow> 'a list \<Rightarrow> nat \<Rightarrow> nat \<Rightarrow> nat" where
  "partition_go p xs lo hi =
     (if lo < hi
      then (let mid = (lo + hi) div 2
            in if p (xs ! mid) then partition_go p xs (Suc mid) hi else partition_go p xs lo mid)
      else lo)"
  by auto
termination by (relation "measure (\<lambda>(p, xs, lo, hi). hi - lo)") auto

definition partition_point :: "('a \<Rightarrow> bool) \<Rightarrow> 'a list \<Rightarrow> nat" where
  "partition_point p xs = partition_go p xs 0 (length xs)"

function binary_search_go :: "('a \<Rightarrow> nat) \<Rightarrow> nat \<Rightarrow> 'a list \<Rightarrow> nat \<Rightarrow> nat \<Rightarrow> nat option" where
  "binary_search_go key k xs lo hi =
     (if lo < hi
      then (let mid = (lo + hi) div 2
            in if key (xs ! mid) = k then Some mid
               else if key (xs ! mid) < k then binary_search_go key k xs (Suc mid) hi
               else binary_search_go key k xs lo mid)
      else None)"
  by auto
termination by (relation "measure (\<lambda>(key, k, xs, lo, hi). hi - lo)") auto

declare partition_go.simps [simp del] binary_search_go.simps [simp del]

definition binary_search_by_key :: "('a \<Rightarrow> nat) \<Rightarrow> nat \<Rightarrow> 'a list \<Rightarrow> nat option" where
  "binary_search_by_key key k xs = binary_search_go key k xs 0 (length xs)"

definition log_sorted :: "log_entry list \<Rightarrow> bool" where
  "log_sorted log \<longleftrightarrow> sorted_wrt (<) (map e_seq log)"

section \<open>Windows\<close>

datatype log_entry_kind = KUserMessage | KAssistantMessage | KToolResult | KHook | KLifecycle | KCompaction

datatype anchor = Tail | Before nat | After nat

record log_filter =
  lf_kinds :: "log_entry_kind list"
  lf_without_thinking :: bool

definition everything :: log_filter where
  "everything = \<lparr> lf_kinds = [], lf_without_thinking = False \<rparr>"

definition kind_of :: "log_entry \<Rightarrow> log_entry_kind" where
  "kind_of e = (case e_body e of
     BLlm m \<Rightarrow> (case m_role m of RUser \<Rightarrow> KUserMessage | RAssistant \<Rightarrow> KAssistantMessage | RTool \<Rightarrow> KToolResult)
   | BHook h \<Rightarrow> KHook
   | BLifecycle l \<Rightarrow> KLifecycle
   | BCompaction c \<Rightarrow> KCompaction)"

definition keeps :: "log_filter \<Rightarrow> log_entry \<Rightarrow> bool" where
  "keeps f e \<longleftrightarrow> lf_kinds f = [] \<or> kind_of e \<in> set (lf_kinds f)"

definition is_thinking :: "content_part \<Rightarrow> bool" where
  "is_thinking p = (case p of PThinking t s \<Rightarrow> True | _ \<Rightarrow> False)"

definition redact_entry :: "log_entry \<Rightarrow> log_entry" where
  "redact_entry e = (case e_body e of
     BLlm m \<Rightarrow> e\<lparr> e_body := BLlm (m\<lparr> m_parts := filter (\<lambda>p. \<not> is_thinking p) (m_parts m) \<rparr>) \<rparr>
   | _ \<Rightarrow> e)"

definition redact :: "log_filter \<Rightarrow> log_entry list \<Rightarrow> log_entry list" where
  "redact f es = (if \<not> lf_without_thinking f then es else map redact_entry es)"

definition index_of :: "log_entry list \<Rightarrow> nat \<Rightarrow> nat option" where
  "index_of log n = binary_search_by_key e_seq n log"

definition seq_of_id :: "log_entry list \<Rightarrow> string \<Rightarrow> nat option" where
  "seq_of_id log i = map_option e_seq (find (\<lambda>e. log_body_id (e_body e) = Some i) log)"

definition since :: "log_entry list \<Rightarrow> nat \<Rightarrow> log_entry list" where
  "since log after = drop (partition_point (\<lambda>e. e_seq e \<le> after) log) log"

definition page_back :: "log_entry list \<Rightarrow> nat \<Rightarrow> nat \<Rightarrow> log_filter \<Rightarrow> log_entry list" where
  "page_back log stop' max' f = rev (take max' (filter (keeps f) (rev (take stop' log))))"

definition page :: "log_entry list \<Rightarrow> anchor \<Rightarrow> nat \<Rightarrow> log_filter \<Rightarrow> log_entry list" where
  "page log anc max' f = (case anc of
     Tail \<Rightarrow> redact f (page_back log (length log) max' f)
   | Before n \<Rightarrow>
       (case index_of log n of
          None \<Rightarrow> []
        | Some idx \<Rightarrow> redact f (page_back log idx max' f))
   | After n \<Rightarrow> redact f (take max' (filter (keeps f) (since log n))))"

definition log_page_messages :: "log_entry list \<Rightarrow> message list" where
  "log_page_messages es =
     List.map_filter (\<lambda>e. case e_body e of BLlm m \<Rightarrow> Some m | _ \<Rightarrow> None) es"

section \<open>Search\<close>

definition SNIPPET_CHARS :: nat where "SNIPPET_CHARS = 200"

fun str_find :: "string \<Rightarrow> string \<Rightarrow> nat option" where
  "str_find needle [] = (if needle = [] then Some 0 else None)"
| "str_find needle (c # cs) =
     (if prefix needle (c # cs) then Some 0 else map_option Suc (str_find needle cs))"

definition part_text :: "(json \<Rightarrow> string) \<Rightarrow> content_part \<Rightarrow> string" where
  "part_text show_json p = (case p of
     PText t \<Rightarrow> t
   | PThinking t s \<Rightarrow> t
   | PToolResult r \<Rightarrow> tr_output r
   | PSubAgentResult r \<Rightarrow> sr_text r
   | PToolCall c \<Rightarrow> tc_name c @ '' '' @ show_json (tc_input c)
   | PArtifact a \<Rightarrow>
       (case af_filename a of
          Some name \<Rightarrow> name @ '' '' @ af_media_type a
        | None \<Rightarrow> af_media_type a))"

text \<open>\<open>show_body\<close> is the JSON of a hook record, a lifecycle event or a compaction entry.\<close>

definition entry_text :: "(json \<Rightarrow> string) \<Rightarrow> (log_body \<Rightarrow> string) \<Rightarrow> log_entry \<Rightarrow> string" where
  "entry_text show_json show_body e = (case e_body e of
     BLlm m \<Rightarrow> join [nl] (map (part_text show_json) (m_parts m))
   | b \<Rightarrow> show_body b)"

definition ellipsis :: string where "ellipsis = [CHR 0xE2, CHR 0x80, CHR 0xA6]"

text \<open>\<open>None\<close> is the panic of slicing \<open>text[..at]\<close> past the end or inside a character.\<close>

definition snippet :: "string \<Rightarrow> nat \<Rightarrow> string option" where
  "snippet s at_byte =
     (if at_byte > length s \<or> \<not> is_char_boundary s at_byte then None
      else
        (let chars = utf8_chars s;
             at = length (utf8_chars (take at_byte s));
             start = at - SNIPPET_CHARS div 2;
             stop' = min (start + SNIPPET_CHARS) (length chars)
         in Some ((if start > 0 then ellipsis else []) @ concat (drop start (take stop' chars))
                  @ (if stop' < length chars then ellipsis else []))))"

record log_search_hit =
  sh_seq :: nat
  sh_at_ms :: u64
  sh_kind :: log_entry_kind
  sh_snippet :: "string option"

definition search ::
    "(string \<Rightarrow> string) \<Rightarrow> (json \<Rightarrow> string) \<Rightarrow> (log_body \<Rightarrow> string) \<Rightarrow> log_entry list \<Rightarrow> string
       \<Rightarrow> log_filter \<Rightarrow> nat \<Rightarrow> log_search_hit list" where
  "search to_lower show_json show_body log needle f max' =
     take max' (List.map_filter (\<lambda>e.
       let s = entry_text show_json show_body e
       in case str_find (to_lower needle) (to_lower s) of
            None \<Rightarrow> None
          | Some at_byte \<Rightarrow> Some \<lparr> sh_seq = e_seq e, sh_at_ms = e_at_ms e, sh_kind = kind_of e,
              sh_snippet = snippet s at_byte \<rparr>) (filter (keeps f) log))"

section \<open>Replay and forward reads\<close>

definition REPLAY_CAP :: nat where "REPLAY_CAP = 5000"

definition replay_window :: "log_entry list \<Rightarrow> log_entry list \<times> bool" where
  "replay_window log =
     (if length log \<le> REPLAY_CAP then (log, False)
      else (drop (length log - REPLAY_CAP) log, True))"

record replay_window_info =
  rw_has_more_before :: bool
  rw_earliest_seq :: "nat option"

record read_outcome =
  ro_window :: "replay_window_info option"
  ro_entries :: "log_entry list"
  ro_deltas :: "string list"
  ro_reset_deltas :: bool
  ro_cursor :: cursor

definition read_nothing :: "cursor \<Rightarrow> read_outcome" where
  "read_nothing c = \<lparr> ro_window = None, ro_entries = [], ro_deltas = [], ro_reset_deltas = False,
     ro_cursor = c \<rparr>"

definition read_is_empty :: "read_outcome \<Rightarrow> bool" where
  "read_is_empty r \<longleftrightarrow> ro_entries r = [] \<and> ro_deltas r = [] \<and> \<not> ro_reset_deltas r"

definition read_from :: "agent_state \<Rightarrow> cursor option \<Rightarrow> string list \<Rightarrow> read_outcome" where
  "read_from s after deltas = (case after of
     None \<Rightarrow>
       (let (entries, truncated) = replay_window (st_log s)
        in \<lparr> ro_window = Some \<lparr> rw_has_more_before = truncated,
               rw_earliest_seq = (if entries = [] then None else Some (e_seq (hd entries))) \<rparr>,
             ro_entries = entries, ro_deltas = deltas, ro_reset_deltas = False,
             ro_cursor = \<lparr> c_entry_seq = (case tail_seq s of Some t \<Rightarrow> t | None \<Rightarrow> 0),
                           c_delta_seq = length deltas \<rparr> \<rparr>)
   | Some c \<Rightarrow>
       (let entries = since (st_log s) (c_entry_seq c)
        in if entries \<noteq> [] then
             \<lparr> ro_window = None, ro_entries = entries, ro_deltas = [], ro_reset_deltas = False,
               ro_cursor = \<lparr> c_entry_seq = e_seq (last entries), c_delta_seq = 0 \<rparr> \<rparr>
           else if c_delta_seq c > length deltas then
             \<lparr> ro_window = None, ro_entries = [], ro_deltas = deltas, ro_reset_deltas = True,
               ro_cursor = \<lparr> c_entry_seq = c_entry_seq c, c_delta_seq = length deltas \<rparr> \<rparr>
           else if c_delta_seq c = length deltas then read_nothing c
           else
             \<lparr> ro_window = None, ro_entries = [], ro_deltas = drop (c_delta_seq c) deltas,
               ro_reset_deltas = False,
               ro_cursor = \<lparr> c_entry_seq = c_entry_seq c, c_delta_seq = length deltas \<rparr> \<rparr>))"

text \<open>
  One round of the stream (\<open>stream\<close> in \<^verbatim>\<open>crates/server/src/http/messages.rs\<close>): read, send what came
  back, and move the cursor only when something did.
\<close>

definition stream_round ::
    "cursor option \<Rightarrow> agent_state \<Rightarrow> string list \<Rightarrow> log_entry list \<times> cursor option" where
  "stream_round cur s deltas =
     (let out = read_from s cur deltas
      in (ro_entries out, if read_is_empty out then cur else Some (ro_cursor out)))"

section \<open>Cursor round trip\<close>

lemma split_once_append:
  "d \<notin> set xs \<Longrightarrow> split_once d (xs @ d # ys) = Some (xs, ys)"
  "d \<notin> set xs \<Longrightarrow> split_once d xs = None"
  by (induction xs) auto

lemma dot_not_in_show_nat: "CHR ''.'' \<notin> set (show_nat n)"
  using show_nat_digits [of "CHR ''.''" n] by auto

section \<open>The binary searches\<close>

lemma partition_go_correct:
  assumes "lo \<le> k" "k \<le> hi" "hi \<le> length xs"
    and "\<And>i. i < length xs \<Longrightarrow> p (xs ! i) \<longleftrightarrow> i < k"
  shows "partition_go p xs lo hi = k"
  using assms
proof (induction p xs lo hi rule: partition_go.induct)
  case (1 p xs lo hi)
  show ?case
  proof (cases "lo < hi")
    case False
    with 1 show ?thesis by (simp add: partition_go.simps)
  next
    case True
    let ?mid = "(lo + hi) div 2"
    have mid: "lo \<le> ?mid" "?mid < hi" using True by auto
    then have "p (xs ! ?mid) \<longleftrightarrow> ?mid < k" using 1 by simp
    with mid True 1 show ?thesis
      by (subst partition_go.simps) (simp add: Let_def)
  qed
qed

lemma binary_search_go_correct:
  assumes "sorted_wrt (<) (map key xs)" "hi \<le> length xs"
    and "\<And>i. i < length xs \<Longrightarrow> key (xs ! i) = k \<Longrightarrow> lo \<le> i \<and> i < hi"
  shows "binary_search_go key k xs lo hi = position (\<lambda>x. key x = k) xs"
  using assms
proof (induction key k xs lo hi rule: binary_search_go.induct)
  case (1 key k xs lo hi)
  have less: "key (xs ! i) < key (xs ! j)" if "i < j" "j < length xs" for i j
    using "1.prems"(1) that by (auto simp: sorted_wrt_iff_nth_less)
  show ?case
  proof (cases "lo < hi")
    case False
    with 1 have "\<forall>x\<in>set xs. key x \<noteq> k" by (metis in_set_conv_nth leD le_less_trans not_le)
    with False show ?thesis by (subst binary_search_go.simps) (simp add: position_None [THEN iffD2])
  next
    case True
    let ?mid = "(lo + hi) div 2"
    have mid: "lo \<le> ?mid" "?mid < hi" "?mid < length xs" using True "1.prems" by auto
    consider (eq) "key (xs ! ?mid) = k" | (lt) "key (xs ! ?mid) < k" | (gt) "k < key (xs ! ?mid)"
      by linarith
    then show ?thesis
    proof cases
      case eq
      then obtain j where j: "position (\<lambda>x. key x = k) xs = Some j"
        using mid position_None [of "\<lambda>x. key x = k" xs] by (metis nth_mem option.exhaust)
      then have "j < length xs" "key (xs ! j) = k" using position_SomeD by fastforce+
      then have "j = ?mid" using less [of j ?mid] less [of ?mid j] mid eq by (metis nat_neq_iff)
      with j eq True show ?thesis by (subst binary_search_go.simps) (simp add: Let_def)
    next
      case lt
      have "Suc ?mid \<le> i \<and> i < hi" if "i < length xs" "key (xs ! i) = k" for i
        using "1.prems"(3) that less [of i ?mid] mid lt by (metis Suc_leI nat_neq_iff not_less_iff_gr_or_eq)
      with lt True 1 show ?thesis by (subst binary_search_go.simps) (simp add: Let_def)
    next
      case gt
      have "lo \<le> i \<and> i < ?mid" if "i < length xs" "key (xs ! i) = k" for i
        using "1.prems"(3) that less [of ?mid i] mid gt by (metis nat_neq_iff not_less_iff_gr_or_eq)
      with gt True mid 1 show ?thesis by (subst binary_search_go.simps) (simp add: Let_def)
    qed
  qed
qed

lemma index_of_position:
  "log_sorted log \<Longrightarrow> index_of log n = position (\<lambda>e. e_seq e = n) log"
  by (simp add: index_of_def binary_search_by_key_def log_sorted_def binary_search_go_correct)

lemma takeWhile_partition:
  assumes "log_sorted log" "i < length log"
  shows "e_seq (log ! i) \<le> a \<longleftrightarrow> i < length (takeWhile (\<lambda>e. e_seq e \<le> a) log)"
  using assms
proof (induction log arbitrary: i)
  case (Cons e log)
  show ?case
  proof (cases i)
    case (Suc n)
    with Cons.prems have "n < length log" "e_seq e < e_seq (log ! n)" "log_sorted log"
      by (auto simp: log_sorted_def)
    with Cons.IH [of n] Suc show ?thesis by auto
  qed auto
qed simp

lemma since_filter:
  assumes "log_sorted log"
  shows "since log a = filter (\<lambda>e. a < e_seq e) log"
proof -
  let ?p = "\<lambda>e. e_seq e \<le> a"
  have "partition_point ?p log = length (takeWhile ?p log)"
    unfolding partition_point_def
    by (rule partition_go_correct)
      (use takeWhile_partition [OF assms] in \<open>simp_all add: length_takeWhile_le\<close>)
  then have "since log a = dropWhile ?p log"
    by (simp add: since_def dropWhile_eq_drop)
  also have "\<dots> = filter (\<lambda>e. a < e_seq e) log"
    using sorted_key_filter [of e_seq log a] assms by (simp add: log_sorted_def not_less)
  finally show ?thesis .
qed

lemma log_wf_sorted: "log_wf s \<Longrightarrow> log_sorted (st_log s)"
  by (simp add: log_wf_def log_sorted_def)

lemma log_sorted_appendD: "log_sorted (xs @ ys) \<Longrightarrow> log_sorted xs"
  by (simp add: log_sorted_def sorted_wrt_append)

section \<open>Reading on from a cursor\<close>

text \<open>
  What a stream relies on: a read returns exactly the entries above the cursor, so reading on from
  the last entry received, against a log that has grown in between, gives what one later read would
  have given.
\<close>

locale forward_read =
  fixes read_after :: "'e list \<Rightarrow> nat \<Rightarrow> 'e list" and key :: "'e \<Rightarrow> nat" and wf :: "'e list \<Rightarrow> bool"
  assumes read_after_spec: "wf es \<Longrightarrow> read_after es a = filter (\<lambda>e. a < key e) es"
    and wf_sorted: "wf es \<Longrightarrow> sorted_wrt (<) (map key es)"
    and wf_prefix: "wf (es @ fs) \<Longrightarrow> wf es"
begin

lemma read_is_suffix: "wf es \<Longrightarrow> suffix (read_after es a) es"
  by (simp add: read_after_spec sorted_key_filter wf_sorted suffix_dropWhile)

lemma read_on:
  assumes "wf (es @ fs)" "read_after es a \<noteq> []"
  shows "read_after es a @ read_after (es @ fs) (key (last (read_after es a))) = read_after (es @ fs) a"
proof -
  let ?l = "last (read_after es a)"
  have wf: "wf es" using assms(1) by (rule wf_prefix)
  have "es \<noteq> []" using assms(2) wf by (auto simp: read_after_spec)
  have last: "?l = last es"
    using read_is_suffix [OF wf] assms(2) by (metis last_appendR suffix_def)
  have "\<forall>e\<in>set es. key e \<le> key ?l"
    using sorted_key_last [OF wf_sorted [OF wf]] last by simp
  moreover have "\<forall>f\<in>set fs. key ?l < key f"
    using wf_sorted [OF assms(1)] \<open>es \<noteq> []\<close> last by (simp add: sorted_wrt_append)
  moreover have above: "a < key ?l"
    using last_in_set [OF assms(2)] wf by (simp add: read_after_spec)
  ultimately have "filter (\<lambda>e. key ?l < key e) (es @ fs) = fs"
    and "filter (\<lambda>e. a < key e) fs = fs"
    by (auto simp: filter_id_conv filter_empty_conv intro: less_trans [OF above])
  with wf assms(1) show ?thesis by (simp add: read_after_spec)
qed

end

interpretation log_read: forward_read since e_seq log_sorted
  by unfold_locales (auto simp: since_filter log_sorted_appendD, simp add: log_sorted_def)

section \<open>Properties\<close>

text \<open>
  C32: A cursor survives its trip through the wire: parsing what a 64-bit cursor displays as gives the
  cursor back, with or without a position inside a message being written.\<close>

theorem cursor_round_trip:
  assumes "c_entry_seq c < 2 ^ 64" "c_delta_seq c < 2 ^ 64"
  shows "cursor_parse (cursor_display c) = Some c"
  using assms
  by (simp add: cursor_parse_def cursor_display_def split_once_append dot_not_in_show_nat
      parse_uint_show_nat U64_LIMIT_def)

theorem cursor_round_trip_witness:
  "cursor_parse (cursor_display \<lparr> c_entry_seq = 12, c_delta_seq = 3 \<rparr>) = Some \<lparr> c_entry_seq = 12, c_delta_seq = 3 \<rparr>"
  by (rule cursor_round_trip) simp_all

lemma sorted_take_position:
  assumes "log_sorted log" "position (\<lambda>e. e_seq e = n) log = Some i"
  shows "take i log = filter (\<lambda>e. e_seq e < n) log"
proof -
  have i: "i < length log" "e_seq (log ! i) = n" using position_SomeD [OF assms(2)] by auto
  have less: "e_seq (log ! j) < e_seq (log ! k)" if "j < k" "k < length log" for j k
    using assms(1) that by (auto simp: log_sorted_def sorted_wrt_iff_nth_less)
  have "\<forall>e\<in>set (take i log). e_seq e < n" using i less by (auto simp: in_set_conv_nth)
  moreover have "\<not> e_seq e < n" if "e \<in> set (drop i log)" for e
  proof -
    from that obtain j where "j < length log - i" "e = log ! (i + j)" by (auto simp: in_set_conv_nth)
    then have "i + j < length log" by simp
    with \<open>e = log ! (i + j)\<close> show ?thesis using i less [of i "i + j"] by (cases j) auto
  qed
  ultimately have "filter (\<lambda>e. e_seq e < n) (take i log @ drop i log) = take i log"
    unfolding filter_append by (simp add: filter_id_conv filter_empty_conv)
  then show ?thesis by simp
qed

text \<open>
  The binary searches behind a page of history return what reading the whole log would: the last
  entries that pass the filter, those before a given entry, none when that entry is not there, or the first
  ones after a given number.\<close>

theorem page_is_a_linear_scan:
  assumes "log_sorted log"
  shows "page log anc n f = redact f (case anc of
      Tail \<Rightarrow> rev (take n (rev (filter (keeps f) log)))
    | Before k \<Rightarrow> (if k \<in> e_seq ` set log then rev (take n (rev (filter (\<lambda>e. keeps f e \<and> e_seq e < k) log))) else [])
    | After k \<Rightarrow> take n (filter (\<lambda>e. keeps f e \<and> k < e_seq e) log))"
proof (cases anc)
  case Tail
  then show ?thesis by (simp add: page_def page_back_def rev_filter)
next
  case (After k)
  then show ?thesis by (simp add: page_def since_filter [OF assms] conj_commute)
next
  case (Before k)
  show ?thesis
  proof (cases "position (\<lambda>e. e_seq e = k) log")
    case None
    then have "k \<notin> e_seq ` set log" by (auto simp: position_None)
    with Before None show ?thesis by (simp add: page_def index_of_position [OF assms] redact_def)
  next
    case (Some i)
    then have "k \<in> e_seq ` set log" using position_SomeD [OF Some] by force
    with Before Some show ?thesis
      by (simp add: page_def page_back_def index_of_position [OF assms] rev_filter conj_commute
          sorted_take_position [OF assms Some])
  qed
qed

theorem page_is_a_linear_scan_witness:
  "page (st_log sample_talk) (Before 1) 5 everything = redact everything (rev (take 5 (rev (filter (\<lambda>e. keeps everything e \<and> e_seq e < 1) (st_log sample_talk)))))"
proof -
  have "log_sorted (st_log sample_talk)" using sample_talk_wf log_wf_sorted by (simp add: state_wf_def)
  moreover have "1 \<in> set (map e_seq (st_log sample_talk))" by code_simp
  ultimately show ?thesis using page_is_a_linear_scan [of "st_log sample_talk" "Before 1" 5 everything] by simp
qed

text \<open>A stream: one round after another, each against the state of that moment.\<close>

fun stream_run :: "cursor option \<Rightarrow> (agent_state \<times> string list) list \<Rightarrow> log_entry list \<times> cursor option" where
  "stream_run cur [] = ([], cur)"
| "stream_run cur ((s, deltas) # obs) =
     (case stream_round cur s deltas of (es, cur') \<Rightarrow>
        (case stream_run cur' obs of (es', cur'') \<Rightarrow> (es @ es', cur'')))"

lemma stream_round_Some:
  "\<exists>c'. stream_round (Some c) s deltas = (since (st_log s) (c_entry_seq c), Some c') \<and>
     c_entry_seq c' = (if since (st_log s) (c_entry_seq c) = [] then c_entry_seq c
                       else e_seq (last (since (st_log s) (c_entry_seq c))))"
  by (simp add: stream_round_def read_from_def read_is_empty_def read_nothing_def Let_def)

text \<open>
  C17: A live stream neither skips nor repeats an entry. However the log grows between the rounds and
  whatever deltas come and go, what the rounds delivered followed by what is still ahead of the cursor is
  exactly what was ahead of it at the start.\<close>

theorem stream_delivers_each_entry_once:
  assumes "log_sorted log" "\<forall>(s, deltas)\<in>set obs. prefix (st_log s) log"
    "stream_run (Some c) obs = (es, cur)"
  shows "\<exists>c'. cur = Some c' \<and> es @ since log (c_entry_seq c') = since log (c_entry_seq c)"
  using assms(2,3)
proof (induction obs arbitrary: c es)
  case (Cons p obs)
  obtain s deltas where p: "p = (s, deltas)" by fastforce
  obtain c1 where r: "stream_round (Some c) s deltas = (since (st_log s) (c_entry_seq c), Some c1)"
    and c1: "c_entry_seq c1 = (if since (st_log s) (c_entry_seq c) = [] then c_entry_seq c
                       else e_seq (last (since (st_log s) (c_entry_seq c))))"
    using stream_round_Some by blast
  obtain es' where run: "stream_run (Some c1) obs = (es', cur)" and es: "es = since (st_log s) (c_entry_seq c) @ es'"
    using Cons.prems(2) p r by (auto split: prod.splits)
  obtain c' where c': "cur = Some c'" "es' @ since log (c_entry_seq c') = since log (c_entry_seq c1)"
    using Cons.IH [OF _ run] Cons.prems(1) by auto
  obtain fs where log: "log = st_log s @ fs" using Cons.prems(1) p by (auto simp: prefix_def)
  have "since (st_log s) (c_entry_seq c) @ since log (c_entry_seq c1) = since log (c_entry_seq c)"
    using log_read.read_on [of "st_log s" fs "c_entry_seq c"] assms(1) c1 log by (cases "since (st_log s) (c_entry_seq c) = []") auto
  with c' es show ?case by auto
qed auto

theorem stream_delivers_each_entry_once_witness:
  "\<exists>c'. snd (stream_run (Some \<lparr> c_entry_seq = 0, c_delta_seq = 0 \<rparr>) [(agent_state_default, [''d'']), (sample_talk, [])]) = Some c' \<and>
     fst (stream_run (Some \<lparr> c_entry_seq = 0, c_delta_seq = 0 \<rparr>) [(agent_state_default, [''d'']), (sample_talk, [])])
       @ since (st_log sample_talk) (c_entry_seq c') = since (st_log sample_talk) 0"
proof -
  let ?c = "\<lparr> c_entry_seq = 0, c_delta_seq = 0 \<rparr>" and ?obs = "[(agent_state_default, [''d'']), (sample_talk, [])]"
  have "log_sorted (st_log sample_talk)" using sample_talk_wf log_wf_sorted by (simp add: state_wf_def)
  moreover have "\<forall>(s, deltas)\<in>set ?obs. prefix (st_log s) (st_log sample_talk)"
    by (simp add: agent_state_default_def)
  ultimately show ?thesis
    using stream_delivers_each_entry_once [of "st_log sample_talk" ?obs ?c "fst (stream_run (Some ?c) ?obs)"
        "snd (stream_run (Some ?c) ?obs)"] by simp
qed

text \<open>
  A client that arrives without a cursor is sent the newest 5000 entries at most, all of them when there
  are no more, told whether older ones exist, and given the cursor of the newest, so its next read starts
  right behind.\<close>

theorem first_read_is_the_newest_window:
  assumes "log_wf s"
  shows "suffix (ro_entries (read_from s None deltas)) (st_log s) \<and>
    length (ro_entries (read_from s None deltas)) = min (st_next_seq s) 5000 \<and>
    map_option rw_has_more_before (ro_window (read_from s None deltas)) = Some (5000 < st_next_seq s) \<and>
    (st_log s \<noteq> [] \<longrightarrow> since (st_log s) (c_entry_seq (ro_cursor (read_from s None deltas))) = [])"
proof -
  have len: "length (st_log s) = st_next_seq s" using assms by (rule log_wf_length)
  have "since (st_log s) (e_seq (last (st_log s))) = []" if "st_log s \<noteq> []"
    using sorted_key_last [of e_seq "st_log s"] log_wf_sorted [OF assms] that
    by (auto simp: since_filter filter_empty_conv log_sorted_def not_less)
  with len show ?thesis
    by (auto simp: read_from_def replay_window_def REPLAY_CAP_def tail_seq_def suffix_drop Let_def)
qed

theorem first_read_is_the_newest_window_witness:
  "length (ro_entries (read_from sample_talk None [])) = 2"
proof -
  have "st_next_seq sample_talk = 2" by code_simp
  then show ?thesis using first_read_is_the_newest_window [of sample_talk "[]"] sample_talk_wf by (simp add: state_wf_def)
qed

text \<open>
  A search can panic. The match is found in the lower-cased text but the snippet is sliced out of the
  original at that byte, and lower-casing can lengthen a text: two capital dotted I before the match are
  enough to point past the end of the original.\<close>

theorem search_can_panic:
  assumes "to_lower [CHR 0xC4, CHR 0xB0, CHR 0xC4, CHR 0xB0, CHR ''x''] =
      [CHR ''i'', CHR 0xCC, CHR 0x87, CHR ''i'', CHR 0xCC, CHR 0x87, CHR ''x'']"
    "to_lower ''x'' = ''x''"
    "e_body e = BLlm (message_user i [CHR 0xC4, CHR 0xB0, CHR 0xC4, CHR 0xB0, CHR ''x''] at)"
  shows "map sh_snippet (search to_lower sj sb [e] ''x'' everything 10) = [None]"
  using assms
  by (simp add: search_def entry_text_def message_user_def part_text_def everything_def keeps_def snippet_def
      map_filter_simps Let_def)

definition sample_lower :: "string \<Rightarrow> string" where
  "sample_lower s = concat (map (\<lambda>c. if c = CHR 0xC4 then [CHR ''i'', CHR 0xCC] else if c = CHR 0xB0 then [CHR 0x87] else [c]) s)"

theorem search_can_panic_witness:
  "map sh_snippet (search sample_lower (\<lambda>_. []) (\<lambda>_. []) [\<lparr> e_seq = 0, e_at_ms = 0,
     e_body = BLlm (message_user ''m'' [CHR 0xC4, CHR 0xB0, CHR 0xC4, CHR 0xB0, CHR ''x''] 0) \<rparr>] ''x'' everything 10) = [None]"
  by (rule search_can_panic) (simp_all add: sample_lower_def)

end
