(* ===== verification/Carried_State.thy ===== *)
theory Carried_State
  imports Agent_State
begin

text \<open>
  The exact facts a compaction carries across verbatim, rendered from state
  (\<^verbatim>\<open>crates/server/src/agent_loop/carried_state.rs\<close>), and the agent's own view of the work it
  delegated: the newest lifecycle entry of a child is its current status.
\<close>

definition sub_agent_entry :: "log_entry \<Rightarrow> (string \<times> string \<times> string) option" where
  "sub_agent_entry e = (case e_body e of BLifecycle (LSubAgent i title status) \<Rightarrow> Some (i, title, status)
     | _ \<Rightarrow> None)"

text \<open>The \<open>BTreeMap\<close> of the newest record per id, as its ascending list of keys and a lookup.\<close>

definition latest_status :: "log_entry list \<Rightarrow> string \<Rightarrow> (string \<times> string) option" where
  "latest_status log i =
     find_map (\<lambda>e. case sub_agent_entry e of
        Some (j, title, status) \<Rightarrow> if j = i then Some (title, status) else None
      | None \<Rightarrow> None) (rev log)"

definition child_ids :: "log_entry list \<Rightarrow> string list" where
  "child_ids log = sort (remdups (map fst (List.map_filter sub_agent_entry log)))"

definition running_children :: "agent_state \<Rightarrow> (string \<times> string) list" where
  "running_children s =
     List.map_filter (\<lambda>i. case latest_status (st_log s) i of
        Some (title, status) \<Rightarrow> if status = ''running'' then Some (i, title) else None
      | None \<Rightarrow> None) (child_ids (st_log s))"

definition has_outstanding_children :: "agent_state \<Rightarrow> bool" where
  "has_outstanding_children s \<longleftrightarrow> running_children s \<noteq> []"

definition render_timer :: "timer_record \<Rightarrow> string" where
  "render_timer t = [nl] @ ''- '' @ tm_id t @ '' ('' @ tm_label t @ '') fires at ''
     @ show_nat (unat (tm_fire_at_unix_ms t)) @ ''ms: ''
     @ (if tm_message t = [] then ''(no message)'' else tm_message t)"

definition render_ask :: "asked_question \<Rightarrow> string" where
  "render_ask a = [nl] @ ''- ['' @ (case aq_call_id a of Some c \<Rightarrow> c | None \<Rightarrow> ''unknown call'') @ ''] ''
     @ aq_question a"

definition render_child :: "string \<times> string \<Rightarrow> string" where
  "render_child c = [nl] @ ''- '' @ fst c @ '' ('' @ snd c @ '')''"

definition carried_sections :: "agent_state \<Rightarrow> string list" where
  "carried_sections s =
     (if tl_tasks (st_task_list s) \<noteq> [] then [render (st_task_list s)] else [])
     @ (if st_timers s \<noteq> [] then [''Armed timers:'' @ concat (map render_timer (st_timers s))] else [])
     @ (if st_asks s \<noteq> []
        then [''Questions you are waiting on an answer to:'' @ concat (map render_ask (st_asks s))]
        else [])
     @ (if running_children s \<noteq> []
        then [''Delegated work still running:'' @ concat (map render_child (running_children s))]
        else [])"

definition render_carried_state :: "agent_state \<Rightarrow> string" where
  "render_carried_state s = join [nl, nl] (carried_sections s)"

section \<open>Lemmas\<close>

lemma sublist_concat: "x \<in> set xs \<Longrightarrow> sublist x (concat xs)"
  by (induction xs) (auto intro: sublist_order.order_trans simp: sublist_append_leftI)

lemma carried_section:
  "t \<in> set (carried_sections s) \<Longrightarrow> sublist t (render_carried_state s)"
  by (simp add: render_carried_state_def join_sublist)

lemma carried_timer:
  assumes "t \<in> set (st_timers s)"
  shows "sublist (render_timer t) (render_carried_state s)"
proof -
  let ?sec = "''Armed timers:'' @ concat (map render_timer (st_timers s))"
  have "sublist (render_timer t) (concat (map render_timer (st_timers s)))"
    using assms by (intro sublist_concat) simp
  also have "sublist \<dots> ?sec" by (rule sublist_append_leftI)
  also have "sublist ?sec (render_carried_state s)"
    using assms by (intro carried_section) (auto simp: carried_sections_def)
  finally show ?thesis .
qed

lemma carried_ask:
  assumes "a \<in> set (st_asks s)"
  shows "sublist (render_ask a) (render_carried_state s)"
proof -
  let ?sec = "''Questions you are waiting on an answer to:'' @ concat (map render_ask (st_asks s))"
  have "sublist (render_ask a) (concat (map render_ask (st_asks s)))"
    using assms by (intro sublist_concat) simp
  also have "sublist \<dots> ?sec" by (rule sublist_append_leftI)
  also have "sublist ?sec (render_carried_state s)"
    using assms by (intro carried_section) (auto simp: carried_sections_def)
  finally show ?thesis .
qed

lemma carried_tasks:
  assumes "tl_tasks (st_task_list s) \<noteq> []"
  shows "sublist (render (st_task_list s)) (render_carried_state s)"
  using assms by (intro carried_section) (simp add: carried_sections_def)

lemma render_carried_state_Nil:
  "tl_tasks (st_task_list s) = [] \<Longrightarrow> st_timers s = [] \<Longrightarrow> st_asks s = [] \<Longrightarrow>
     running_children s = [] \<Longrightarrow> render_carried_state s = []"
  by (simp add: render_carried_state_def carried_sections_def)

lemma latest_status_append:
  "latest_status (log @ [e]) i =
     (case sub_agent_entry e of
        Some (j, title, status) \<Rightarrow> if j = i then Some (title, status) else latest_status log i
      | None \<Rightarrow> latest_status log i)"
  by (auto simp: latest_status_def split: option.splits)

lemma latest_status_id:
  "latest_status log i = Some x \<Longrightarrow> i \<in> set (child_ids log)"
proof (induction log rule: rev_induct)
  case Nil
  then show ?case by (simp add: latest_status_def)
next
  case (snoc e log)
  then show ?case
    by (cases "sub_agent_entry e") (auto simp: latest_status_append child_ids_def map_filter_simps
        split: if_splits)
qed

lemma running_children_iff:
  "(i, title) \<in> set (running_children s) \<longleftrightarrow> latest_status (st_log s) i = Some (title, ''running'')"
  using latest_status_id [of "st_log s" i]
  by (auto simp: running_children_def set_map_filter split: option.splits if_splits
      intro!: bexI [of _ i])

section \<open>Properties\<close>

text \<open>
  What a compaction carries over the cut is complete: the text contains the rendering of the task list
  when there are tasks, of every armed timer and of every pending question. A subagent counts as running exactly when the last the log says of it is that it runs.\<close>

theorem carried_state_is_complete:
  "(tl_tasks (st_task_list s) \<noteq> [] \<longrightarrow> sublist (render (st_task_list s)) (render_carried_state s)) \<and>
   (\<forall>t\<in>set (st_timers s). sublist (render_timer t) (render_carried_state s)) \<and>
   (\<forall>q\<in>set (st_asks s). sublist (render_ask q) (render_carried_state s)) \<and>
   ((i, title) \<in> set (running_children s) \<longleftrightarrow> latest_status (st_log s) i = Some (title, ''running''))"
  using carried_tasks carried_timer carried_ask running_children_iff by blast

theorem carried_state_is_complete_witness:
  "sublist (render_ask \<lparr> aq_call_id = None, aq_question = ''which?'', aq_choices = [], aq_multiple = False \<rparr>)
     (render_carried_state (agent_state_default\<lparr> st_asks :=
        [\<lparr> aq_call_id = None, aq_question = ''which?'', aq_choices = [], aq_multiple = False \<rparr>] \<rparr>))"
  using carried_state_is_complete [of "agent_state_default\<lparr> st_asks :=
        [\<lparr> aq_call_id = None, aq_question = ''which?'', aq_choices = [], aq_multiple = False \<rparr>] \<rparr>" undefined undefined]
  by simp

end
