(* ===== verification/Agent_Actor.thy ===== *)
theory Agent_Actor
  imports Agent_Run Agent_Log Carried_State
begin

text \<open>
  The agent actor's command handlers (\<^verbatim>\<open>crates/server/src/agent_loop/agent_actor\<close>): \<^verbatim>\<open>queue.rs\<close>, \<^verbatim>\<open>run.rs\<close>,
  \<^verbatim>\<open>conclude.rs\<close>, \<^verbatim>\<open>timers.rs\<close>, \<^verbatim>\<open>task_list.rs\<close>, \<^verbatim>\<open>log.rs\<close>, \<^verbatim>\<open>seed.rs\<close>, \<^verbatim>\<open>reads.rs\<close>, \<^verbatim>\<open>mod.rs\<close>.
  A handler takes the actor's in-memory part, the folded state and a command, and returns the new
  in-memory part, what it sent out (\<open>outgoing\<close>: outcomes to the parent, spawned tasks, sleeps, self-sends and
  replies, in order) and the effect for the actor runtime: events to persist, and whether to snapshot or
  stop. The clock and fresh ids come in \<open>io\<close>; the actor runtime itself (\<^verbatim>\<open>horsie_actor\<close>) is a dependency.
\<close>

section \<open>Data\<close>

record agent_params =
  ap_requires_result :: bool
  ap_interactive :: bool
  ap_park_on_outstanding_work :: bool

datatype tool_choice = ChoiceAuto | ChoiceAny | ChoiceRequired string

datatype agent_outcome =
    Started uuid
  | Interrupted uuid
  | Concluded uuid json
  | Asked uuid "asked_question list"
  | OutParked uuid
  | OutFailed uuid string bool bool
  | UsageRecorded uuid usage_total u32 efficiency_stats
  | OutSeedSummary uuid "uuid list" "string + string"

datatype start_source = Startup | Resume

record start_turn =
  sx_source :: "start_source option"
  sx_prompt :: "string option"

record context_error =
  xe_message :: string
  xe_terminal :: bool

datatype abandoned_start = Blocked string | FailedStart context_error

record prepared_start =
  ps_turn :: turn
  ps_records :: "hook_record list"
  ps_abandon :: "abandoned_start option"

record turn_preparation =
  prep_records :: "hook_record list"
  prep_message :: "string option"

record run_request =
  rr_id :: nat
  rr_input :: agent_input
  rr_history :: "message list"
  rr_context_tokens :: u32
  rr_summarise :: "summarise option"
  rr_summarise_only :: bool
  rr_tool_choice :: "tool_choice option"

record run_report =
  rp_run_id :: nat
  rp_outcome :: run_outcome
  rp_seed_summary :: "seed_summary option"

datatype read_command =
    ReadLog "cursor option"
  | PageLog anchor nat log_filter
  | SearchLog string nat log_filter
  | SeqOfId string
  | LogHead
  | GetUsage
  | GetState
  | GetCarriedState

text \<open>A reply channel is named by a number.\<close>

datatype agent_command =
    Enqueue incoming "nat option"
  | Answer "ask_answer list"
  | Drain
  | StartPrepared prepared_start
  | CancelRun "nat option"
  | PersistProgress "agent_event list" "nat option"
  | RunFinished run_report
  | ArmTimer string string timer_kind u64
  | ListTimers
  | CancelTimer cancel_selector
  | FireTimer string
  | TaskListOp task_list_action
  | Read read_command
  | RecordLifecycle lifecycle_event u64
  | RecordDelta string
  | HooksRan "hook_record list"
  | Snapshot nat
  | SeedFrom agent_state "message option" incoming nat
  | Shutdown

datatype reply =
    RpAnswer "answer_error option"
  | RpTimerId string
  | RpTimers "timer_view list"
  | RpCancelled "string list"
  | RpTaskList "string + string"
  | RpRead read_outcome
  | RpPage "log_entry list"
  | RpHits "log_search_hit list"
  | RpSeq "nat option"
  | RpHead nat
  | RpUsage agent_usage_snapshot
  | RpState agent_state_view
  | RpCarried string
  | RpSnapshot agent_state
  | RpSeeded nat

datatype outgoing =
    Deliver agent_outcome
  | SpawnPrepare start_turn turn
  | SpawnRun run_request
  | FireCancelToken nat
  | AckCancel nat
  | Sleep string nat
  | TellSelf agent_command
  | Reply reply

record actor =
  ac_journal_id :: uuid
  ac_params :: agent_params
  ac_has_start_hooks :: bool
  ac_running :: "nat option"
  ac_events_since_snapshot :: nat
  ac_next_run_id :: nat
  ac_ready :: bool
  ac_pending_tool_choice :: "tool_choice option"
  ac_preparing :: bool
  ac_start_hook_fired :: bool
  ac_cancel_acks :: "nat list"
  ac_deltas :: "string list"
  ac_revision :: nat

record effect =
  fx_events :: "agent_event list"
  fx_ack :: "nat option"
  fx_snapshot :: bool
  fx_stop :: bool

record io =
  io_now :: u64
  io_fresh :: "nat \<Rightarrow> string"
  io_to_lower :: "string \<Rightarrow> string"
  io_show_json :: "json \<Rightarrow> string"
  io_show_body :: "log_body \<Rightarrow> string"

definition fx_none :: effect where
  "fx_none = \<lparr> fx_events = [], fx_ack = None, fx_snapshot = False, fx_stop = False \<rparr>"

definition persist :: "agent_event list \<Rightarrow> effect" where
  "persist evs = fx_none\<lparr> fx_events := evs \<rparr>"

type_synonym handled = "actor \<times> outgoing list \<times> effect"

definition actor_new :: "uuid \<Rightarrow> agent_params \<Rightarrow> bool \<Rightarrow> bool \<Rightarrow> actor" where
  "actor_new jid params has_hooks ready = \<lparr> ac_journal_id = jid, ac_params = params,
     ac_has_start_hooks = has_hooks, ac_running = None, ac_events_since_snapshot = 0,
     ac_next_run_id = 0, ac_ready = ready, ac_pending_tool_choice = None, ac_preparing = False,
     ac_start_hook_fired = False, ac_cancel_acks = [], ac_deltas = [], ac_revision = 0 \<rparr>"

definition SNAPSHOT_EVERY_EVENTS :: nat where "SNAPSHOT_EVERY_EVENTS = 200"

definition ASK_USER_TOOL :: string where "ASK_USER_TOOL = ''ask_user''"

definition SUBMIT_RESULT_TOOL :: string where "SUBMIT_RESULT_TOOL = ''submit_result''"

definition MAX_RESULT_NUDGES :: u32 where "MAX_RESULT_NUDGES = 2"

section \<open>Lifetime\<close>

definition busy :: "actor \<Rightarrow> bool" where
  "busy a \<longleftrightarrow> ac_running a \<noteq> None \<or> ac_preparing a"

definition snapshot_due :: "actor \<Rightarrow> actor \<times> bool" where
  "snapshot_due a =
     (if ac_events_since_snapshot a < SNAPSHOT_EVERY_EVENTS then (a, False)
      else (a\<lparr> ac_events_since_snapshot := 0 \<rparr>, True))"

definition persist_maybe_snapshot :: "actor \<Rightarrow> agent_event list \<Rightarrow> actor \<times> effect" where
  "persist_maybe_snapshot a evs =
     (case snapshot_due a of (a', due) \<Rightarrow> (a', (persist evs)\<lparr> fx_snapshot := due \<rparr>))"

definition publish_revision :: "actor \<Rightarrow> actor" where
  "publish_revision a = a\<lparr> ac_revision := Suc (ac_revision a) \<rparr>"

definition on_events_persisted :: "actor \<Rightarrow> agent_event list \<Rightarrow> actor" where
  "on_events_persisted a evs =
     publish_revision (a\<lparr> ac_events_since_snapshot := ac_events_since_snapshot a + length evs,
       ac_deltas := (if list_ex coarse_appends_an_entry evs then [] else ac_deltas a) \<rparr>)"

section \<open>Starting a run\<close>

definition start_run ::
    "actor \<Rightarrow> agent_input \<Rightarrow> message list \<Rightarrow> u32 \<Rightarrow> summarise option \<Rightarrow> bool \<Rightarrow> actor \<times> outgoing list" where
  "start_run a input history ctx summ only =
     (a\<lparr> ac_next_run_id := Suc (ac_next_run_id a), ac_running := Some (ac_next_run_id a),
         ac_pending_tool_choice := None \<rparr>,
      [SpawnRun \<lparr> rr_id = ac_next_run_id a, rr_input = input, rr_history = history,
         rr_context_tokens = ctx, rr_summarise = summ, rr_summarise_only = only,
         rr_tool_choice = ac_pending_tool_choice a \<rparr>])"

definition hook_events :: "nat \<Rightarrow> u64 \<Rightarrow> hook_record list \<Rightarrow> agent_event list" where
  "hook_events n at rs = map (\<lambda>(i, r). HookRan r i at) (zip [n ..< n + length rs] rs)"

definition summarise_only :: "turn \<Rightarrow> bool" where
  "summarise_only t \<longleftrightarrow> t_summarise t \<noteq> None \<and> t_message t = None \<and> t_subagent_results t = [] \<and> t_results t = []"

definition starts_a_user_turn :: "turn \<Rightarrow> bool" where
  "starts_a_user_turn t \<longleftrightarrow> t_message t \<noteq> None \<or> t_subagent_results t \<noteq> []"

definition turn_input :: "string \<Rightarrow> turn \<Rightarrow> agent_input" where
  "turn_input fresh t =
     (if starts_a_user_turn t
      then user_message_with_results fresh (case t_message t of Some m \<Rightarrow> m | None \<Rightarrow> [])
             (t_subagent_results t) (t_artifacts t)
      else input_tool_results (t_results t))"

text \<open>The results that precede a user message, as the message that records them.\<close>

definition recorded_results :: "u64 \<Rightarrow> turn \<Rightarrow> message list" where
  "recorded_results now t =
     (if starts_a_user_turn t \<and> t_results t \<noteq> []
      then [to_message (input_tool_results (t_results t)) now] else [])"

definition abandon_report :: "uuid \<Rightarrow> abandoned_start \<Rightarrow> agent_outcome" where
  "abandon_report jid ab = (case ab of
     Blocked reason \<Rightarrow> OutFailed jid reason False False
   | FailedStart e \<Rightarrow> OutFailed jid (xe_message e) True (xe_terminal e))"

definition start_prepared ::
    "actor \<Rightarrow> prepared_start \<Rightarrow> agent_state \<Rightarrow> io \<Rightarrow> actor \<times> outgoing list \<times> agent_event list" where
  "start_prepared a prepared s i =
     (let t = ps_turn prepared;
          hooks = hook_events (hook_entry_count s) (io_now i) (ps_records prepared);
          folded = foldl apply_event s hooks
      in case ps_abandon prepared of
           Some ab \<Rightarrow> (a, [Deliver (abandon_report (ac_journal_id a) ab)], hooks)
         | None \<Rightarrow>
             (let answering = set (map ri_call_id (t_results t));
                  history = repair_unanswered_tool_calls_except (prompt_messages folded) answering (io_now i);
                  recorded = recorded_results (io_now i) t;
                  input = turn_input (io_fresh i 0) t;
                  events = hooks @ map InputMessage recorded
                    @ (if summarise_only t then [] else [InputMessage (to_message input (io_now i))]);
                  (a', out) = start_run a input (history @ recorded) (st_context_tokens folded)
                    (t_summarise t) (summarise_only t)
              in (a', out, events)))"

section \<open>The queue\<close>

definition start_turn_of :: "actor \<Rightarrow> agent_state \<Rightarrow> turn \<Rightarrow> start_turn" where
  "start_turn_of a s t = \<lparr>
     sx_source = (if ac_start_hook_fired a then None
                  else Some (if has_run s then Resume else Startup)),
     sx_prompt = t_message t \<rparr>"

definition begin_turn ::
    "actor \<Rightarrow> turn \<Rightarrow> agent_state \<Rightarrow> io \<Rightarrow> actor \<times> outgoing list \<times> agent_event list" where
  "begin_turn a t s i =
     (let began = TurnBegan (t_consumed t) (t_answered t) (io_now i);
          started = Deliver (Started (ac_journal_id a));
          start = start_turn_of a s t;
          nothing_due = sx_source start = None \<and> sx_prompt start = None
      in if nothing_due \<or> \<not> ac_has_start_hooks a then
           (case start_prepared a \<lparr> ps_turn = t, ps_records = [], ps_abandon = None \<rparr> s i of
              (a', out, evs) \<Rightarrow> (a', started # out, began # evs))
         else
           (a\<lparr> ac_preparing := True, ac_start_hook_fired := True \<rparr>,
            [started, SpawnPrepare start t], [began]))"

text \<open>What the spawned prepare task sends back, given what the provider's start hooks answered.\<close>

definition prepare_result :: "turn \<Rightarrow> context_error + turn_preparation \<Rightarrow> prepared_start" where
  "prepare_result t r = (case r of
     Inr prep \<Rightarrow> \<lparr> ps_turn = t\<lparr> t_message := (case prep_message prep of Some m \<Rightarrow> Some m | None \<Rightarrow> t_message t) \<rparr>,
       ps_records = prep_records prep,
       ps_abandon = map_option Blocked (start_blocked (prep_records prep)) \<rparr>
   | Inl e \<Rightarrow> \<lparr> ps_turn = t, ps_records = [], ps_abandon = Some (FailedStart e) \<rparr>)"

definition try_drain ::
    "actor \<Rightarrow> agent_state \<Rightarrow> io \<Rightarrow> actor \<times> outgoing list \<times> agent_event list" where
  "try_drain a s i =
     (if busy a \<or> \<not> ac_ready a then (a, [], [])
      else case queued_turn (st_inbox s) (st_asks s) of
             Some t \<Rightarrow> begin_turn a t s i
           | None \<Rightarrow> (a, [], []))"

definition queue_handle :: "actor \<Rightarrow> agent_state \<Rightarrow> agent_command \<Rightarrow> io \<Rightarrow> handled" where
  "queue_handle a s cmd i = (case cmd of
     Enqueue item ack \<Rightarrow>
       (a, [TellSelf Drain], (persist [Received item (io_now i)])\<lparr> fx_ack := ack \<rparr>)
   | Drain \<Rightarrow> (case try_drain a s i of (a', out, evs) \<Rightarrow> (a', out, persist evs))
   | Answer answers \<Rightarrow>
       if busy a then (a, [Reply (RpAnswer (Some NothingPending))], fx_none)
       else (case answered_turn (st_inbox s) (st_asks s) answers of
               Inr t \<Rightarrow>
                 (case begin_turn a t s i of
                    (a', out, evs) \<Rightarrow> (a', Reply (RpAnswer None) # out, persist evs))
             | Inl e \<Rightarrow> (a, [Reply (RpAnswer (Some e))], fx_none))
   | StartPrepared prepared \<Rightarrow>
       (case start_prepared (a\<lparr> ac_preparing := False \<rparr>) prepared s i of
          (a', out, evs) \<Rightarrow> (a', out, persist evs))
   | _ \<Rightarrow> (a, [], fx_none))"

section \<open>Concluding a run\<close>

datatype conclusion = ConcOutput json | ConcAsk "asked_question list" | ConcContradiction "stopped_call list"

definition asked_of :: "stopped_call \<Rightarrow> asked_question" where
  "asked_of c = \<lparr> aq_call_id = Some (sc_call_id c),
     aq_question = (case get_str (sc_input c) ''question'' of Some q \<Rightarrow> q | None \<Rightarrow> []),
     aq_choices = (case json_get (sc_input c) ''choices'' of
         Some (JArray vs) \<Rightarrow> List.map_filter json_as_str vs
       | _ \<Rightarrow> []),
     aq_multiple = (case Option.bind (json_get (sc_input c) ''multiple'') json_as_bool of
         Some b \<Rightarrow> b | None \<Rightarrow> False) \<rparr>"

definition interpret_calls :: "stopped_call list \<Rightarrow> conclusion" where
  "interpret_calls calls =
     (if calls = [] then ConcOutput JNull
      else if list_all (\<lambda>c. sc_tool c = ASK_USER_TOOL) calls then ConcAsk (map asked_of calls)
      else case calls of
             [only] \<Rightarrow> if sc_tool only = SUBMIT_RESULT_TOOL then ConcOutput (sc_input only)
                       else ConcContradiction calls
           | _ \<Rightarrow> ConcContradiction calls)"

definition usage_report :: "actor \<Rightarrow> agent_state \<Rightarrow> outgoing" where
  "usage_report a s = Deliver (UsageRecorded (ac_journal_id a) (st_usage_total s)
     (st_context_tokens s) (st_efficiency s))"

definition something_will_wake :: "agent_state \<Rightarrow> bool" where
  "something_will_wake s \<longleftrightarrow> st_timers s \<noteq> [] \<or> has_outstanding_children s"

definition park :: "actor \<Rightarrow> io \<Rightarrow> handled" where
  "park a i = (a\<lparr> ac_events_since_snapshot := 0 \<rparr>, [Deliver (OutParked (ac_journal_id a))],
     (persist [Parked (io_now i)])\<lparr> fx_snapshot := True \<rparr>)"

definition nudge_text :: string where
  "nudge_text = ''Your turn ended without calling `'' @ SUBMIT_RESULT_TOOL @ ''`, and nothing will wake you ''
     @ em_dash @ '' you have no armed timers and no delegated work still running. ''
     @ ''If the step's work is done, call `'' @ SUBMIT_RESULT_TOOL @ ''` now. If it is ''
     @ ''not, carry on working.''"

definition nudge_item :: "agent_state \<Rightarrow> incoming" where
  "nudge_item s = IncUser (''nudge-result:'' @ show_nat (unat (st_nudges s))) nudge_text []"

definition nudge_events :: "agent_state \<Rightarrow> io \<Rightarrow> agent_event list" where
  "nudge_events s i = [Received (nudge_item s) (io_now i), Nudged (io_now i)]"

definition ended_without_result :: "actor \<Rightarrow> agent_state \<Rightarrow> io \<Rightarrow> handled" where
  "ended_without_result a s i =
     (case try_drain a s i of (a1, out1, drained) \<Rightarrow>
        if drained \<noteq> [] then
          (case persist_maybe_snapshot a1 drained of (a2, fx) \<Rightarrow> (a2, out1, fx))
        else if something_will_wake s then
          (case park a1 i of (a2, out2, fx) \<Rightarrow> (a2, out1 @ out2, fx))
        else if st_nudges s \<ge> MAX_RESULT_NUDGES then
          (a1, out1 @ [Deliver (OutFailed (ac_journal_id a1)
             (''the step ended '' @ show_nat (unat (st_nudges s + 1)) @ '' turns without calling `''
              @ SUBMIT_RESULT_TOOL @ ''`, and nothing would wake it'') False False)], fx_none)
        else
          (let a2 = (if st_nudges s + 1 \<ge> MAX_RESULT_NUDGES
                     then a1\<lparr> ac_pending_tool_choice := Some (ChoiceRequired SUBMIT_RESULT_TOOL) \<rparr> else a1);
               events = nudge_events s i;
               folded = foldl apply_event s events
           in case try_drain a2 folded i of
                (a3, out3, evs) \<Rightarrow> (a3, out1 @ out3, persist (events @ evs))))"

definition contradiction_reason :: "stopped_call list \<Rightarrow> string" where
  "contradiction_reason calls =
     ''You ended your turn with more than one finishing tool ('' @ join '', '' (map sc_tool calls)
     @ ''). Do one thing: either ask the user, or submit this step's result.''"

definition refusal_event :: "string \<Rightarrow> u64 \<Rightarrow> stopped_call \<Rightarrow> agent_event" where
  "refusal_event reason at c = ToolComplete \<lparr> tco_call_id = sc_call_id c, tco_output = reason,
     tco_is_error = True, tco_artifacts = [], tco_original_output_bytes = of_nat (length reason),
     tco_truncated_output_bytes = 0, tco_spilled_output_bytes = 0, tco_started_at_ms = at, tco_at_ms = at \<rparr>"

definition correct_contradiction ::
    "actor \<Rightarrow> stopped_call list \<Rightarrow> agent_state \<Rightarrow> io \<Rightarrow> handled" where
  "correct_contradiction a calls s i =
     (let reason = contradiction_reason calls;
          events = map (refusal_event reason (io_now i)) calls @ [Nudged (io_now i)];
          folded = foldl apply_event s events
      in if st_nudges folded > MAX_RESULT_NUDGES then (a, [], persist events)
         else
           (let resume = Received (IncContinue (''contradiction:'' @ show_nat (unat (st_nudges folded))) reason)
                  (io_now i)
            in case try_drain a (apply_event folded resume) i of
                 (a', out, evs) \<Rightarrow> (a', out, persist (events @ [resume] @ evs))))"

definition aborted_message :: "actor \<Rightarrow> io \<Rightarrow> message option" where
  "aborted_message a i =
     (let s = concat (ac_deltas a)
      in if trim s \<noteq> [] then Some (message_assistant_text (io_fresh i 1) s (io_now i)) else None)"

definition cancel_events :: "actor \<Rightarrow> agent_state \<Rightarrow> io \<Rightarrow> agent_event list" where
  "cancel_events a s i =
     map InputMessage (missing_tool_results (prompt_messages s) (parked_call_ids s) (io_now i))
     @ (case aborted_message a i of Some m \<Rightarrow> [MessageAborted m] | None \<Rightarrow> [])
     @ [RunCancelled (io_now i)]"

text \<open>A turn that ended with text, for an agent that does not owe a structured result.\<close>

definition conclude_text :: "actor \<Rightarrow> agent_state \<Rightarrow> string \<Rightarrow> io \<Rightarrow> handled" where
  "conclude_text a s txt i =
     (let finish = (\<lambda>a out.
            case try_drain a s i of (a1, out1, drained) \<Rightarrow>
              (case persist_maybe_snapshot a1 drained of (a2, fx) \<Rightarrow>
                 (a2, out @ Deliver (Concluded (ac_journal_id a) (JString txt)) # out1, fx)))
      in if ap_park_on_outstanding_work (ac_params a) then
           (case try_drain a s i of (a1, out1, drained) \<Rightarrow>
              if drained \<noteq> [] then
                (case persist_maybe_snapshot a1 drained of (a2, fx) \<Rightarrow> (a2, out1, fx))
              else if something_will_wake s then
                (case park a1 i of (a2, out2, fx) \<Rightarrow> (a2, out1 @ out2, fx))
              else finish a1 out1)
         else finish a [])"

definition conclude_stopped :: "actor \<Rightarrow> agent_state \<Rightarrow> stopped_call list \<Rightarrow> io \<Rightarrow> handled" where
  "conclude_stopped a s calls i = (case interpret_calls calls of
     ConcOutput res \<Rightarrow>
       (let events = (if st_timers s \<noteq> [] then [TimerCancelled (map tm_id (st_timers s)) (io_now i)] else [])
        in case try_drain a (foldl apply_event s events) i of (a1, out1, evs) \<Rightarrow>
             (case persist_maybe_snapshot a1 (events @ evs) of (a2, fx) \<Rightarrow>
                (a2, Deliver (Concluded (ac_journal_id a) res) # out1, fx)))
   | ConcAsk asks \<Rightarrow>
       (let recorded = AskRecorded asks (io_now i)
        in case try_drain a (apply_event s recorded) i of (a1, out1, evs) \<Rightarrow>
             (a1\<lparr> ac_events_since_snapshot := 0 \<rparr>,
              Deliver (Asked (ac_journal_id a) asks) # out1,
              (persist (recorded # evs))\<lparr> fx_snapshot := True \<rparr>))
   | ConcContradiction cs \<Rightarrow> correct_contradiction a cs s i)"

definition conclude_cancelled :: "actor \<Rightarrow> agent_state \<Rightarrow> io \<Rightarrow> handled" where
  "conclude_cancelled a s i =
     (let events = cancel_events a s i
      in case try_drain (a\<lparr> ac_events_since_snapshot := 0 \<rparr>) (foldl apply_event s events) i of
           (a', out, evs) \<Rightarrow> (a', out, (persist (events @ evs))\<lparr> fx_snapshot := True \<rparr>))"

definition conclude :: "actor \<Rightarrow> agent_state \<Rightarrow> run_outcome \<Rightarrow> io \<Rightarrow> handled" where
  "conclude a s outcome i =
     (let prepend = (\<lambda>(a', out, fx). (a', usage_report a s # out, fx))
      in case outcome of
           ROCompleted txt \<Rightarrow>
             prepend (if ap_requires_result (ac_params a) then ended_without_result a s i
                      else conclude_text a s txt i)
         | ROStopped calls \<Rightarrow> prepend (conclude_stopped a s calls i)
         | ROCancelled \<Rightarrow> prepend (conclude_cancelled a s i)
         | ROFailed err recoverable \<Rightarrow>
             prepend (a, [Deliver (OutFailed (ac_journal_id a) err recoverable False)], fx_none)
         | ROAlreadyReported \<Rightarrow> (a, [], fx_none))"

definition handle_finished :: "actor \<Rightarrow> run_report \<Rightarrow> agent_state \<Rightarrow> io \<Rightarrow> handled" where
  "handle_finished a report s i =
     (if ac_running a \<noteq> Some (rp_run_id report) then (a, [], fx_none)
      else
        (let acks = map AckCancel (ac_cancel_acks a);
             seeds = (case rp_seed_summary report of
                 Some ss \<Rightarrow> [Deliver (OutSeedSummary (ac_journal_id a) (ss_sub_sessions ss) (ss_result ss))]
               | None \<Rightarrow> [])
         in case conclude (a\<lparr> ac_running := None, ac_cancel_acks := [] \<rparr>) s (rp_outcome report) i of
              (a', out, fx) \<Rightarrow> (a', acks @ seeds @ out, fx)))"

definition run_handle :: "actor \<Rightarrow> agent_state \<Rightarrow> agent_command \<Rightarrow> io \<Rightarrow> handled" where
  "run_handle a s cmd i = (case cmd of
     CancelRun ack \<Rightarrow>
       (case (ac_running a, ack) of
          (Some r, None) \<Rightarrow> (a, [FireCancelToken r], fx_none)
        | (Some r, Some k) \<Rightarrow>
            (a\<lparr> ac_cancel_acks := ac_cancel_acks a @ [k] \<rparr>, [FireCancelToken r], fx_none)
        | (None, Some k) \<Rightarrow> (a, [AckCancel k], fx_none)
        | (None, None) \<Rightarrow> (a, [], fx_none))
   | PersistProgress evs ack \<Rightarrow> (a, [], (persist evs)\<lparr> fx_ack := ack \<rparr>)
   | RunFinished report \<Rightarrow> handle_finished a report s i
   | _ \<Rightarrow> (a, [], fx_none))"

section \<open>Timers, the task list, the log, seeding and reads\<close>

definition handle_timer_fired :: "actor \<Rightarrow> string \<Rightarrow> agent_state \<Rightarrow> io \<Rightarrow> handled" where
  "handle_timer_fired a tid s i = (case find (\<lambda>t. tm_id t = tid) (st_timers s) of
     None \<Rightarrow> (a, [], fx_none)
   | Some t \<Rightarrow>
       (let display_count = tm_fire_count t + 1;
            nxt = timer_rearm t (io_now i);
            sleeps = (case tm_kind t of
                Recurring \<Rightarrow> [Sleep tid (duration_from_secs (tm_interval_secs t))] | OneShot \<Rightarrow> []);
            events = [TimerFired tid nxt (io_now i),
              Received (IncTimer (tid @ '':'' @ show_nat (unat display_count)) (wake_message t display_count))
                (io_now i)]
        in case try_drain a (foldl apply_event s events) i of
             (a', out, evs) \<Rightarrow> (a', sleeps @ out, persist (events @ evs))))"

definition timers_handle :: "actor \<Rightarrow> agent_state \<Rightarrow> agent_command \<Rightarrow> io \<Rightarrow> handled" where
  "timers_handle a s cmd i = (case cmd of
     ArmTimer lbl msg kind after_secs \<Rightarrow>
       (let t = timer_arm (io_fresh i 0) lbl msg kind (duration_from_secs after_secs) (io_now i)
        in (a, [Sleep (tm_id t) (duration_from_secs after_secs), Reply (RpTimerId (tm_id t))],
            persist [TimerArmed t (io_now i)]))
   | ListTimers \<Rightarrow> (a, [Reply (RpTimers (map (\<lambda>t. timer_view_of t (io_now i)) (st_timers s)))], fx_none)
   | CancelTimer sel \<Rightarrow>
       (let ids = cancel_ids (st_timers s) sel
        in (a, [Reply (RpCancelled ids)],
            if ids = [] then fx_none else persist [TimerCancelled ids (io_now i)]))
   | FireTimer tid \<Rightarrow> handle_timer_fired a tid s i
   | _ \<Rightarrow> (a, [], fx_none))"

definition task_lists_handle :: "actor \<Rightarrow> agent_state \<Rightarrow> agent_command \<Rightarrow> io \<Rightarrow> handled" where
  "task_lists_handle a s cmd i = (case cmd of
     TaskListOp action \<Rightarrow>
       (case task_apply (st_task_list s) action of
          Inr nxt \<Rightarrow> (a, [Reply (RpTaskList (Inr (render_result nxt action)))],
            persist [TaskListChanged nxt (io_now i)])
        | Inl msg \<Rightarrow> (a, [Reply (RpTaskList (Inl msg))], fx_none))
   | _ \<Rightarrow> (a, [], fx_none))"

definition runtime_readiness :: "lifecycle_event \<Rightarrow> bool option" where
  "runtime_readiness ev = (case ev of
     LRuntime st detail \<Rightarrow> Some (case st of RtReady \<Rightarrow> True | RtAcquiring \<Rightarrow> False | RtFailed \<Rightarrow> False)
   | LSessionFailed r \<Rightarrow> Some False
   | _ \<Rightarrow> None)"

definition log_handle :: "actor \<Rightarrow> agent_state \<Rightarrow> agent_command \<Rightarrow> io \<Rightarrow> handled" where
  "log_handle a s cmd i = (case cmd of
     RecordLifecycle ev at \<Rightarrow>
       (let moved = (case runtime_readiness ev of
              Some nxt \<Rightarrow> if nxt \<noteq> ac_ready a then Some nxt else None
            | None \<Rightarrow> None);
            a1 = (case moved of Some nxt \<Rightarrow> a\<lparr> ac_ready := nxt \<rparr> | None \<Rightarrow> a);
            recorded = LifecycleRecorded ev at
        in if moved \<noteq> Some True then (a1, [], persist [recorded])
           else (case try_drain a1 (apply_event s recorded) i of
                   (a2, out, evs) \<Rightarrow> (a2, out, persist (recorded # evs))))
   | RecordDelta txt \<Rightarrow> (publish_revision (a\<lparr> ac_deltas := ac_deltas a @ [txt] \<rparr>), [], fx_none)
   | HooksRan records \<Rightarrow> (a, [], persist (hook_events (hook_entry_count s) (io_now i) records))
   | _ \<Rightarrow> (a, [], fx_none))"

definition seeding_handle :: "actor \<Rightarrow> agent_state \<Rightarrow> agent_command \<Rightarrow> io \<Rightarrow> handled" where
  "seeding_handle a s cmd i = (case cmd of
     Snapshot at_seq \<Rightarrow> (a, [Reply (RpSnapshot (snapshot_at s at_seq))], fx_none)
   | SeedFrom seeded seed msg rpl \<Rightarrow>
       if st_log s \<noteq> [] \<or> st_inbox s \<noteq> [] then (a, [Reply (RpSeeded rpl), TellSelf Drain], fx_none)
       else (a, [TellSelf Drain],
             (persist [Seeded seeded seed, Received msg (io_now i)])\<lparr> fx_ack := Some rpl, fx_snapshot := True \<rparr>)
   | _ \<Rightarrow> (a, [], fx_none))"

definition reads_handle :: "actor \<Rightarrow> agent_state \<Rightarrow> read_command \<Rightarrow> io \<Rightarrow> handled" where
  "reads_handle a s cmd i = (a, [Reply (case cmd of
     ReadLog after \<Rightarrow> RpRead (read_from s after (ac_deltas a))
   | PageLog anc max' f \<Rightarrow> RpPage (page (st_log s) anc max' f)
   | SearchLog needle max' f \<Rightarrow>
       RpHits (search (io_to_lower i) (io_show_json i) (io_show_body i) (st_log s) needle f max')
   | SeqOfId x \<Rightarrow> RpSeq (seq_of_id (st_log s) x)
   | LogHead \<Rightarrow> RpHead (st_next_seq s)
   | GetUsage \<Rightarrow> RpUsage (usage_snapshot s)
   | GetState \<Rightarrow> RpState (state_view s)
   | GetCarriedState \<Rightarrow> RpCarried (render_carried_state s))], fx_none)"

section \<open>Dispatch and recovery\<close>

definition handle_command :: "actor \<Rightarrow> agent_state \<Rightarrow> agent_command \<Rightarrow> io \<Rightarrow> handled" where
  "handle_command a s cmd i = (case cmd of
     Enqueue item ack \<Rightarrow> queue_handle a s cmd i
   | Answer answers \<Rightarrow> queue_handle a s cmd i
   | Drain \<Rightarrow> queue_handle a s cmd i
   | StartPrepared p \<Rightarrow> queue_handle a s cmd i
   | CancelRun ack \<Rightarrow> run_handle a s cmd i
   | PersistProgress evs ack \<Rightarrow> run_handle a s cmd i
   | RunFinished r \<Rightarrow> run_handle a s cmd i
   | ArmTimer l m k n \<Rightarrow> timers_handle a s cmd i
   | ListTimers \<Rightarrow> timers_handle a s cmd i
   | CancelTimer sel \<Rightarrow> timers_handle a s cmd i
   | FireTimer tid \<Rightarrow> timers_handle a s cmd i
   | TaskListOp action \<Rightarrow> task_lists_handle a s cmd i
   | Read r \<Rightarrow> reads_handle a s r i
   | RecordLifecycle ev at \<Rightarrow> log_handle a s cmd i
   | RecordDelta t \<Rightarrow> log_handle a s cmd i
   | HooksRan rs \<Rightarrow> log_handle a s cmd i
   | Snapshot n \<Rightarrow> seeding_handle a s cmd i
   | SeedFrom st m inc rpl \<Rightarrow> seeding_handle a s cmd i
   | Shutdown \<Rightarrow> (a, [], fx_none\<lparr> fx_stop := True \<rparr>))"

definition timers_on_load :: "agent_state \<Rightarrow> io \<Rightarrow> outgoing list" where
  "timers_on_load s i = map (\<lambda>t. Sleep (tm_id t) (remaining t (io_now i))) (st_timers s)"

definition run_on_load :: "actor \<Rightarrow> agent_state \<Rightarrow> io \<Rightarrow> actor \<times> outgoing list" where
  "run_on_load a s i =
     (let repairs = missing_tool_results (prompt_messages s) (parked_call_ids s) (io_now i);
          out1 = (if repairs = [] then [] else [TellSelf (PersistProgress (map InputMessage repairs) None)]);
          out2 = (if st_turn_in_flight s then [Deliver (Interrupted (ac_journal_id a))] else [])
      in if ap_interactive (ac_params a) \<or> st_parked s \<or> st_log s = [] then (a, out1 @ out2)
         else
           (case start_run a (input_user_message (io_fresh i 0) ''continue the interrupted task'')
                  (repair_unanswered_tool_calls (prompt_messages s) (io_now i)) (st_context_tokens s) None False of
              (a', out) \<Rightarrow> (a', out1 @ out2 @ out)))"

definition on_recovery_complete :: "actor \<Rightarrow> agent_state \<Rightarrow> io \<Rightarrow> actor \<times> outgoing list" where
  "on_recovery_complete a s i =
     (case run_on_load (publish_revision a) s i of (a', out) \<Rightarrow> (a', timers_on_load s i @ out))"

text \<open>
  The run's own task (\<open>start_run\<close>'s spawned block): cancelled while its contexts were being provided
  (\<open>None\<close>), a context failure it reports itself, or the turn. \<open>run\<close> is the turn under the contexts
  provided.
\<close>

definition run_task ::
    "uuid \<Rightarrow> nat \<Rightarrow> (context_error + 'c) option \<Rightarrow> ('c \<Rightarrow> run_outcome \<times> seed_summary option)
       \<Rightarrow> outgoing list \<times> run_report" where
  "run_task jid rid provided run = (case provided of
     None \<Rightarrow> ([], \<lparr> rp_run_id = rid, rp_outcome = ROCancelled, rp_seed_summary = None \<rparr>)
   | Some (Inl e) \<Rightarrow>
       ([Deliver (OutFailed jid (xe_message e) True (xe_terminal e))],
        \<lparr> rp_run_id = rid, rp_outcome = ROAlreadyReported, rp_seed_summary = None \<rparr>)
   | Some (Inr contexts) \<Rightarrow>
       (case run contexts of (out, seed) \<Rightarrow>
          ([], \<lparr> rp_run_id = rid, rp_outcome = out, rp_seed_summary = seed \<rparr>)))"

section \<open>Run discipline\<close>

text \<open>What a handler set going, and what it told itself.\<close>

definition spawned_runs :: "outgoing list \<Rightarrow> nat list" where
  "spawned_runs out = List.map_filter (\<lambda>e. case e of SpawnRun r \<Rightarrow> Some (rr_id r) | _ \<Rightarrow> None) out"

definition spawned_preps :: "outgoing list \<Rightarrow> turn list" where
  "spawned_preps out = List.map_filter (\<lambda>e. case e of SpawnPrepare st t \<Rightarrow> Some t | _ \<Rightarrow> None) out"

definition self_sent :: "outgoing list \<Rightarrow> agent_command list" where
  "self_sent out = List.map_filter (\<lambda>e. case e of TellSelf c \<Rightarrow> Some c | _ \<Rightarrow> None) out"

definition delivered :: "outgoing list \<Rightarrow> agent_outcome list" where
  "delivered out = List.map_filter (\<lambda>e. case e of Deliver d \<Rightarrow> Some d | _ \<Rightarrow> None) out"

lemma out_simps [simp]:
  "spawned_runs [] = []" "spawned_runs (a @ b) = spawned_runs a @ spawned_runs b"
  "spawned_preps [] = []" "spawned_preps (a @ b) = spawned_preps a @ spawned_preps b"
  "self_sent [] = []" "self_sent (a @ b) = self_sent a @ self_sent b"
  "delivered [] = []" "delivered (a @ b) = delivered a @ delivered b"
  by (simp_all add: spawned_runs_def spawned_preps_def self_sent_def delivered_def map_filter_def)

lemma out_Cons [simp]:
  "spawned_runs (e # b) = (case e of SpawnRun r \<Rightarrow> [rr_id r] | _ \<Rightarrow> []) @ spawned_runs b"
  "spawned_preps (e # b) = (case e of SpawnPrepare st t \<Rightarrow> [t] | _ \<Rightarrow> []) @ spawned_preps b"
  "self_sent (e # b) = (case e of TellSelf c \<Rightarrow> [c] | _ \<Rightarrow> []) @ self_sent b"
  "delivered (e # b) = (case e of Deliver d \<Rightarrow> [d] | _ \<Rightarrow> []) @ delivered b"
  by (simp_all add: spawned_runs_def spawned_preps_def self_sent_def delivered_def map_filter_def
        split: outgoing.splits)

lemma out_maps [simp]:
  "spawned_runs (map AckCancel ks) = []" "spawned_preps (map AckCancel ks) = []"
  "self_sent (map AckCancel ks) = []" "delivered (map AckCancel ks) = []"
  by (induction ks) simp_all

text \<open>
  A plain event neither replaces the state nor the task list. Everything but a seeding, a task list
  operation and what a run hands over to be persisted journals plain events only.
\<close>

definition plain :: "agent_event \<Rightarrow> bool" where
  "plain ev = (case ev of Seeded s m \<Rightarrow> False | TaskListChanged snap at \<Rightarrow> False | _ \<Rightarrow> True)"

lemma plain_ok: "plain ev \<Longrightarrow> event_ok ev"
  by (auto simp: plain_def event_ok_def split: agent_event.splits)

text \<open>
  A command that is neither a prepared start nor a report of a run; and the two a handler tells itself.
\<close>

definition ordinary :: "agent_command \<Rightarrow> bool" where
  "ordinary c = (case c of StartPrepared p \<Rightarrow> False | RunFinished r \<Rightarrow> False | _ \<Rightarrow> True)"

definition harmless :: "agent_command \<Rightarrow> bool" where
  "harmless c = (case c of Drain \<Rightarrow> True | PersistProgress evs ack \<Rightarrow> list_all plain evs | _ \<Rightarrow> False)"

lemma harmless_ordinary: "harmless c \<Longrightarrow> ordinary c"
  by (auto simp: harmless_def ordinary_def split: agent_command.splits)

text \<open>
  The one step from idle: nothing, a run under the next id, or a prepare task. A busy actor takes none.
\<close>

definition idle_step :: "actor \<Rightarrow> outgoing list \<Rightarrow> actor \<Rightarrow> bool" where
  "idle_step a out a' \<longleftrightarrow>
     ac_running a' = None \<and> \<not> ac_preparing a' \<and> spawned_runs out = [] \<and> spawned_preps out = []
       \<and> ac_next_run_id a' = ac_next_run_id a
   \<or> ac_running a' = Some (ac_next_run_id a) \<and> \<not> ac_preparing a' \<and> spawned_runs out = [ac_next_run_id a]
       \<and> spawned_preps out = [] \<and> ac_next_run_id a' = Suc (ac_next_run_id a)
   \<or> ac_running a' = None \<and> ac_preparing a' \<and> spawned_runs out = [] \<and> length (spawned_preps out) = 1
       \<and> ac_next_run_id a' = ac_next_run_id a"

definition run_step :: "actor \<Rightarrow> outgoing list \<Rightarrow> actor \<Rightarrow> bool" where
  "run_step a out a' \<longleftrightarrow> list_all harmless (self_sent out) \<and>
     (if busy a then ac_running a' = ac_running a \<and> ac_preparing a' = ac_preparing a
        \<and> ac_next_run_id a' = ac_next_run_id a \<and> spawned_runs out = [] \<and> spawned_preps out = []
      else idle_step a out a')"

lemma run_step_refl [simp]: "run_step a [] a"
  by (auto simp: run_step_def busy_def idle_step_def)

lemma start_run_step: "\<not> busy a \<Longrightarrow> start_run a inp h ctx sm only = (a', out) \<Longrightarrow> run_step a out a'"
  by (auto simp: start_run_def run_step_def busy_def idle_step_def)

lemma start_prepared_step:
  assumes "\<not> busy a" "start_prepared a p s i = (a', out, evs)"
  shows "run_step a out a'"
proof (cases "ps_abandon p")
  case (Some ab)
  with assms show ?thesis
    by (auto simp: start_prepared_def Let_def run_step_def idle_step_def busy_def)
next
  case None
  with assms(2) obtain inp h ctx sm only where "start_run a inp h ctx sm only = (a', out)"
    by (auto simp: start_prepared_def Let_def split: prod.splits)
  with assms(1) show ?thesis by (rule start_run_step)
qed

text \<open>Only the run fields and what was spawned matter.\<close>

definition same_run :: "actor \<Rightarrow> actor \<Rightarrow> bool" where
  "same_run a b \<longleftrightarrow> ac_running b = ac_running a \<and> ac_preparing b = ac_preparing a
     \<and> ac_next_run_id b = ac_next_run_id a"

definition quiet_one :: "outgoing \<Rightarrow> bool" where
  "quiet_one e = (case e of SpawnRun r \<Rightarrow> False | SpawnPrepare st t \<Rightarrow> False | TellSelf c \<Rightarrow> harmless c | _ \<Rightarrow> True)"

abbreviation quiet :: "outgoing list \<Rightarrow> bool" where
  "quiet \<equiv> list_all quiet_one"

lemma quiet_one_simps [simp]:
  "quiet_one (Deliver d)" "quiet_one (Reply r)" "quiet_one (Sleep t n)" "quiet_one (AckCancel k)"
  "quiet_one (FireCancelToken k)" "quiet_one (TellSelf c) = harmless c"
  "\<not> quiet_one (SpawnRun rr)" "\<not> quiet_one (SpawnPrepare st tn)"
  by (simp_all add: quiet_one_def)

lemma quiet_AckCancel [simp]: "quiet (map AckCancel ks)"
  by (simp add: list_all_iff)

lemma quiet_spawns:
  assumes "quiet out"
  shows "spawned_runs out = []" "spawned_preps out = []" "list_all harmless (self_sent out)"
  using assms by (induction out) (auto simp: quiet_one_def split: outgoing.splits)

lemma same_run_updates [simp]: "same_run a a"
  "same_run a (b\<lparr> ac_events_since_snapshot := n \<rparr>) = same_run a b"
  "same_run a (b\<lparr> ac_pending_tool_choice := c \<rparr>) = same_run a b"
  "same_run a (b\<lparr> ac_cancel_acks := ks \<rparr>) = same_run a b"
  "same_run a (b\<lparr> ac_ready := r \<rparr>) = same_run a b"
  "same_run a (b\<lparr> ac_deltas := ds \<rparr>) = same_run a b"
  "same_run a (b\<lparr> ac_revision := v \<rparr>) = same_run a b"
  by (simp_all add: same_run_def)

lemma same_run_simps [simp]: "same_run a (publish_revision b) = same_run a b"
  "same_run a (on_events_persisted b evs) = same_run a b"
  "snapshot_due b = (b', due) \<Longrightarrow> same_run b b'"
  "persist_maybe_snapshot b evs = (b', fx) \<Longrightarrow> same_run b b'"
  by (auto simp: publish_revision_def on_events_persisted_def snapshot_due_def persist_maybe_snapshot_def
        split: if_splits)

lemma run_step_wrap:
  assumes "run_step a out a'" "quiet pre" "quiet post" "same_run a0 a" "same_run a' b"
  shows "run_step a0 (pre @ out @ post) b"
proof -
  note q = quiet_spawns [OF assms(2)] quiet_spawns [OF assms(3)]
  have "busy a0 = busy a" using assms(4) by (simp add: busy_def same_run_def)
  moreover have "idle_step a0 (pre @ out @ post) b \<longleftrightarrow> idle_step a out a'"
    using assms(4,5) q by (simp add: idle_step_def same_run_def)
  ultimately show ?thesis using assms(1,4,5) q by (simp add: run_step_def same_run_def)
qed

lemma run_step_quiet: "quiet out \<Longrightarrow> same_run a b \<Longrightarrow> run_step a out b"
  using run_step_wrap [of a "[]" a out "[]" a b] by simp

lemma run_step_Cons: "run_step a out a' \<Longrightarrow> quiet [e] \<Longrightarrow> run_step a (e # out) a'"
  using run_step_wrap [of a out a' "[e]" "[]" a a'] by simp

lemma begin_turn_step:
  assumes "\<not> busy a" "begin_turn a t s i = (a', out, evs)"
  shows "run_step a out a'"
proof (cases "sx_source (start_turn_of a s t) = None \<and> sx_prompt (start_turn_of a s t) = None
    \<or> \<not> ac_has_start_hooks a")
  case True
  with assms(2) obtain p out' evs' where "start_prepared a p s i = (a', out', evs')"
    and out: "out = Deliver (Started (ac_journal_id a)) # out'"
    by (auto simp: begin_turn_def Let_def split: prod.splits)
  then have "run_step a out' a'" using assms(1) start_prepared_step by blast
  then show ?thesis unfolding out by (rule run_step_Cons) simp
next
  case False
  with assms(2) have "a' = a\<lparr> ac_preparing := True, ac_start_hook_fired := True \<rparr>"
    and "out = [Deliver (Started (ac_journal_id a)), SpawnPrepare (start_turn_of a s t) t]"
    by (auto simp: begin_turn_def Let_def)
  with assms(1) show ?thesis by (simp add: run_step_def idle_step_def busy_def)
qed

lemma begin_turn_events: "\<exists>evs. snd (snd (begin_turn a t s i)) = TurnBegan (t_consumed t) (t_answered t) (io_now i) # evs"
  by (auto simp: begin_turn_def Let_def split: prod.splits)

lemma try_drain_step: "try_drain a s i = (a', out, evs) \<Longrightarrow> run_step a out a'"
  by (auto simp: try_drain_def split: if_splits option.splits intro: begin_turn_step)

lemma try_drain_Nil: "try_drain a s i = (a', out, []) \<Longrightarrow> a' = a \<and> out = []"
proof -
  assume "try_drain a s i = (a', out, [])"
  moreover have "begin_turn a t s i \<noteq> (a', out, [])" for t
    using begin_turn_events [of a t s i] by auto
  ultimately show ?thesis by (auto simp: try_drain_def split: if_splits option.splits)
qed

lemma try_drain_blocked [simp]: "busy a \<or> \<not> ac_ready a \<Longrightarrow> try_drain a s i = (a, [], [])"
  by (simp add: try_drain_def)

lemma run_step_pre: "run_step a out a' \<Longrightarrow> quiet pre \<Longrightarrow> run_step a (pre @ out) a'"
  using run_step_wrap [of a out a' pre "[]" a a'] by simp

lemma run_step_same: "run_step a out a' \<Longrightarrow> same_run a0 a \<Longrightarrow> same_run a' b \<Longrightarrow> run_step a0 out b"
  using run_step_wrap [of a out a' "[]" "[]" a0 b] by simp

lemma run_step_Deliver:
  "run_step a out a' \<Longrightarrow> same_run a' b \<Longrightarrow> run_step a (Deliver d # out) b"
  using run_step_wrap [of a out a' "[Deliver d]" "[]" a b] by simp

lemma ended_without_result_step:
  assumes "ended_without_result a s i = (a', out, fx)"
  shows "run_step a out a'"
proof -
  obtain a1 out1 evs where d: "try_drain a s i = (a1, out1, evs)" by (metis prod_cases3)
  show ?thesis
  proof (cases "evs = []")
    case False
    then obtain fx' where "persist_maybe_snapshot a1 evs = (a', fx')" "out = out1"
      using assms d by (auto simp: ended_without_result_def split: prod.splits)
    with try_drain_step [OF d] show ?thesis by (metis same_run_simps(4) same_run_updates(1) run_step_same)
  next
    case True
    with d have [simp]: "a1 = a" "out1 = []" using try_drain_Nil by blast+
    consider "quiet out \<and> same_run a a'" | b s' evs' where "same_run a b" "try_drain b s' i = (a', out, evs')"
      using assms d True
      by (fastforce simp: ended_without_result_def park_def Let_def split: prod.splits if_splits)
    then show ?thesis
      by cases (blast intro: run_step_quiet, metis try_drain_step run_step_same same_run_updates(1))
  qed
qed

lemma correct_contradiction_step:
  "correct_contradiction a cs s i = (a', out, fx) \<Longrightarrow> run_step a out a'"
  by (auto simp: correct_contradiction_def Let_def split: if_splits prod.splits intro: try_drain_step)

lemma conclude_text_step:
  assumes "conclude_text a s txt i = (a', out, fx)"
  shows "run_step a out a'"
proof -
  obtain a1 out1 evs where d: "try_drain a s i = (a1, out1, evs)" by (metis prod_cases3)
  consider fx' where "persist_maybe_snapshot a1 evs = (a', fx')"
      "out = out1 \<or> out = Deliver (Concluded (ac_journal_id a) (JString txt)) # out1"
    | "quiet out \<and> same_run a a'"
    using assms d try_drain_Nil [of a s i a1 out1]
    by (fastforce simp: conclude_text_def park_def Let_def split: prod.splits if_splits)
  then show ?thesis
  proof cases
    case 1
    with try_drain_step [OF d] have "run_step a out1 a'"
      by (metis same_run_simps(4) same_run_updates(1) run_step_same)
    with 1(2) show ?thesis by (auto intro: run_step_Cons)
  qed (blast intro: run_step_quiet)
qed

lemma conclude_stopped_step:
  assumes "conclude_stopped a s calls i = (a', out, fx)"
  shows "run_step a out a'"
proof (cases "interpret_calls calls")
  case (ConcContradiction cs)
  with assms show ?thesis by (simp add: conclude_stopped_def correct_contradiction_step)
next
  case (ConcOutput res)
  with assms obtain s' a1 out1 evs where "try_drain a s' i = (a1, out1, evs)" "same_run a1 a'"
    "out = Deliver (Concluded (ac_journal_id a) res) # out1"
    by (fastforce simp: conclude_stopped_def Let_def split: prod.splits)
  then show ?thesis by (simp add: run_step_Deliver [OF try_drain_step])
next
  case (ConcAsk asks)
  with assms obtain s' a1 out1 evs where "try_drain a s' i = (a1, out1, evs)" "same_run a1 a'"
    "out = Deliver (Asked (ac_journal_id a) asks) # out1"
    by (fastforce simp: conclude_stopped_def Let_def split: prod.splits)
  then show ?thesis by (simp add: run_step_Deliver [OF try_drain_step])
qed

lemma conclude_cancelled_step: "conclude_cancelled a s i = (a', out, fx) \<Longrightarrow> run_step a out a'"
  by (auto simp: conclude_cancelled_def Let_def split: prod.splits
        intro: run_step_same [OF try_drain_step, of _ _ _ _ _ _ a a'])

lemma conclude_step:
  assumes "conclude a s outc i = (a', out, fx)"
  shows "run_step a out a'"
proof (cases outc)
  case (ROCompleted body)
  with assms obtain d out1 where "out = Deliver d # out1"
    "(if ap_requires_result (ac_params a) then ended_without_result a s i else conclude_text a s body i) = (a', out1, fx)"
    by (cases "if ap_requires_result (ac_params a) then ended_without_result a s i else conclude_text a s body i")
      (auto simp: conclude_def usage_report_def)
  then show ?thesis
    by (auto split: if_splits intro!: run_step_Deliver dest: ended_without_result_step conclude_text_step)
next
  case (ROStopped calls)
  with assms obtain d out1 where "out = Deliver d # out1" "conclude_stopped a s calls i = (a', out1, fx)"
    by (cases "conclude_stopped a s calls i") (auto simp: conclude_def usage_report_def)
  then show ?thesis by (auto intro!: run_step_Deliver dest: conclude_stopped_step)
next
  case ROCancelled
  with assms obtain d out1 where "out = Deliver d # out1" "conclude_cancelled a s i = (a', out1, fx)"
    by (cases "conclude_cancelled a s i") (auto simp: conclude_def usage_report_def)
  then show ?thesis by (auto intro!: run_step_Deliver dest: conclude_cancelled_step)
qed (use assms in \<open>auto simp: conclude_def usage_report_def intro!: run_step_quiet\<close>)

lemma handle_timer_fired_step:
  assumes "handle_timer_fired a tid s i = (a', out, fx)"
  shows "run_step a out a'"
proof (cases "find (\<lambda>t. tm_id t = tid) (st_timers s)")
  case None
  with assms show ?thesis by (simp add: handle_timer_fired_def)
next
  case (Some t)
  with assms obtain sl s' out1 evs where "try_drain a s' i = (a', out1, evs)" "out = sl @ out1" "quiet sl"
    by (fastforce simp: handle_timer_fired_def Let_def split: prod.splits timer_kind.splits)
  then show ?thesis using try_drain_step run_step_pre by blast
qed

lemma log_handle_step: "log_handle a s cmd i = (a', out, fx) \<Longrightarrow> run_step a out a'"
proof (cases cmd)
  case (RecordLifecycle ev at)
  define a1 where "a1 = (case runtime_readiness ev of None \<Rightarrow> a
    | Some nxt \<Rightarrow> if nxt \<noteq> ac_ready a then a\<lparr> ac_ready := nxt \<rparr> else a)"
  have a1: "same_run a a1" by (auto simp: a1_def split: option.splits)
  assume "log_handle a s cmd i = (a', out, fx)"
  then have "a' = a1 \<and> out = [] \<or> (\<exists>s' evs. try_drain a1 s' i = (a', out, evs))"
    unfolding log_handle_def RecordLifecycle a1_def
    by (auto simp: Let_def split: option.splits if_splits prod.splits)
  then show ?thesis
    using a1 by (metis run_step_refl run_step_same try_drain_step same_run_updates(1))
qed (auto simp: log_handle_def intro: run_step_quiet)

lemma harmless_Drain [simp]: "harmless Drain"
  by (simp add: harmless_def)

lemma queue_handle_step:
  assumes "queue_handle a s cmd i = (a', out, fx)" "ordinary cmd"
  shows "run_step a out a'"
proof (cases cmd)
  case (Answer answers)
  show ?thesis
  proof (cases "\<exists>t. \<not> busy a \<and> answered_turn (st_inbox s) (st_asks s) answers = Inr t")
    case True
    then obtain t out1 evs where "\<not> busy a" "begin_turn a t s i = (a', out1, evs)" "out = Reply (RpAnswer None) # out1"
      using assms Answer by (auto simp: queue_handle_def split: prod.splits)
    then show ?thesis using begin_turn_step by (simp add: run_step_Cons)
  next
    case False
    with assms Answer show ?thesis
      by (auto simp: queue_handle_def split: if_splits sum.splits intro: run_step_quiet)
  qed
qed (use assms in \<open>auto simp: queue_handle_def ordinary_def split: prod.splits
       intro: run_step_quiet try_drain_step\<close>)

lemma handle_command_step:
  assumes "handle_command a s cmd i = (a', out, fx)" "ordinary cmd"
  shows "run_step a out a'"
  using assms
  by (cases cmd) (auto simp: handle_command_def ordinary_def run_handle_def timers_handle_def
      task_lists_handle_def seeding_handle_def reads_handle_def Let_def
      split: option.splits prod.splits sum.splits if_splits
      intro: queue_handle_step log_handle_step handle_timer_fired_step run_step_quiet)

lemma handle_prepared_step:
  assumes "handle_command a s (StartPrepared p) i = (a', out, fx)" "ac_running a = None"
  shows "run_step (a\<lparr> ac_preparing := False \<rparr>) out a'"
  using assms start_prepared_step [of "a\<lparr> ac_preparing := False \<rparr>" p s i]
  by (auto simp: handle_command_def queue_handle_def busy_def split: prod.splits)

lemma handle_finished_step:
  assumes "handle_command a s (RunFinished r) i = (a', out, fx)" "ac_running a = Some (rp_run_id r)"
  shows "run_step (a\<lparr> ac_running := None \<rparr>) out a'"
proof -
  obtain pre out1 where "conclude (a\<lparr> ac_running := None, ac_cancel_acks := [] \<rparr>) s (rp_outcome r) i = (a', out1, fx)"
    "out = pre @ out1" "quiet pre"
    using assms by (fastforce simp: handle_command_def run_handle_def handle_finished_def Let_def
        split: prod.splits option.splits)
  then show ?thesis by (metis conclude_step run_step_pre run_step_same same_run_updates(1,4))
qed

lemma quiet_Sleeps [simp]: "quiet (timers_on_load s i)"
  by (simp add: timers_on_load_def list_all_iff)

lemma run_on_load_step:
  assumes "\<not> busy a" "run_on_load a s i = (a', out)"
  shows "run_step a out a'"
proof -
  let ?repairs = "missing_tool_results (prompt_messages s) (parked_call_ids s) (io_now i)"
  let ?pre = "(if ?repairs = [] then [] else [TellSelf (PersistProgress (map InputMessage ?repairs) None)])
    @ (if st_turn_in_flight s then [Deliver (Interrupted (ac_journal_id a))] else [])"
  have pre: "quiet ?pre" by (simp add: harmless_def list_all_iff plain_def)
  show ?thesis
  proof (cases "ap_interactive (ac_params a) \<or> st_parked s \<or> st_log s = []")
    case True
    with assms(2) have "a' = a" "out = ?pre" by (simp_all add: run_on_load_def Let_def)
    with pre show ?thesis by (metis run_step_quiet same_run_updates(1))
  next
    case False
    with assms(2) obtain inp h ctx sm only out1 where "start_run a inp h ctx sm only = (a', out1)" "out = ?pre @ out1"
      by (auto simp: run_on_load_def Let_def split: prod.splits)
    then show ?thesis using run_step_pre [OF start_run_step [OF assms(1)] pre] by metis
  qed
qed

lemma recovery_step:
  assumes "\<not> busy a" "on_recovery_complete a s i = (a', out)"
  shows "run_step a out a'"
proof -
  obtain out1 where r: "run_on_load (publish_revision a) s i = (a', out1)" "out = timers_on_load s i @ out1"
    using assms(2) by (auto simp: on_recovery_complete_def split: prod.splits)
  have "\<not> busy (publish_revision a)" using assms(1) by (simp add: busy_def publish_revision_def)
  then have "run_step (publish_revision a) out a'"
    using run_step_pre [OF run_on_load_step [OF _ r(1)]] r(2) by simp
  then show ?thesis by (rule run_step_same) simp_all
qed

section \<open>What the handlers journal\<close>

lemma plain_simps [simp]:
  "plain (InputMessage m)" "plain (TurnBegan c an at)" "plain (HookRan r n at)" "plain (Parked at)"
  "plain (Received it at)" "plain (Nudged at)" "plain (TimerCancelled ids at)" "plain (TimerArmed t at)"
  "plain (TimerFired tid nxt at)" "plain (AskRecorded asks at)" "plain (MessageAborted m)"
  "plain (RunCancelled at)" "plain (LifecycleRecorded l at)" "plain (refusal_event rs at sc)"
  by (simp_all add: plain_def refusal_event_def)

lemma plain_maps [simp]: "list_all plain (map InputMessage ms)" "list_all plain (hook_events n at rs)"
  "list_all plain (map (refusal_event rsn at) cs)"
  by (auto simp: list_all_iff hook_events_def)

lemma start_prepared_plain: "start_prepared a p s i = (a', out, evs) \<Longrightarrow> list_all plain evs"
  by (auto simp: start_prepared_def Let_def split: option.splits prod.splits if_splits)

lemma begin_turn_plain: "begin_turn a t s i = (a', out, evs) \<Longrightarrow> list_all plain evs"
  by (auto simp: begin_turn_def Let_def split: prod.splits if_splits dest: start_prepared_plain)

lemma try_drain_plain: "try_drain a s i = (a', out, evs) \<Longrightarrow> list_all plain evs"
  by (auto simp: try_drain_def split: if_splits option.splits dest: begin_turn_plain)

lemma fx_simps [simp]: "fx_events fx_none = []" "fx_events (persist evs) = evs"
  by (simp_all add: fx_none_def persist_def)

lemma persist_maybe_snapshot_events [simp]:
  "persist_maybe_snapshot a evs = (a', fx) \<Longrightarrow> fx_events fx = evs"
  by (auto simp: persist_maybe_snapshot_def split: prod.splits)

lemma ended_without_result_plain: "ended_without_result a s i = (a', out, fx) \<Longrightarrow> list_all plain (fx_events fx)"
  by (auto simp: ended_without_result_def park_def nudge_events_def Let_def
        split: prod.splits if_splits dest: try_drain_plain)

lemma conclude_text_plain: "conclude_text a s body i = (a', out, fx) \<Longrightarrow> list_all plain (fx_events fx)"
  by (auto simp: conclude_text_def park_def Let_def split: prod.splits if_splits dest: try_drain_plain)

lemma conclude_stopped_plain: "conclude_stopped a s calls i = (a', out, fx) \<Longrightarrow> list_all plain (fx_events fx)"
  by (auto simp: conclude_stopped_def correct_contradiction_def Let_def
        split: prod.splits if_splits conclusion.splits dest: try_drain_plain)

lemma conclude_cancelled_plain: "conclude_cancelled a s i = (a', out, fx) \<Longrightarrow> list_all plain (fx_events fx)"
  by (auto simp: conclude_cancelled_def cancel_events_def Let_def
        split: prod.splits option.splits dest: try_drain_plain)

lemma conclude_plain: "conclude a s outc i = (a', out, fx) \<Longrightarrow> list_all plain (fx_events fx)"
  by (auto simp: conclude_def Let_def split: run_outcome.splits prod.splits if_splits
      dest: ended_without_result_plain conclude_text_plain conclude_stopped_plain conclude_cancelled_plain)

text \<open>A command that carries no malformed state of its own.\<close>

definition command_ok :: "agent_command \<Rightarrow> bool" where
  "command_ok c = (case c of
     SeedFrom seeded m inc rpl \<Rightarrow> state_wf seeded
   | PersistProgress evs ack \<Rightarrow> list_all event_ok evs
   | _ \<Rightarrow> True)"

lemma handle_command_events_ok:
  assumes "handle_command a s cmd i = (a', out, fx)" "state_wf s" "command_ok cmd"
  shows "list_all event_ok (fx_events fx)"
proof -
  have plain: "list_all event_ok evs" if "list_all plain evs" for evs
    using that plain_ok by (auto simp: list_all_iff)
  show ?thesis
  proof (cases cmd)
    case (TaskListOp act)
    with assms show ?thesis
      by (auto simp: handle_command_def task_lists_handle_def state_wf_def event_ok_def
          split: sum.splits dest: task_apply_wf)
  next
    case (SeedFrom st m inc rpl)
    with assms show ?thesis
      by (auto simp: handle_command_def seeding_handle_def command_ok_def event_ok_def split: if_splits)
  next
    case (PersistProgress evs ack)
    with assms show ?thesis by (auto simp: handle_command_def run_handle_def command_ok_def)
  next
    case (RunFinished r)
    with assms(1) show ?thesis
      by (auto simp: handle_command_def run_handle_def handle_finished_def Let_def
          split: if_splits prod.splits dest!: conclude_plain intro: plain)
  next
    case (CancelRun ack)
    with assms(1) show ?thesis by (auto simp: handle_command_def run_handle_def split: option.splits)
  next
    case (Answer answers)
    with assms(1) show ?thesis
      by (auto simp: handle_command_def queue_handle_def split: if_splits sum.splits prod.splits
          dest!: begin_turn_plain intro: plain)
  next
    case (FireTimer tid)
    with assms(1) show ?thesis
      by (auto simp: handle_command_def timers_handle_def handle_timer_fired_def Let_def
          split: option.splits prod.splits dest!: try_drain_plain intro!: plain)
  next
    case (RecordLifecycle ev at)
    with assms(1) show ?thesis
      by (auto simp: handle_command_def log_handle_def Let_def
          split: option.splits prod.splits if_splits dest!: try_drain_plain intro!: plain)
  qed (use assms(1) in \<open>auto simp: handle_command_def queue_handle_def timers_handle_def log_handle_def
         seeding_handle_def reads_handle_def Let_def split: prod.splits if_splits
         dest!: try_drain_plain start_prepared_plain intro!: plain\<close>)
qed

end
