(* ===== verification/Agent_Conduct.thy ===== *)
theory Agent_Conduct
  imports Agent_Actor
begin

text \<open>
  How the agent actor's handlers behave: what may start a turn and when, what a turn that ends leaves
  behind, how a cancelled run's transcript is closed, what a timer firing does, and three places where
  the code and its comments part ways.
\<close>

section \<open>Beginning a turn\<close>

lemma start_run_busy: "start_run a inp h ctx sm only = (a', out) \<Longrightarrow> busy a'"
  by (auto simp: start_run_def busy_def)

lemma begin_turn_busy: "begin_turn a t s i = (a', out, evs) \<Longrightarrow> busy a'"
  by (auto simp: begin_turn_def start_prepared_def start_run_def Let_def busy_def
      split: if_splits prod.splits option.splits)

lemma begin_turn_began:
  "begin_turn a t s i = (a', out, evs) \<Longrightarrow>
     \<exists>rest. evs = TurnBegan (t_consumed t) (t_answered t) (io_now i) # rest \<and>
       (\<forall>ev\<in>set rest. (\<exists>m. ev = InputMessage m) \<or> (\<exists>r n at. ev = HookRan r n at))"
  by (auto simp: begin_turn_def start_prepared_def hook_events_def Let_def
      split: if_splits prod.splits option.splits)

definition turn_event :: "agent_event \<Rightarrow> bool" where
  "turn_event ev = (case ev of InputMessage m \<Rightarrow> True | HookRan r n at \<Rightarrow> True | TurnBegan c an at \<Rightarrow> True | _ \<Rightarrow> False)"

lemma begin_turn_turn_events: "begin_turn a t s i = (a', out, evs) \<Longrightarrow> list_all turn_event evs"
  by (auto simp: list_all_iff dest!: begin_turn_began) (fastforce simp: turn_event_def)+

lemma queue_untouched:
  "st_inbox (apply_event s (InputMessage m)) = st_inbox s" "st_asks (apply_event s (InputMessage m)) = st_asks s"
  "st_inbox (apply_event s (HookRan r n at)) = st_inbox s" "st_asks (apply_event s (HookRan r n at)) = st_asks s"
  by (simp_all add: fold_defs)

lemma fold_queue_untouched:
  "\<forall>ev\<in>set evs. (\<exists>m. ev = InputMessage m) \<or> (\<exists>r n at. ev = HookRan r n at) \<Longrightarrow>
     st_inbox (foldl apply_event s evs) = st_inbox s \<and> st_asks (foldl apply_event s evs) = st_asks s"
  by (induction evs arbitrary: s) (auto simp: queue_untouched)

lemma turn_began_queue:
  "st_inbox (apply_event s (TurnBegan c an at)) = filter (\<lambda>x. incoming_id x \<notin> set c) (st_inbox s)"
  "st_asks (apply_event s (TurnBegan c an at)) = []"
  by (simp_all add: fold_defs)

lemma begin_turn_empties:
  assumes "begin_turn a t s i = (a', out, evs)" "t_consumed t = map incoming_id (st_inbox s)"
  shows "st_inbox (foldl apply_event s evs) = []" "st_asks (foldl apply_event s evs) = []"
proof -
  obtain rest where evs: "evs = TurnBegan (t_consumed t) (t_answered t) (io_now i) # rest"
    and rest: "\<forall>ev\<in>set rest. (\<exists>m. ev = InputMessage m) \<or> (\<exists>r n at. ev = HookRan r n at)"
    using begin_turn_began [OF assms(1)] by blast
  have "filter (\<lambda>x. incoming_id x \<notin> set (t_consumed t)) (st_inbox s) = []"
    using assms(2) by (simp add: filter_empty_conv)
  with fold_queue_untouched [OF rest] show "st_inbox (foldl apply_event s evs) = []"
    "st_asks (foldl apply_event s evs) = []"
    by (simp_all add: evs turn_began_queue)
qed

section \<open>Sample states\<close>

definition sample_agent_io :: io where
  "sample_agent_io = \<lparr> io_now = 7, io_fresh = (\<lambda>n. ''id'' @ show_nat n), io_to_lower = id,
     io_show_json = (\<lambda>_. []), io_show_body = (\<lambda>_. []) \<rparr>"

definition sample_params :: "bool \<Rightarrow> agent_params" where
  "sample_params req = \<lparr> ap_requires_result = req, ap_interactive = True, ap_park_on_outstanding_work = False \<rparr>"

definition sample_actor :: actor where
  "sample_actor = actor_new ''agent'' (sample_params False) False True"

definition sample_waiting :: agent_state where
  "sample_waiting = apply_event agent_state_default (Received (IncUser ''m1'' ''hello'' []) 1)"

definition sample_ask :: asked_question where
  "sample_ask = \<lparr> aq_call_id = Some ''q1'', aq_question = ''which?'', aq_choices = [], aq_multiple = False \<rparr>"

section \<open>Properties\<close>

text \<open>
  A turn that starts, from the queue or from the answers to the pending questions, leaves neither a
  queued item nor a pending question behind once its events are folded, and the actor is busy: nothing
  is delivered to the model twice and no second turn can start behind it.\<close>

theorem started_turn_empties_the_queue:
  assumes "try_drain a s i = (a', out, evs) \<and> evs \<noteq> [] \<or>
     (\<exists>t. answered_turn (st_inbox s) (st_asks s) answers = Inr t \<and> begin_turn a t s i = (a', out, evs))"
  shows "st_inbox (foldl apply_event s evs) = [] \<and> st_asks (foldl apply_event s evs) = [] \<and> busy a'"
proof -
  obtain t where t: "begin_turn a t s i = (a', out, evs)" "t_consumed t = map incoming_id (st_inbox s)"
    using assms
  proof
    assume "try_drain a s i = (a', out, evs) \<and> evs \<noteq> []"
    then show thesis
      by (auto simp: try_drain_def split: if_splits option.splits dest: qturn.turn_consumes_all intro: that)
  next
    assume "\<exists>t. answered_turn (st_inbox s) (st_asks s) answers = Inr t \<and> begin_turn a t s i = (a', out, evs)"
    then show thesis
      by (auto intro!: that simp: answered_turn_opt_def
          intro: aturn.turn_consumes_all [of "st_asks s" answers "st_inbox s"])
  qed
  show ?thesis using begin_turn_empties [OF t] begin_turn_busy [OF t(1)] by simp
qed

theorem started_turn_empties_the_queue_witness:
  "st_inbox sample_waiting \<noteq> [] \<and>
   st_inbox (foldl apply_event sample_waiting (snd (snd (try_drain sample_actor sample_waiting sample_agent_io)))) = []"
proof -
  obtain a' out evs where d: "try_drain sample_actor sample_waiting sample_agent_io = (a', out, evs)" by (metis prod_cases3)
  have "snd (snd (try_drain sample_actor sample_waiting sample_agent_io)) \<noteq> []" by code_simp
  with started_turn_empties_the_queue [of sample_actor sample_waiting sample_agent_io a' out evs "[]"] d
  have "st_inbox (foldl apply_event sample_waiting evs) = []" by simp
  moreover have "st_inbox sample_waiting \<noteq> []" by code_simp
  ultimately show ?thesis using d by simp
qed

text \<open>
  While its session has no runtime, an agent starts nothing: no command but an answer and a prepared
  start that was already under way spawns a run or a prepare task, whatever is queued, unless it is the
  lifecycle record that says the runtime is there.\<close>

theorem unready_agent_starts_nothing:
  assumes "\<not> ac_ready a" "handle_command a s cmd i = (a', out, fx)"
    "\<forall>ans. cmd \<noteq> Answer ans" "\<forall>p. cmd \<noteq> StartPrepared p"
    "\<forall>ev at. cmd = RecordLifecycle ev at \<longrightarrow> runtime_readiness ev \<noteq> Some True"
  shows "spawned_runs out = [] \<and> spawned_preps out = []"
proof (cases cmd)
  case (RunFinished r)
  have q: "quiet out" if "conclude b s oc i = (a', out, fx)" "\<not> ac_ready b" for b oc out
    using that
    by (auto simp: conclude_def ended_without_result_def conclude_text_def conclude_stopped_def
        correct_contradiction_def conclude_cancelled_def park_def usage_report_def Let_def
        split: run_outcome.splits if_splits conclusion.splits prod.splits)
  from RunFinished assms(1,2) show ?thesis
    by (auto simp: handle_command_def run_handle_def handle_finished_def Let_def
        split: if_splits prod.splits option.splits dest!: q dest: quiet_spawns)
next
  case (RecordLifecycle ev at)
  with assms show ?thesis
    by (auto simp: handle_command_def log_handle_def Let_def split: option.splits if_splits)
qed (use assms in \<open>auto simp: handle_command_def queue_handle_def run_handle_def timers_handle_def
       handle_timer_fired_def task_lists_handle_def log_handle_def seeding_handle_def reads_handle_def Let_def
       split: option.splits sum.splits if_splits timer_kind.splits prod.splits\<close>)

theorem unready_agent_starts_nothing_witness:
  "spawned_runs (fst (snd (handle_command (sample_actor\<lparr> ac_ready := False \<rparr>) sample_waiting Drain sample_agent_io))) = []
   \<and> spawned_runs (fst (snd (handle_command sample_actor sample_waiting Drain sample_agent_io))) = [0]"
proof -
  obtain a' out fx where h: "handle_command (sample_actor\<lparr> ac_ready := False \<rparr>) sample_waiting Drain sample_agent_io = (a', out, fx)"
    by (metis prod_cases3)
  then have "spawned_runs out = []" using unready_agent_starts_nothing [OF _ h] by simp
  moreover have "spawned_runs (fst (snd (handle_command sample_actor sample_waiting Drain sample_agent_io))) = [0]" by code_simp
  ultimately show ?thesis using h by simp
qed

section \<open>How a run is concluded\<close>

lemma nudge_inbox: "st_inbox (foldl apply_event s (nudge_events s i)) = st_inbox s @ [nudge_item s]"
  by (simp add: nudge_events_def fold_defs split: incoming.splits)

lemma nudge_is_user: "is_user (nudge_item s)"
  by (simp add: nudge_item_def)

lemma queued_user: "x \<in> set inbox \<Longrightarrow> is_user x \<Longrightarrow> \<exists>t. queued_turn inbox asks = Some t"
  by (auto simp: queued_turn_def list_ex_iff)

lemma drain_user:
  assumes "\<not> busy a" "ac_ready a" "x \<in> set (st_inbox s)" "is_user x" "try_drain a s i = (a', out, evs)"
  shows "busy a'"
proof -
  obtain t where "queued_turn (st_inbox s) (st_asks s) = Some t" using queued_user assms(3,4) by blast
  with assms(1,2,5) have "begin_turn a t s i = (a', out, evs)" by (simp add: try_drain_def)
  then show ?thesis by (rule begin_turn_busy)
qed

lemma nudge_drains:
  assumes "\<not> busy a" "ac_ready a" "try_drain a (foldl apply_event s (nudge_events s i)) i = (a', out, evs)"
  shows "busy a'"
  by (rule drain_user [OF assms(1,2) _ nudge_is_user [of s] assms(3)]) (simp add: nudge_inbox)

lemma busy_cong [simp]: "busy (a\<lparr> ac_pending_tool_choice := c \<rparr>) = busy a"
  "busy (a\<lparr> ac_events_since_snapshot := n \<rparr>) = busy a" "busy (a\<lparr> ac_cancel_acks := ks \<rparr>) = busy a"
  by (simp_all add: busy_def)

lemma busy_snapshot: "persist_maybe_snapshot a evs = (a', fx) \<Longrightarrow> busy a' = busy a"
  using same_run_simps(4) by (auto simp: same_run_def busy_def)

lemma try_drain_busy: "try_drain a s i = (a', out, evs) \<Longrightarrow> evs \<noteq> [] \<Longrightarrow> busy a'"
  by (auto simp: try_drain_def split: if_splits option.splits dest: begin_turn_busy)

lemma ended_without_result_settles:
  assumes "ended_without_result a s i = (a', out, fx)" "\<not> busy a" "ac_ready a"
  shows "busy a' \<or> OutParked (ac_journal_id a) \<in> set (delivered out) \<and> something_will_wake s \<or>
    (\<exists>why. OutFailed (ac_journal_id a) why False False \<in> set (delivered out)) \<and> MAX_RESULT_NUDGES \<le> st_nudges s"
proof -
  obtain a1 out1 evs where d: "try_drain a s i = (a1, out1, evs)" by (metis prod_cases3)
  show ?thesis
  proof (cases "evs = []")
    case False
    with assms(1) d show ?thesis
      by (auto simp: ended_without_result_def busy_snapshot split: prod.splits dest: try_drain_busy)
  next
    case True
    with d have "a1 = a" "out1 = []" using try_drain_Nil by blast+
    with assms d True show ?thesis
      by (auto simp: ended_without_result_def park_def Let_def split: prod.splits if_splits
          dest: nudge_drains [rotated 2])
  qed
qed

text \<open>The messages recorded for calls nobody answered.\<close>

lemma fold_inputs:
  "state_wf s \<Longrightarrow> prompt_messages (foldl apply_event s (map InputMessage ms)) = prompt_messages s @ ms \<and>
     state_wf (foldl apply_event s (map InputMessage ms))"
proof (induction ms arbitrary: s)
  case (Cons m ms)
  have "state_wf (apply_event s (InputMessage m))" using Cons.prems by (intro apply_event_wf) (simp_all add: event_ok_def)
  moreover have "prompt_messages (apply_event s (InputMessage m)) = prompt_messages s @ [m]"
    using prompt_appended [OF Cons.prems, of "InputMessage m"]
    by (simp add: is_seeded_def event_ok_def event_bodies_def body_message_def map_filter_simps)
  ultimately show ?case using Cons.IH by simp
qed simp

lemma missing_answers:
  assumes "m \<in> set ms" "m_role m = RAssistant" "c \<in> set (message_calls m)"
  shows "c \<in> set (answered_ids (ms @ missing_tool_results ms parked now)) \<union> set parked"
  using assms by (fastforce simp: missing_tool_results_def Let_def filter_empty_conv)

lemma missing_roles: "m \<in> set (missing_tool_results ms parked now) \<Longrightarrow> m_role m = RTool"
  by (auto simp: missing_tool_results_def Let_def split: if_splits)

definition no_dangling :: "string set \<Rightarrow> message list \<Rightarrow> bool" where
  "no_dangling parked ms \<longleftrightarrow> (\<forall>m\<in>set ms. dangling_of (set (answered_ids ms) \<union> parked) m = [])"

lemma no_dangling_iff:
  "no_dangling p ms \<longleftrightarrow> (\<forall>m\<in>set ms. m_role m = RAssistant \<longrightarrow> set (message_calls m) \<subseteq> set (answered_ids ms) \<union> p)"
  by (auto simp: no_dangling_def dangling_of_def filter_empty_conv)

lemma no_dangling_repaired: "no_dangling (set parked) (ms @ missing_tool_results ms parked now)"
  using missing_answers [of _ ms _ parked now] missing_roles [of _ ms parked now]
  by (fastforce simp: no_dangling_iff)

lemma no_dangling_snoc: "no_dangling p ms \<Longrightarrow> message_calls m = [] \<Longrightarrow> no_dangling p (ms @ [m])"
  by (auto simp: no_dangling_iff)

lemma aborted_calls: "aborted_message a i = Some m \<Longrightarrow> message_calls m = []"
  by (auto simp: aborted_message_def message_assistant_text_def message_calls_def Let_def map_filter_simps split: if_splits)

lemma cancelled_prompt:
  assumes "state_wf s"
  shows "prompt_messages (foldl apply_event s (cancel_events a s i)) =
    prompt_messages s @ missing_tool_results (prompt_messages s) (parked_call_ids s) (io_now i)
      @ (case aborted_message a i of Some m \<Rightarrow> [m] | None \<Rightarrow> [])"
proof -
  let ?miss = "missing_tool_results (prompt_messages s) (parked_call_ids s) (io_now i)"
  let ?s1 = "foldl apply_event s (map InputMessage ?miss)"
  have s1: "prompt_messages ?s1 = prompt_messages s @ ?miss" "state_wf ?s1" using fold_inputs [OF assms] by blast+
  have ab: "prompt_messages (apply_event ?s1 (MessageAborted m)) = prompt_messages ?s1 @ [m]"
    "state_wf (apply_event ?s1 (MessageAborted m))" for m
    using prompt_appended [OF s1(2), of "MessageAborted m"] apply_event_wf [OF s1(2), of "MessageAborted m"]
    by (simp_all add: is_seeded_def event_ok_def event_bodies_def body_message_def map_filter_simps)
  have fin: "prompt_messages (apply_event s' (RunCancelled at)) = prompt_messages s'" if "state_wf s'" for s' at
    using prompt_appended [OF that, of "RunCancelled at"]
    by (simp add: is_seeded_def event_ok_def event_bodies_def map_filter_simps)
  show ?thesis
    by (cases "aborted_message a i") (simp_all add: cancel_events_def s1 ab fin)
qed

text \<open>
  C13: An agent that owes its parent a structured result and ends its turn with plain text is never left
  with nobody to wake it. Once its runtime is there, handling the run's report either starts another turn
  (what had queued, or the nudge), or parks it with an armed timer or a running child to wake it and tells
  the parent so, or, when both nudges are spent, reports the failure to the parent.\<close>

theorem owed_result_is_never_forgotten:
  assumes "ac_running a = Some (rp_run_id r)" "\<not> ac_preparing a" "ac_ready a"
    "ap_requires_result (ac_params a)" "rp_outcome r = ROCompleted body"
    "handle_command a s (RunFinished r) i = (a', out, fx)"
  shows "busy a' \<or> OutParked (ac_journal_id a) \<in> set (delivered out) \<and> something_will_wake s \<or>
    (\<exists>why. OutFailed (ac_journal_id a) why False False \<in> set (delivered out)) \<and> 2 \<le> st_nudges s"
proof -
  let ?b = "a\<lparr> ac_running := None, ac_cancel_acks := [] \<rparr>"
  obtain b1 out1 fx1 where e: "ended_without_result ?b s i = (b1, out1, fx1)" by (metis prod_cases3)
  then have "\<exists>pre. handle_command a s (RunFinished r) i = (b1, pre @ usage_report ?b s # out1, fx1)"
    using assms(1,4,5) by (simp add: handle_command_def run_handle_def handle_finished_def conclude_def Let_def)
  with assms(6) obtain pre where [simp]: "b1 = a'" and out: "out = pre @ usage_report ?b s # out1" by auto
  have "\<not> busy ?b" using assms(2) by (simp add: busy_def)
  from ended_without_result_settles [OF e this] assms(3) show ?thesis
    by (auto simp: MAX_RESULT_NUDGES_def out usage_report_def)
qed

definition sample_finished :: run_report where
  "sample_finished = \<lparr> rp_run_id = 0, rp_outcome = ROCompleted ''done'', rp_seed_summary = None \<rparr>"

definition sample_owing :: actor where
  "sample_owing = (actor_new ''step'' (sample_params True) False True)\<lparr> ac_running := Some 0, ac_next_run_id := 1 \<rparr>"

theorem owed_result_is_never_forgotten_witness:
  "\<exists>a' out fx. handle_command sample_owing agent_state_default (RunFinished sample_finished) sample_agent_io = (a', out, fx) \<and> busy a'"
proof -
  obtain a' out fx where h: "handle_command sample_owing agent_state_default (RunFinished sample_finished) sample_agent_io = (a', out, fx)"
    by (metis prod_cases3)
  have "busy a' \<or> something_will_wake agent_state_default \<or> 2 \<le> st_nudges agent_state_default"
    using owed_result_is_never_forgotten [OF _ _ _ _ _ h, of "''done''"]
    by (auto simp: sample_owing_def sample_finished_def actor_new_def sample_params_def)
  moreover have "\<not> something_will_wake agent_state_default \<and> \<not> 2 \<le> st_nudges agent_state_default" by code_simp
  ultimately show ?thesis using h by blast
qed

text \<open>
  Cancelling a run closes its transcript: after the events a cancelled run journals, every tool call
  in the prompt is answered, apart from the calls the agent is parked on, nothing already in the prompt
  is changed or dropped, and the turn is no longer in flight.\<close>

theorem cancelled_run_leaves_no_dangling_call:
  assumes "state_wf s"
  shows "no_dangling (set (parked_call_ids s)) (prompt_messages (foldl apply_event s (cancel_events a s i))) \<and>
    prefix (prompt_messages s) (prompt_messages (foldl apply_event s (cancel_events a s i))) \<and>
    \<not> st_turn_in_flight (foldl apply_event s (cancel_events a s i))"
proof -
  have "no_dangling (set (parked_call_ids s)) (prompt_messages (foldl apply_event s (cancel_events a s i)))"
  proof (cases "aborted_message a i")
    case None
    then show ?thesis by (simp add: cancelled_prompt [OF assms] no_dangling_repaired)
  next
    case (Some m)
    then have "prompt_messages (foldl apply_event s (cancel_events a s i)) =
        (prompt_messages s @ missing_tool_results (prompt_messages s) (parked_call_ids s) (io_now i)) @ [m]"
      by (simp add: cancelled_prompt [OF assms])
    moreover have "message_calls m = []" using Some by (rule aborted_calls)
    ultimately show ?thesis by (simp only: no_dangling_snoc no_dangling_repaired)
  qed
  moreover have "\<not> st_turn_in_flight (foldl apply_event s (cancel_events a s i))"
    by (simp add: cancel_events_def fold_defs)
  ultimately show ?thesis by (simp add: cancelled_prompt [OF assms])
qed

definition sample_calling :: agent_state where
  "sample_calling = apply_event agent_state_default (MessageComplete \<lparr> m_id = ''a1'', m_role = RAssistant,
     m_parts = [PToolCall \<lparr> tc_id = ''c1'', tc_name = ''bash'', tc_input = JNull \<rparr>],
     m_created_at_ms = 3, m_started_at_ms = None \<rparr>)"

theorem cancelled_run_leaves_no_dangling_call_witness:
  "\<not> no_dangling {} (prompt_messages sample_calling) \<and>
   no_dangling {} (prompt_messages (foldl apply_event sample_calling (cancel_events sample_actor sample_calling sample_agent_io)))"
proof -
  have "state_wf sample_calling"
    unfolding sample_calling_def by (rule apply_event_wf) (simp_all add: event_ok_def)
  moreover have "parked_call_ids sample_calling = []"
    by (simp add: parked_call_ids_def sample_calling_def fold_defs agent_state_default_def map_filter_simps)
  moreover have "\<not> no_dangling {} (prompt_messages sample_calling)"
    by (simp add: no_dangling_iff prompt_messages_def last_boundary_def entry_boundary_def entry_message_def
        sample_calling_def fold_defs agent_state_default_def map_filter_simps message_calls_def
        message_results_def answered_ids_def)
  ultimately show ?thesis
    using cancelled_run_leaves_no_dangling_call [of sample_calling sample_actor sample_agent_io] by simp
qed

section \<open>Timers that fire\<close>

lemma timers_kept:
  "st_timers (apply_event s (InputMessage m)) = st_timers s" "st_timers (apply_event s (HookRan r n at)) = st_timers s"
  "st_timers (apply_event s (TurnBegan c an at)) = st_timers s"
  by (simp_all add: fold_defs)

lemma timers_untouched:
  "list_all turn_event evs \<Longrightarrow> st_timers (foldl apply_event s evs) = st_timers s"
  by (induction evs arbitrary: s) (auto simp: timers_kept turn_event_def split: agent_event.splits)

lemma try_drain_events: "try_drain a s i = (a', out, evs) \<Longrightarrow> list_all turn_event evs"
  by (auto simp: try_drain_def split: if_splits option.splits intro: begin_turn_turn_events)

definition no_sleep :: "outgoing list \<Rightarrow> bool" where
  "no_sleep out \<longleftrightarrow> (\<forall>tid n. Sleep tid n \<notin> set out)"

lemma start_prepared_no_sleep: "start_prepared a p s i = (a', out, evs) \<Longrightarrow> no_sleep out"
  by (auto simp: start_prepared_def start_run_def Let_def no_sleep_def split: option.splits)

lemma begin_turn_no_sleep:
  assumes "begin_turn a t s i = (a', out, evs)"
  shows "no_sleep out"
proof -
  let ?p = "\<lparr> ps_turn = t, ps_records = [], ps_abandon = None \<rparr>"
  obtain b out1 evs1 where "start_prepared a ?p s i = (b, out1, evs1)" by (metis prod_cases3)
  with assms start_prepared_no_sleep [OF this] show ?thesis
    by (auto simp: begin_turn_def Let_def no_sleep_def split: if_splits)
qed

lemma try_drain_no_sleep: "try_drain a s i = (a', out, evs) \<Longrightarrow> no_sleep out"
  by (auto simp: try_drain_def split: if_splits option.splits intro: begin_turn_no_sleep)
    (simp_all add: no_sleep_def)

text \<open>
  A timer that fires does exactly one thing to the list of timers: a one-shot is removed, a recurring
  one is re-armed in place for its interval with its count one higher and slept on again. One wake, named
  after the timer and its count, is queued behind it. A sleep whose timer is gone does nothing at all.\<close>

theorem timer_fires_once:
  assumes "handle_command a s (FireTimer tid) i = (a', out, fx)"
  shows "(case find (\<lambda>t. tm_id t = tid) (st_timers s) of
      None \<Rightarrow> a' = a \<and> out = [] \<and> fx_events fx = []
    | Some t \<Rightarrow>
        st_timers (foldl apply_event s (fx_events fx)) = timers_fired tid (timer_rearm t (io_now i)) (st_timers s) \<and>
        (tm_kind t = Recurring \<longleftrightarrow> Sleep tid (duration_from_secs (tm_interval_secs t)) \<in> set out) \<and>
        (\<exists>rest. fx_events fx = [TimerFired tid (timer_rearm t (io_now i)) (io_now i),
           Received (IncTimer (tid @ '':'' @ show_nat (unat (tm_fire_count t + 1)))
             (wake_message t (tm_fire_count t + 1))) (io_now i)] @ rest))"
proof (cases "find (\<lambda>t. tm_id t = tid) (st_timers s)")
  case None
  with assms show ?thesis by (simp add: handle_command_def timers_handle_def handle_timer_fired_def)
next
  case (Some t)
  let ?evs = "[TimerFired tid (timer_rearm t (io_now i)) (io_now i),
     Received (IncTimer (tid @ '':'' @ show_nat (unat (tm_fire_count t + 1))) (wake_message t (tm_fire_count t + 1))) (io_now i)]"
  obtain out1 evs where d: "try_drain a (foldl apply_event s ?evs) i = (a', out1, evs)"
    and o: "out = (case tm_kind t of Recurring \<Rightarrow> [Sleep tid (duration_from_secs (tm_interval_secs t))] | OneShot \<Rightarrow> []) @ out1"
    and fx: "fx_events fx = ?evs @ evs"
    using assms Some
    by (auto simp: handle_command_def timers_handle_def handle_timer_fired_def Let_def split: prod.splits)
  have "st_timers (foldl apply_event s ?evs) = timers_fired tid (timer_rearm t (io_now i)) (st_timers s)"
    by (simp add: fold_defs)
  then have "st_timers (foldl apply_event s (fx_events fx)) = timers_fired tid (timer_rearm t (io_now i)) (st_timers s)"
    unfolding fx foldl_append using timers_untouched [OF try_drain_events [OF d]] by simp
  moreover have "Sleep tid n \<notin> set out1" for n
    using try_drain_no_sleep [OF d] by (simp add: no_sleep_def)
  ultimately show ?thesis using Some o fx by (auto split: timer_kind.splits)
qed

definition sample_armed :: agent_state where
  "sample_armed = agent_state_default\<lparr> st_timers := [\<lparr> tm_id = ''t1'', tm_label = ''build'', tm_message = ''check'',
     tm_kind = Recurring, tm_interval_secs = 60, tm_fire_at_unix_ms = 5, tm_fire_count = 0 \<rparr>] \<rparr>"

theorem timer_fires_once_witness:
  "\<exists>a' out fx. handle_command sample_actor sample_armed (FireTimer ''t1'') sample_agent_io = (a', out, fx) \<and>
     Sleep ''t1'' (duration_from_secs 60) \<in> set out \<and>
     map tm_id (st_timers (foldl apply_event sample_armed (fx_events fx))) = [''t1'']"
proof -
  obtain a' out fx where h: "handle_command sample_actor sample_armed (FireTimer ''t1'') sample_agent_io = (a', out, fx)"
    by (metis prod_cases3)
  from timer_fires_once [OF h] have "Sleep ''t1'' (duration_from_secs 60) \<in> set out \<and>
     map tm_id (st_timers (foldl apply_event sample_armed (fx_events fx))) = [''t1'']"
    by (simp add: sample_armed_def timer_rearm_def)
  then show ?thesis unfolding h by simp
qed

section \<open>Where the code and its comments part\<close>

text \<open>
  C36: Between a turn's start and the end of its start hooks the message that started it is nowhere. When
  hooks are due, draining the queue journals the turn's beginning alone; the fold then has an empty queue
  and an unchanged prompt, so a process that dies before the hooks return comes back without the message,
  where the comment on \<open>begin_turn\<close> says the queue is still owed and the message is redelivered.\<close>

theorem message_lost_in_the_hook_window:
  assumes "\<not> busy a" "ac_ready a" "ac_has_start_hooks a" "\<not> ac_start_hook_fired a" "state_wf s"
    "queued_turn (st_inbox s) (st_asks s) = Some t" "try_drain a s i = (a', out, evs)"
  shows "evs = [TurnBegan (t_consumed t) (t_answered t) (io_now i)] \<and> st_inbox (foldl apply_event s evs) = [] \<and>
    prompt_messages (foldl apply_event s evs) = prompt_messages s"
proof -
  have b: "begin_turn a t s i = (a', out, evs)" using assms(1,2,6,7) by (simp add: try_drain_def)
  then have evs: "evs = [TurnBegan (t_consumed t) (t_answered t) (io_now i)]"
    using assms(3,4) by (auto simp: begin_turn_def start_turn_of_def Let_def)
  have "t_consumed t = map incoming_id (st_inbox s)" using assms(6) by (rule qturn.turn_consumes_all)
  moreover have "prompt_messages (apply_event s (TurnBegan c an at)) = prompt_messages s" for c an at
    using prompt_appended [OF assms(5), of "TurnBegan c an at"]
    by (simp add: is_seeded_def event_ok_def event_bodies_def body_message_def map_filter_simps)
  ultimately show ?thesis using begin_turn_empties(1) [OF b] evs by simp
qed

theorem message_lost_in_the_hook_window_witness:
  "st_inbox sample_waiting = [IncUser ''m1'' ''hello'' []] \<and>
   st_inbox (foldl apply_event sample_waiting (snd (snd (try_drain (sample_actor\<lparr> ac_has_start_hooks := True \<rparr>) sample_waiting sample_agent_io)))) = [] \<and>
   prompt_messages (foldl apply_event sample_waiting (snd (snd (try_drain (sample_actor\<lparr> ac_has_start_hooks := True \<rparr>) sample_waiting sample_agent_io)))) = []"
proof -
  let ?a = "sample_actor\<lparr> ac_has_start_hooks := True \<rparr>"
  obtain a' out evs where d: "try_drain ?a sample_waiting sample_agent_io = (a', out, evs)" by (metis prod_cases3)
  have wf: "state_wf sample_waiting"
    unfolding sample_waiting_def by (rule apply_event_wf) (simp_all add: event_ok_def)
  have i: "st_inbox sample_waiting = [IncUser ''m1'' ''hello'' []]" "prompt_messages sample_waiting = []" by code_simp+
  obtain t where t: "queued_turn (st_inbox sample_waiting) (st_asks sample_waiting) = Some t"
    using queued_user [of "IncUser ''m1'' ''hello'' []" "st_inbox sample_waiting" "st_asks sample_waiting"] i by auto
  have "\<not> busy ?a" "ac_ready ?a" "\<not> ac_start_hook_fired ?a" by (simp_all add: busy_def sample_actor_def actor_new_def)
  then have "st_inbox (foldl apply_event sample_waiting evs) = [] \<and>
      prompt_messages (foldl apply_event sample_waiting evs) = prompt_messages sample_waiting"
    using message_lost_in_the_hook_window [OF _ _ _ _ wf t d, THEN conjunct2] by simp
  then show ?thesis using i unfolding d by simp
qed

text \<open>
  Cancelling while a turn's start hooks run stops nothing. The canceller is acknowledged at once, as
  if nothing were in flight, no token is fired, and the prepared start that follows starts the run, where
  the comment on the handler says that the caller's guarantee already holds.\<close>

theorem cancel_while_preparing_is_ignored:
  assumes "ac_running a = None" "ac_preparing a" "ps_abandon p = None"
  shows "handle_command a s (CancelRun (Some k)) i = (a, [AckCancel k], fx_none) \<and>
    spawned_runs (fst (snd (handle_command a s' (StartPrepared p) i'))) = [ac_next_run_id a]"
  using assms
  by (simp add: handle_command_def run_handle_def queue_handle_def start_prepared_def start_run_def Let_def)

theorem cancel_while_preparing_is_ignored_witness:
  "spawned_runs (fst (snd (handle_command (sample_actor\<lparr> ac_preparing := True \<rparr>) sample_waiting
     (StartPrepared \<lparr> ps_turn = drain [], ps_records = [], ps_abandon = None \<rparr>) sample_agent_io))) = [0]"
  using cancel_while_preparing_is_ignored [of "sample_actor\<lparr> ac_preparing := True \<rparr>"
      "\<lparr> ps_turn = drain [], ps_records = [], ps_abandon = None \<rparr>" sample_waiting 1 sample_agent_io sample_waiting sample_agent_io]
  by (simp add: sample_actor_def actor_new_def)

text \<open>
  Answering the pending questions starts a turn whether or not the session has a runtime. The answer
  path takes no notice of the readiness that gates every other start, so an agent whose session has failed
  for good still begins one, where the comment on \<open>runtime_readiness\<close> says it must not.\<close>

theorem answer_starts_a_turn_without_a_runtime:
  assumes "\<not> ac_ready a" "\<not> busy a" "answered_turn (st_inbox s) (st_asks s) answers = Inr t"
    "handle_command a s (Answer answers) i = (a', out, fx)"
  shows "busy a' \<and> \<not> ac_ready a' \<and> (spawned_runs out \<noteq> [] \<or> spawned_preps out \<noteq> [])"
proof -
  obtain out1 evs where b: "begin_turn a t s i = (a', out1, evs)" and out: "out = Reply (RpAnswer None) # out1"
    using assms(2-4) by (auto simp: handle_command_def queue_handle_def split: prod.splits)
  have "run_step a out1 a'" using begin_turn_step [OF assms(2) b] .
  moreover have "busy a'" using begin_turn_busy [OF b] .
  ultimately have "spawned_runs out1 \<noteq> [] \<or> spawned_preps out1 \<noteq> []"
    using assms(2) by (auto simp: run_step_def idle_step_def busy_def)
  moreover have "ac_ready a' = ac_ready a"
    using b by (auto simp: begin_turn_def start_prepared_def start_run_def Let_def split: if_splits)
  ultimately show ?thesis using assms(1) \<open>busy a'\<close> out by simp
qed

theorem answer_starts_a_turn_without_a_runtime_witness:
  "busy (fst (handle_command (sample_actor\<lparr> ac_ready := False \<rparr>) (agent_state_default\<lparr> st_asks := [sample_ask] \<rparr>)
     (Answer [\<lparr> aa_call_id = ''q1'', aa_text = ''yes'' \<rparr>]) sample_agent_io))"
proof -
  let ?a = "sample_actor\<lparr> ac_ready := False \<rparr>" and ?s = "agent_state_default\<lparr> st_asks := [sample_ask] \<rparr>"
  let ?ans = "[\<lparr> aa_call_id = ''q1'', aa_text = ''yes'' \<rparr>]"
  obtain a' out fx where h: "handle_command ?a ?s (Answer ?ans) sample_agent_io = (a', out, fx)" by (metis prod_cases3)
  have "\<exists>t. answered_turn (st_inbox ?s) (st_asks ?s) ?ans = Inr t"
    by (simp add: answered_turn_def sample_ask_def map_filter_simps)
  then obtain t where "answered_turn (st_inbox ?s) (st_asks ?s) ?ans = Inr t" by blast
  then show ?thesis
    using answer_starts_a_turn_without_a_runtime [OF _ _ _ h] h
    by (simp add: busy_def sample_actor_def actor_new_def)
qed

end
