(* ===== verification/Agent_System.thy ===== *)
theory Agent_System
  imports Agent_Conduct "HOL-Library.Multiset"
begin

text \<open>
  The agent actor together with what it sets going: its mailbox, the prepare and run tasks that are
  alive, and the journal. \<open>agent_step\<close> is the step relation: a client's command arrives, the actor
  handles the head of its mailbox (persisting and folding the events), a prepare task or a run task
  reports back, a run hands over progress, the process dies and the actor is rebuilt from the journal.
  A mailbox entry carries the id of the run that sent it, when a run did. The locale
  \<open>invariant_system\<close> is the reachability argument; it is interpreted on \<open>agent_step\<close> and \<open>sys_inv\<close>.
\<close>

section \<open>Configurations and steps\<close>

type_synonym mail = "(nat option \<times> agent_command) list"

record agent_sys =
  sy_actor :: actor
  sy_state :: agent_state
  sy_journal :: "agent_event list"
  sy_mail :: mail
  sy_runs :: "nat list"
  sy_preps :: "turn list"
  sy_alive :: bool

definition post :: "outgoing list \<Rightarrow> agent_sys \<Rightarrow> agent_sys" where
  "post out y = y\<lparr> sy_mail := sy_mail y @ map (Pair None) (self_sent out),
     sy_runs := sy_runs y @ spawned_runs out, sy_preps := sy_preps y @ spawned_preps out \<rparr>"

definition commit_handled :: "handled \<Rightarrow> agent_sys \<Rightarrow> agent_sys" where
  "commit_handled h y = (case h of (a, out, fx) \<Rightarrow>
     post out (y\<lparr> sy_actor := (if fx_events fx = [] then a else on_events_persisted a (fx_events fx)),
       sy_state := foldl apply_event (sy_state y) (fx_events fx),
       sy_journal := sy_journal y @ fx_events fx,
       sy_alive := \<not> fx_stop fx \<rparr>))"

text \<open>A fresh actor over a recovered journal.\<close>

definition load_agent :: "actor \<Rightarrow> agent_event list \<Rightarrow> io \<Rightarrow> agent_sys" where
  "load_agent fresh journal i =
     (let s = foldl apply_event agent_state_default journal;
          (a, out) = on_recovery_complete fresh s i
      in post out \<lparr> sy_actor = a, sy_state = s, sy_journal = journal, sy_mail = [], sy_runs = [],
           sy_preps = [], sy_alive = True \<rparr>)"

definition from_client :: "agent_command \<Rightarrow> bool" where
  "from_client c = (case c of StartPrepared p \<Rightarrow> False | RunFinished r \<Rightarrow> False
     | PersistProgress evs ack \<Rightarrow> False | SeedFrom st m inc rpl \<Rightarrow> state_wf st | _ \<Rightarrow> True)"

inductive agent_step :: "agent_sys \<Rightarrow> agent_sys \<Rightarrow> bool" where
  client: "from_client c \<Longrightarrow> agent_step y (y\<lparr> sy_mail := sy_mail y @ [(None, c)] \<rparr>)"
| handle: "sy_alive y \<Longrightarrow> sy_mail y = (w, c) # rest \<Longrightarrow>
    agent_step y (commit_handled (handle_command (sy_actor y) (sy_state y) c i) (y\<lparr> sy_mail := rest \<rparr>))"
| prepared: "sy_preps y = ps @ t # qs \<Longrightarrow>
    agent_step y (y\<lparr> sy_preps := ps @ qs, sy_mail := sy_mail y @ [(None, StartPrepared (prepare_result t r))] \<rparr>)"
| progress: "r \<in> set (sy_runs y) \<Longrightarrow> list_all event_ok evs \<Longrightarrow>
    agent_step y (y\<lparr> sy_mail := sy_mail y @ [(Some r, PersistProgress evs ack)] \<rparr>)"
| finished: "sy_runs y = ps @ rp_run_id rep # qs \<Longrightarrow>
    agent_step y (y\<lparr> sy_runs := ps @ qs, sy_mail := sy_mail y @ [(None, RunFinished rep)] \<rparr>)"
| reload: "agent_step y (load_agent (actor_new jid params hooks ready) (sy_journal y) i)"

inductive_cases agent_stepE: "agent_step y y'"

definition agent_init :: "agent_sys \<Rightarrow> bool" where
  "agent_init y \<longleftrightarrow> (\<exists>jid params hooks ready i. y = load_agent (actor_new jid params hooks ready) [] i)"

section \<open>Reachability\<close>

locale invariant_system =
  fixes step :: "'c \<Rightarrow> 'c \<Rightarrow> bool" and init :: "'c \<Rightarrow> bool" and inv :: "'c \<Rightarrow> bool"
  assumes inv_init: "init c \<Longrightarrow> inv c"
    and inv_step: "step c c' \<Longrightarrow> inv c \<Longrightarrow> inv c'"
begin

lemma inv_steps: "step\<^sup>*\<^sup>* c c' \<Longrightarrow> inv c \<Longrightarrow> inv c'"
  by (induction rule: rtranclp_induct) (auto intro: inv_step)

lemma inv_reachable: "init c \<Longrightarrow> step\<^sup>*\<^sup>* c c' \<Longrightarrow> inv c'"
  using inv_init inv_steps by blast

end

section \<open>The invariant\<close>

definition running_list :: "actor \<Rightarrow> nat list" where
  "running_list a = (case ac_running a of Some r \<Rightarrow> [r] | None \<Rightarrow> [])"

definition reports :: "mail \<Rightarrow> nat list" where
  "reports ms = List.map_filter (\<lambda>(w, c). case c of RunFinished rep \<Rightarrow> Some (rp_run_id rep) | _ \<Rightarrow> None) ms"

definition prepared_starts :: "mail \<Rightarrow> prepared_start list" where
  "prepared_starts ms = List.map_filter (\<lambda>(w, c). case c of StartPrepared p \<Rightarrow> Some p | _ \<Rightarrow> None) ms"

text \<open>After a run's report no entry of any run follows.\<close>

fun report_last :: "mail \<Rightarrow> bool" where
  "report_last [] = True"
| "report_last ((w, c) # ms) = ((reports [(w, c)] \<noteq> [] \<longrightarrow> list_all (\<lambda>(w', c'). w' = None) ms) \<and> report_last ms)"

definition exclusive :: "actor \<Rightarrow> bool" where
  "exclusive a \<longleftrightarrow> \<not> (ac_running a \<noteq> None \<and> ac_preparing a) \<and>
     (\<forall>r. ac_running a = Some r \<longrightarrow> r < ac_next_run_id a)"

definition books :: "actor \<Rightarrow> nat list \<Rightarrow> turn list \<Rightarrow> mail \<Rightarrow> bool" where
  "books a runs preps ms \<longleftrightarrow> exclusive a \<and> mset runs + mset (reports ms) = mset (running_list a) \<and>
     length preps + length (prepared_starts ms) = of_bool (ac_preparing a)"

definition writers :: "actor \<Rightarrow> mail \<Rightarrow> bool" where
  "writers a ms \<longleftrightarrow> report_last ms \<and> list_all (\<lambda>(w, c). w = None \<or> w = ac_running a) ms"

definition journal_inv :: "agent_sys \<Rightarrow> bool" where
  "journal_inv y \<longleftrightarrow> sy_state y = foldl apply_event agent_state_default (sy_journal y) \<and>
     list_all event_ok (sy_journal y) \<and> list_all (\<lambda>(w, c). command_ok c) (sy_mail y)"

definition sys_inv :: "agent_sys \<Rightarrow> bool" where
  "sys_inv y \<longleftrightarrow> books (sy_actor y) (sy_runs y) (sy_preps y) (sy_mail y) \<and>
     writers (sy_actor y) (sy_mail y) \<and> journal_inv y"

lemma mail_simps [simp]:
  "reports [] = []" "reports (xs @ ys) = reports xs @ reports ys"
  "reports ((w, c) # ys) = (case c of RunFinished rep \<Rightarrow> [rp_run_id rep] | _ \<Rightarrow> []) @ reports ys"
  "prepared_starts [] = []" "prepared_starts (xs @ ys) = prepared_starts xs @ prepared_starts ys"
  "prepared_starts ((w, c) # ys) = (case c of StartPrepared p \<Rightarrow> [p] | _ \<Rightarrow> []) @ prepared_starts ys"
  by (simp_all add: reports_def prepared_starts_def map_filter_def split: agent_command.splits)

lemma ordinary_mail [simp]:
  "list_all harmless cs \<Longrightarrow> reports (map (Pair None) cs) = []"
  "list_all harmless cs \<Longrightarrow> prepared_starts (map (Pair None) cs) = []"
  by (induction cs) (auto simp: harmless_def split: agent_command.splits)

lemma report_last_append:
  "report_last (xs @ ys) \<longleftrightarrow> report_last xs \<and> report_last ys \<and>
     (reports xs \<noteq> [] \<longrightarrow> list_all (\<lambda>(w, c). w = None) ys)"
  by (induction xs rule: report_last.induct) (auto split: agent_command.splits)

lemma report_last_untagged [simp]: "list_all (\<lambda>(w, c). w = None) ms \<Longrightarrow> report_last ms"
  by (induction ms rule: report_last.induct) auto

lemma untagged_self [simp]: "list_all (\<lambda>(w, c). w = None) (map (Pair None) cs)"
  by (simp add: list_all_iff)

lemma mset_eq_singleton_append: "mset xs + mset ys = {#r#} \<Longrightarrow> r \<in> set xs \<Longrightarrow> xs = [r] \<and> ys = []"
  by (cases xs) auto

section \<open>Every step keeps it\<close>

text \<open>The books of a handler: what it starts is added to what is in flight.\<close>

lemma run_step_books:
  assumes "run_step a out a'" "exclusive a"
  shows "exclusive a'" "running_list a' = running_list a @ spawned_runs out"
    "of_bool (ac_preparing a') = of_bool (ac_preparing a) + length (spawned_preps out)"
    "list_all harmless (self_sent out)" "ac_running a \<noteq> None \<Longrightarrow> ac_running a' = ac_running a"
  using assms
  by (auto simp: run_step_def idle_step_def exclusive_def running_list_def busy_def
      split: if_splits option.splits)

lemma books_same: "same_run a b \<Longrightarrow> exclusive b = exclusive a" "same_run a b \<Longrightarrow> running_list b = running_list a"
  by (simp_all add: same_run_def exclusive_def running_list_def)

lemma books_step:
  assumes "books a runs preps ms" "run_step a out a'" "same_run a' b"
  shows "books b (runs @ spawned_runs out) (preps @ spawned_preps out) (ms @ map (Pair None) (self_sent out))"
  using run_step_books [OF assms(2)] books_same [OF assms(3)] assms(1,3)
  by (simp add: books_def same_run_def)

lemma writers_step:
  assumes "writers a ms" "exclusive a" "run_step a out a'" "same_run a' b"
  shows "writers b (ms @ map (Pair None) (self_sent out))"
proof -
  have "w = None \<or> w = ac_running b" if "w = None \<or> w = ac_running a" for w
    using that run_step_books(5) [OF assms(3,2)] assms(4) by (cases "ac_running a") (auto simp: same_run_def)
  with assms(1) show ?thesis
    by (fastforce simp: writers_def report_last_append list_all_iff)
qed

text \<open>
  The mailbox's head is taken: a prepared start ends the preparation, a report ends the run it names,
  which is the running one, and neither leaves anything of its own behind.
\<close>

lemma take_ordinary:
  assumes "books a runs preps ((w, c) # ms)" "writers a ((w, c) # ms)" "ordinary c"
  shows "books a runs preps ms \<and> writers a ms"
  using assms by (auto simp: books_def writers_def ordinary_def split: agent_command.splits)

lemma take_prepared:
  assumes "books a runs preps ((w, StartPrepared p) # ms)" "writers a ((w, StartPrepared p) # ms)"
  shows "ac_running a = None" "books (a\<lparr> ac_preparing := False \<rparr>) runs preps ms"
    "writers (a\<lparr> ac_preparing := False \<rparr>) ms"
  using assms by (auto simp: books_def writers_def exclusive_def running_list_def of_bool_def split: if_splits)

lemma take_report:
  assumes "books a runs preps ((w, RunFinished rep) # ms)" "writers a ((w, RunFinished rep) # ms)"
  shows "ac_running a = Some (rp_run_id rep)" "books (a\<lparr> ac_running := None \<rparr>) runs preps ms"
    "list_all (\<lambda>(w, c). w = None) ms"
  using assms
  by (auto simp: books_def writers_def exclusive_def running_list_def split: option.splits)

lemma untagged_writers: "list_all (\<lambda>(w, c). w = None) ms \<Longrightarrow> writers a ms"
  by (auto simp: writers_def list_all_iff)

lemma handle_taken:
  assumes "handle_command a s c i = (a', out, fx)" "books a runs preps ((w, c) # ms)" "writers a ((w, c) # ms)"
  shows "\<exists>a0. run_step a0 out a' \<and> books a0 runs preps ms \<and> writers a0 ms"
proof (cases "ordinary c")
  case True
  with assms show ?thesis using handle_command_step take_ordinary by blast
next
  case False
  then consider p where "c = StartPrepared p" | rep where "c = RunFinished rep"
    by (auto simp: ordinary_def split: agent_command.splits)
  then show ?thesis
  proof cases
    case 1
    then show ?thesis
      using assms take_prepared [of a runs preps w p ms] handle_prepared_step [of a s p i a' out fx] by auto
  next
    case 2
    then show ?thesis
      using assms take_report [of a runs preps w rep ms] handle_finished_step [of a s rep i a' out fx]
      by (auto intro: untagged_writers)
  qed
qed

lemma handle_books:
  assumes "handle_command a s c i = (a', out, fx)" "books a runs preps ((w, c) # ms)" "writers a ((w, c) # ms)"
    "same_run a' b"
  shows "books b (runs @ spawned_runs out) (preps @ spawned_preps out) (ms @ map (Pair None) (self_sent out)) \<and>
    writers b (ms @ map (Pair None) (self_sent out))"
proof -
  obtain a0 where "run_step a0 out a'" "books a0 runs preps ms" "writers a0 ms"
    using handle_taken [OF assms(1-3)] by blast
  then show ?thesis
    using books_step [of a0 runs preps ms out a' b] writers_step [of a0 ms out a' b] assms(4)
    by (simp add: books_def [of a0])
qed

lemma harmless_ok: "harmless c \<Longrightarrow> command_ok c"
  by (auto simp: harmless_def command_ok_def list_all_iff plain_ok split: agent_command.splits)

lemma harmless_mail_ok: "list_all harmless cs \<Longrightarrow> list_all (\<lambda>(w, c). command_ok c) (map (Pair None) cs)"
  by (auto simp: list_all_iff harmless_ok)

lemma handle_harmless:
  assumes "handle_command a s c i = (a', out, fx)" "books a runs preps ((w, c) # ms)" "writers a ((w, c) # ms)"
  shows "list_all harmless (self_sent out)"
  using handle_taken [OF assms] by (auto simp: run_step_def)

lemma journal_inv_commit:
  assumes "journal_inv y" "list_all event_ok evs"
  shows "sy_state y = foldl apply_event agent_state_default (sy_journal y)"
    "state_wf (foldl apply_event (sy_state y) evs)"
  using assms agent.inv_replay [of "sy_journal y @ evs"] by (auto simp: journal_inv_def list_all_iff)

lemma handle_inv:
  assumes "sys_inv y" "sy_mail y = (w, c) # ms"
  shows "sys_inv (commit_handled (handle_command (sy_actor y) (sy_state y) c i) (y\<lparr> sy_mail := ms \<rparr>))"
proof -
  obtain a' out fx where h: "handle_command (sy_actor y) (sy_state y) c i = (a', out, fx)" by (metis prod_cases3)
  have inv: "books (sy_actor y) (sy_runs y) (sy_preps y) ((w, c) # ms)" "writers (sy_actor y) ((w, c) # ms)"
    "journal_inv y" "command_ok c"
    using assms by (auto simp: sys_inv_def journal_inv_def)
  have "state_wf (sy_state y)" using journal_inv_commit [of y "[]"] inv by simp
  then have ok: "list_all event_ok (fx_events fx)" using handle_command_events_ok [OF h] inv by blast
  let ?b = "if fx_events fx = [] then a' else on_events_persisted a' (fx_events fx)"
  have b: "same_run a' ?b" by simp
  from ok inv assms(2) handle_harmless [OF h inv(1,2)] have "journal_inv (commit_handled (a', out, fx) (y\<lparr> sy_mail := ms \<rparr>))"
    by (auto simp: journal_inv_def commit_handled_def post_def harmless_mail_ok)
  with handle_books [OF h inv(1,2) b] show ?thesis
    by (auto simp: sys_inv_def h commit_handled_def post_def)
qed

lemma load_inv:
  assumes "list_all event_ok evs"
  shows "sys_inv (load_agent (actor_new jid params hooks ready) evs i)"
proof -
  let ?a = "actor_new jid params hooks ready" and ?s = "foldl apply_event agent_state_default evs"
  obtain a out where l: "on_recovery_complete ?a ?s i = (a, out)" by fastforce
  have "\<not> busy ?a" by (simp add: busy_def actor_new_def)
  then have step: "run_step ?a out a" using l by (rule recovery_step)
  have a: "books ?a [] [] []" "writers ?a []"
    by (simp_all add: books_def exclusive_def running_list_def actor_new_def writers_def)
  from run_step_books(4) [OF step] a have "list_all harmless (self_sent out)" by (simp add: books_def)
  with books_step [OF a(1) step, of a] writers_step [OF a(2) _ step, of a] a assms show ?thesis
    by (auto simp: load_agent_def l sys_inv_def post_def journal_inv_def harmless_mail_ok books_def)
qed

text \<open>An entry appended to the mailbox.\<close>

lemma append_writers:
  assumes "writers a ms" "w = None \<or> w = ac_running a \<and> reports ms = []"
  shows "writers a (ms @ [(w, c)])"
  using assms by (auto simp: writers_def report_last_append)

lemma agent_step_inv: "agent_step y y' \<Longrightarrow> sys_inv y \<Longrightarrow> sys_inv y'"
proof (induction rule: agent_step.induct)
  case (client c y)
  then have "ordinary c" "command_ok c"
    by (auto simp: from_client_def ordinary_def command_ok_def split: agent_command.splits)
  with client show ?case
    by (auto simp: sys_inv_def journal_inv_def books_def ordinary_def intro: append_writers
        split: agent_command.splits)
next
  case (handle y w c rest i)
  then show ?case by (simp add: handle_inv)
next
  case (prepared y ps t qs r)
  then show ?case
    by (auto simp: sys_inv_def journal_inv_def books_def command_ok_def intro: append_writers)
next
  case (progress r y evs ack)
  then have "ac_running (sy_actor y) = Some r" "reports (sy_mail y) = []"
    using mset_eq_singleton_append [of "sy_runs y" "reports (sy_mail y)" r]
    by (auto simp: sys_inv_def books_def running_list_def split: option.splits)
      (metis add_mset_not_empty add_eq_conv_ex empty_iff in_multiset_in_set mset_single_iff_right set_mset_single singletonD union_iff)+
  with progress show ?case
    by (auto simp: sys_inv_def journal_inv_def books_def command_ok_def intro: append_writers)
next
  case (finished y ps rep qs)
  then show ?case
    by (auto simp: sys_inv_def journal_inv_def books_def command_ok_def intro: append_writers)
next
  case (reload y jid params hooks ready i)
  then have "list_all event_ok (sy_journal y)" by (simp add: sys_inv_def journal_inv_def)
  then show ?case by (rule load_inv)
qed

interpretation agents: invariant_system agent_step agent_init sys_inv
  by unfold_locales (auto simp: agent_init_def load_inv agent_step_inv)

section \<open>A small execution\<close>

text \<open>A message arrives, is queued and drained into a run, and the run reports back.\<close>

definition sample_loaded :: agent_sys where
  "sample_loaded = load_agent sample_actor [] sample_agent_io"

definition handle_head :: "agent_sys \<Rightarrow> agent_sys" where
  "handle_head y = commit_handled (handle_command (sy_actor y) (sy_state y) (snd (hd (sy_mail y))) sample_agent_io)
     (y\<lparr> sy_mail := tl (sy_mail y) \<rparr>)"

definition sample_queued :: agent_sys where
  "sample_queued = sample_loaded\<lparr> sy_mail := sy_mail sample_loaded @ [(None, Enqueue (IncUser ''m1'' ''hello'' []) None)] \<rparr>"

definition sample_running :: agent_sys where
  "sample_running = handle_head (handle_head sample_queued)"

definition sample_report :: run_report where
  "sample_report = \<lparr> rp_run_id = 0, rp_outcome = ROCompleted ''done'', rp_seed_summary = None \<rparr>"

definition sample_reported :: agent_sys where
  "sample_reported = sample_running\<lparr> sy_runs := [], sy_mail := sy_mail sample_running @ [(None, RunFinished sample_report)] \<rparr>"

lemma handle_head_step: "sy_alive y \<Longrightarrow> sy_mail y \<noteq> [] \<Longrightarrow> agent_step y (handle_head y)"
  using agent_step.handle [of y "fst (hd (sy_mail y))" "snd (hd (sy_mail y))" "tl (sy_mail y)" sample_agent_io]
  by (simp add: handle_head_def)

lemma sample_init: "agent_init sample_loaded"
  unfolding agent_init_def sample_loaded_def sample_actor_def by blast

lemma sample_facts:
  "sy_alive sample_queued" "sy_mail sample_queued = [(None, Enqueue (IncUser ''m1'' ''hello'' []) None)]"
  "sy_alive (handle_head sample_queued)" "sy_mail (handle_head sample_queued) = [(None, Drain)]"
  "sy_alive sample_running" "sy_mail sample_running = []" "sy_runs sample_running = [0]"
  by code_simp+

lemma sample_reach: "agent_step\<^sup>*\<^sup>* sample_loaded sample_running" "agent_step\<^sup>*\<^sup>* sample_loaded sample_reported"
proof -
  have "agent_step sample_loaded sample_queued"
    unfolding sample_queued_def by (rule agent_step.client) (simp add: from_client_def)
  moreover have "agent_step sample_queued (handle_head sample_queued)"
    "agent_step (handle_head sample_queued) sample_running"
    unfolding sample_running_def using sample_facts by (simp_all add: handle_head_step)
  ultimately show r: "agent_step\<^sup>*\<^sup>* sample_loaded sample_running"
    by (meson rtranclp.rtrancl_into_rtrancl rtranclp.rtrancl_refl)
  have "agent_step sample_running sample_reported"
    using agent_step.finished [of sample_running "[]" sample_report "[]"] sample_facts
    by (simp add: sample_reported_def sample_report_def)
  with r show "agent_step\<^sup>*\<^sup>* sample_loaded sample_reported"
    by (rule rtranclp.rtrancl_into_rtrancl)
qed

section \<open>Properties\<close>

lemma books_bounds:
  assumes "books a runs preps ms"
  shows "length runs + length (reports ms) \<le> 1" "length preps + length (prepared_starts ms) \<le> 1"
    "runs @ reports ms \<noteq> [] \<Longrightarrow> preps = []" "r \<in> set (runs @ reports ms) \<Longrightarrow> ac_running a = Some r"
proof -
  have m: "mset (runs @ reports ms) = mset (running_list a)" using assms by (simp add: books_def)
  have len: "length (running_list a) \<le> 1" by (simp add: running_list_def split: option.splits)
  show "length runs + length (reports ms) \<le> 1" using len mset_eq_length [OF m] by simp
  show "length preps + length (prepared_starts ms) \<le> 1" using assms by (simp add: books_def)
  have set: "set (runs @ reports ms) = set (running_list a)" using m mset_eq_setD by blast
  have "x \<in> set (running_list a) \<Longrightarrow> ac_running a = Some x" for x
    by (auto simp: running_list_def split: option.splits)
  then show "r \<in> set (runs @ reports ms) \<Longrightarrow> ac_running a = Some r" unfolding set by blast
  show "preps = []" if "runs @ reports ms \<noteq> []"
  proof -
    from that set have "running_list a \<noteq> []" by (metis set_empty)
    then have "\<not> ac_preparing a"
      using assms by (auto simp: books_def exclusive_def running_list_def split: option.splits)
    then show ?thesis using assms by (simp add: books_def)
  qed
qed

text \<open>
  C1: In every configuration an agent can reach, through any interleaving of client commands, prepare and
  run tasks reporting back, progress, crashes and reloads, at most one run is alive, at most one turn is
  being prepared, never both at once, and the run that is alive is the one the actor holds the handle of.\<close>

theorem at_most_one_run:
  assumes "agent_init y0" "agent_step\<^sup>*\<^sup>* y0 y"
  shows "length (sy_runs y) \<le> 1 \<and> length (sy_preps y) \<le> 1 \<and> (sy_runs y \<noteq> [] \<longrightarrow> sy_preps y = []) \<and>
    (\<forall>r\<in>set (sy_runs y). ac_running (sy_actor y) = Some r \<and> r < ac_next_run_id (sy_actor y))"
proof -
  have b: "books (sy_actor y) (sy_runs y) (sy_preps y) (sy_mail y)"
    using agents.inv_reachable [OF assms] by (simp add: sys_inv_def)
  then have "exclusive (sy_actor y)" by (simp add: books_def)
  with books_bounds [OF b] show ?thesis by (auto simp: exclusive_def)
qed

theorem at_most_one_run_witness:
  "sy_runs sample_running = [0] \<and> length (sy_runs sample_running) \<le> 1 \<and> sy_preps sample_running = []"
  using at_most_one_run [OF sample_init sample_reach(1)] sample_facts by simp

text \<open>
  C3: When the actor comes to handle a run's report, that run is the one in flight, its task is gone and
  nothing any run wrote is left in the mailbox, so the cancel acknowledgements it sends first, one per
  waiting canceller, are true: the run will write nothing more.\<close>

theorem cancel_ack_after_last_write:
  assumes "agent_init y0" "agent_step\<^sup>*\<^sup>* y0 y" "sy_mail y = (w, RunFinished rep) # rest"
    "handle_command (sy_actor y) (sy_state y) (RunFinished rep) i = (a', out, fx)"
  shows "ac_running (sy_actor y) = Some (rp_run_id rep) \<and> sy_runs y = [] \<and> (\<forall>(w', c)\<in>set rest. w' = None) \<and>
    prefix (map AckCancel (ac_cancel_acks (sy_actor y))) out"
proof -
  have inv: "books (sy_actor y) (sy_runs y) (sy_preps y) ((w, RunFinished rep) # rest)"
    "writers (sy_actor y) ((w, RunFinished rep) # rest)"
    using agents.inv_reachable [OF assms(1,2)] assms(3) by (simp_all add: sys_inv_def)
  then have r: "ac_running (sy_actor y) = Some (rp_run_id rep)" "list_all (\<lambda>(w, c). w = None) rest"
    using take_report by blast+
  moreover have "sy_runs y = []" using books_bounds(1) [OF inv(1)] by simp
  moreover have "prefix (map AckCancel (ac_cancel_acks (sy_actor y))) out"
    using assms(4) r(1) by (auto simp: handle_command_def run_handle_def handle_finished_def Let_def split: prod.splits)
  ultimately show ?thesis by (auto simp: list_all_iff)
qed

theorem cancel_ack_after_last_write_witness:
  "ac_running (sy_actor sample_reported) = Some 0 \<and> sy_runs sample_reported = []"
  using cancel_ack_after_last_write [OF sample_init sample_reach(2), of None sample_report "[]" sample_agent_io]
    sample_facts
  by (cases "handle_command (sy_actor sample_reported) (sy_state sample_reported) (RunFinished sample_report) sample_agent_io")
    (simp add: sample_reported_def sample_report_def)

text \<open>
  C5: In every reachable configuration the agent's state is the fold of its journal, so a reload loses
  nothing, and the state is well-formed: the log's sequence numbers are 0, 1, 2 and so on without a gap,
  every hook entry carries a hook id, and the task list's ids are distinct and below the next one.\<close>

theorem reachable_state_well_formed:
  assumes "agent_init y0" "agent_step\<^sup>*\<^sup>* y0 y"
  shows "sy_state y = foldl apply_event agent_state_default (sy_journal y) \<and> state_wf (sy_state y) \<and>
    map e_seq (st_log (sy_state y)) = [0 ..< st_next_seq (sy_state y)]"
  using agents.inv_reachable [OF assms] journal_inv_commit [of y "[]"]
  by (simp add: sys_inv_def state_wf_def log_wf_def)

theorem reachable_state_well_formed_witness:
  "state_wf (sy_state sample_running) \<and> st_next_seq (sy_state sample_running) = 3 \<and>
     map e_seq (st_log (sy_state sample_running)) = [0, 1, 2]"
proof -
  have "st_next_seq (sy_state sample_running) = 3" by code_simp
  moreover have "[0 ..< 3] = [0, 1, 2 :: nat]" by code_simp
  ultimately show ?thesis
    using reachable_state_well_formed [OF sample_init sample_reach(1)] by metis
qed

end
