(* ===== verification/Ordered_Map.thy ===== *)
theory Ordered_Map
  imports Horsie_Prelude "HOL-Library.List_Lexorder" "HOL-Library.Char_ord"
begin

text \<open>
  \<^verbatim>\<open>std::collections::BTreeMap\<close> keyed by ids: an association list in ascending key order, so that
  iterating it is reading the list. The contract its clients use is a locale over lookup, insertion,
  in-place update and removal, interpreted on these operations.
\<close>

type_synonym 'v btree = "(string \<times> 'v) list"

definition bt_wf :: "'v btree \<Rightarrow> bool" where
  "bt_wf m \<longleftrightarrow> sorted_wrt (<) (map fst m)"

definition bt_get :: "'v btree \<Rightarrow> string \<Rightarrow> 'v option" where
  "bt_get m k = map_of m k"

fun bt_insert :: "string \<Rightarrow> 'v \<Rightarrow> 'v btree \<Rightarrow> 'v btree" where
  "bt_insert k v [] = [(k, v)]"
| "bt_insert k v ((k', v') # m) =
     (if k = k' then (k, v) # m else if k < k' then (k, v) # (k', v') # m else (k', v') # bt_insert k v m)"

text \<open>Writing through \<open>get_mut\<close>: nothing happens to a key that is not there.\<close>

definition bt_update :: "string \<Rightarrow> ('v \<Rightarrow> 'v) \<Rightarrow> 'v btree \<Rightarrow> 'v btree" where
  "bt_update k f m = map (\<lambda>(k', v). (k', if k' = k then f v else v)) m"

definition bt_retain :: "(string \<Rightarrow> 'v \<Rightarrow> bool) \<Rightarrow> 'v btree \<Rightarrow> 'v btree" where
  "bt_retain p m = filter (\<lambda>(k, v). p k v) m"

definition bt_remove :: "string \<Rightarrow> 'v btree \<Rightarrow> 'v btree" where
  "bt_remove k m = bt_retain (\<lambda>k' v. k' \<noteq> k) m"

section \<open>The contract\<close>

locale keyed_store =
  fixes get :: "'m \<Rightarrow> 'k \<Rightarrow> 'v option"
    and put :: "'k \<Rightarrow> 'v \<Rightarrow> 'm \<Rightarrow> 'm"
    and modify :: "'k \<Rightarrow> ('v \<Rightarrow> 'v) \<Rightarrow> 'm \<Rightarrow> 'm"
    and del :: "'k \<Rightarrow> 'm \<Rightarrow> 'm"
    and wf :: "'m \<Rightarrow> bool"
  assumes get_put: "get (put k v m) = (get m)(k \<mapsto> v)"
    and get_modify: "get (modify k f m) = (get m)(k := map_option f (get m k))"
    and get_del: "get (del k m) = (get m)(k := None)"
    and wf_put: "wf m \<Longrightarrow> wf (put k v m)"
    and wf_modify: "wf m \<Longrightarrow> wf (modify k f m)"
    and wf_del: "wf m \<Longrightarrow> wf (del k m)"
begin

lemma get_put_other: "k' \<noteq> k \<Longrightarrow> get (put k v m) k' = get m k'"
  by (simp add: get_put)

lemma get_modify_other: "k' \<noteq> k \<Longrightarrow> get (modify k f m) k' = get m k'"
  by (simp add: get_modify)

lemma modify_absent: "get m k = None \<Longrightarrow> get (modify k f m) = get m"
  by (simp add: get_modify fun_upd_idem)

lemma dom_modify: "dom (get (modify k f m)) = dom (get m)"
  by (auto simp: get_modify)

lemma del_all: "get (fold del ks m) = (\<lambda>k. if k \<in> set ks then None else get m k)"
proof (induction ks arbitrary: m)
  case (Cons k ks)
  show ?case using Cons.IH [of "del k m"] by (auto simp: get_del)
qed simp

lemma wf_del_all: "wf m \<Longrightarrow> wf (fold del ks m)"
  by (induction ks arbitrary: m) (auto intro: wf_del)

end

lemma set_bt_insert: "set (map fst (bt_insert k v m)) = insert k (set (map fst m))"
  by (induction k v m rule: bt_insert.induct) auto

lemma bt_get_insert: "bt_get (bt_insert k v m) = (bt_get m)(k \<mapsto> v)"
  by (induction k v m rule: bt_insert.induct) (auto simp: bt_get_def)

lemma bt_wf_insert: "bt_wf m \<Longrightarrow> bt_wf (bt_insert k v m)"
proof (induction k v m rule: bt_insert.induct)
  case (2 k v k' v' m)
  then show ?case using set_bt_insert [of k v m] by (auto simp: bt_wf_def intro: less_trans)
qed (simp add: bt_wf_def)

lemma bt_get_retain: "bt_wf m \<Longrightarrow> bt_get (bt_retain p m) k = (case bt_get m k of Some v \<Rightarrow> if p k v then Some v else None | None \<Rightarrow> None)"
proof (induction m)
  case (Cons x m)
  obtain k' v' where x: "x = (k', v')" by (cases x)
  from Cons have IH: "bt_get (bt_retain p m) k = (case bt_get m k of Some v \<Rightarrow> if p k v then Some v else None | None \<Rightarrow> None)"
    by (simp add: bt_wf_def)
  have "k' \<notin> set (map fst m)" using Cons.prems x by (auto simp: bt_wf_def)
  then have "bt_get m k' = None" by (simp add: bt_get_def map_of_eq_None_iff)
  with IH x show ?case by (auto simp: bt_get_def bt_retain_def split: if_splits option.splits)
qed (simp add: bt_get_def bt_retain_def)

lemma bt_get_remove: "bt_get (bt_remove k m) = (bt_get m)(k := None)"
  by (induction m) (auto simp: bt_get_def bt_remove_def bt_retain_def)

lemma bt_get_update: "bt_get (bt_update k f m) = (bt_get m)(k := map_option f (bt_get m k))"
  by (induction m) (auto simp: bt_get_def bt_update_def)

lemma keys_bt_update [simp]: "map fst (bt_update k f m) = map fst m"
  by (simp add: bt_update_def o_def case_prod_unfold)

lemma length_bt_update [simp]: "length (bt_update k f m) = length m"
  by (simp add: bt_update_def)

lemma bt_wf_retain: "bt_wf m \<Longrightarrow> bt_wf (bt_retain p m)"
  unfolding bt_wf_def bt_retain_def by (induction m) auto

interpretation bt: keyed_store bt_get bt_insert bt_update bt_remove bt_wf
proof unfold_locales
  show "bt_wf m \<Longrightarrow> bt_wf (bt_update k f m)" for m :: "'a btree" and k f by (simp add: bt_wf_def)
  show "bt_wf m \<Longrightarrow> bt_wf (bt_remove k m)" for m :: "'a btree" and k by (simp add: bt_remove_def bt_wf_retain)
qed (simp_all add: bt_get_insert bt_get_remove bt_get_update bt_wf_insert)

text \<open>In a well-formed tree iterating and looking up see the same entries.\<close>

lemma bt_wf_distinct: "bt_wf m \<Longrightarrow> distinct (map fst m)"
  by (simp add: bt_wf_def strict_sorted_iff)

lemma bt_get_iff: "bt_wf m \<Longrightarrow> bt_get m k = Some v \<longleftrightarrow> (k, v) \<in> set m"
  by (simp add: bt_get_def bt_wf_distinct)

lemma bt_get_mem: "bt_get m k = Some v \<Longrightarrow> (k, v) \<in> set m"
  by (simp add: bt_get_def map_of_SomeD)

lemma card_dom_bt: "bt_wf m \<Longrightarrow> card (dom (bt_get m)) = length m"
  using distinct_card [OF bt_wf_distinct, of m] by (simp add: bt_get_def [abs_def] dom_map_of_conv_image_fst)

end
