(* ===== verification/Workflow.thy ===== *)
theory Workflow
  imports Timers "HOL-Library.AList" "HOL-Library.List_Lexorder" "HOL-Library.Char_ord"
begin

text \<open>
  Workflow definitions and the runs made from them (\<^verbatim>\<open>crates/server/src/workflows/service.rs\<close>,
  \<^verbatim>\<open>crates/server/src/sessions/workflow\<close>): what may be saved, how a saved graph and its presets become
  the self-contained snapshot a run answers from, what a step's result has to look like and how it is
  handed on, and the append-only log of a run with its fold. What the graph does next is
  \<^verbatim>\<open>Workflow_Driver\<close>.

  The database behind the service is a finite map from names to rows; each of its calls may fail,
  which \<open>db\<close> says by the number of the call. Whether a preset exists is a parameter. Step counters
  and indices are natural numbers, the configured budget keeps its 32 bits.
\<close>

section \<open>Definitions\<close>

datatype outcome_filter = FIn "string list" | FNotIn "string list"

record wf_transition =
  wt_to :: string
  wt_when :: "outcome_filter option"

record step_outcome =
  so_value :: string
  so_description :: string

datatype step_field_type = FtString | FtNumber | FtBoolean | FtStringList

record step_field =
  sf_name :: string
  sf_kind :: step_field_type
  sf_description :: string
  sf_required :: "bool option"

record step_def =
  sd_name :: string
  sd_agent :: string
  sd_prompt :: string
  sd_outcomes :: "step_outcome list option"
  sd_fields :: "step_field list option"
  sd_interactive :: "bool option"
  sd_transitions :: "wf_transition list option"
  sd_max_iterations :: "u32 option"
  sd_max_retries :: "u32 option"

record workflow_input =
  wi_name :: string
  wi_description :: "string option"
  wi_start :: string
  wi_steps :: "step_def list"
  wi_max_steps :: "u32 option"

record workflow_row =
  wr_name :: string
  wr_description :: string
  wr_start :: string
  wr_steps :: "step_def list"
  wr_max_steps :: "u32 option"
  wr_created_at :: string
  wr_updated_at :: string

datatype workflow_error =
    WfNotFound string
  | WfConflict string
  | WfInvalid string
  | WfInternal string

fun filter_values :: "outcome_filter \<Rightarrow> string list" where
  "filter_values (FIn vs) = vs"
| "filter_values (FNotIn vs) = vs"

fun filter_matches :: "outcome_filter \<Rightarrow> string \<Rightarrow> bool" where
  "filter_matches (FIn vs) x = list_ex (\<lambda>v. v = x) vs"
| "filter_matches (FNotIn vs) x = (\<not> list_ex (\<lambda>v. v = x) vs)"

fun filter_render :: "outcome_filter \<Rightarrow> string" where
  "filter_render (FIn vs) = ''outcome in ['' @ join '', '' vs @ '']''"
| "filter_render (FNotIn vs) = ''outcome not in ['' @ join '', '' vs @ '']''"

definition OUTCOME_FIELD :: string where "OUTCOME_FIELD = ''outcome''"

definition DESCRIPTION_FIELD :: string where "DESCRIPTION_FIELD = ''description''"

definition default_outcomes :: "step_outcome list" where
  "default_outcomes =
     [\<lparr> so_value = ''success'', so_description = ''The step did what it was asked to do.'' \<rparr>,
      \<lparr> so_value = ''failure'', so_description = ''The step could not do what it was asked to do.'' \<rparr>]"

definition outcomes_or_default :: "step_outcome list option \<Rightarrow> step_outcome list" where
  "outcomes_or_default declared = (case declared of
     Some list \<Rightarrow> if list \<noteq> [] then list else default_outcomes
   | None \<Rightarrow> default_outcomes)"

section \<open>Saving a definition\<close>

text \<open>Errors are values: \<open>None\<close> is acceptance, \<open>Some\<close> the first complaint.\<close>

definition quoted :: "string \<Rightarrow> string" where
  "quoted s = [CHR 0x27] @ s @ [CHR 0x27]"

definition is_ascii_lowercase :: "string \<Rightarrow> bool" where
  "is_ascii_lowercase ch = (case ch of [c] \<Rightarrow> 97 \<le> (of_char c :: nat) \<and> (of_char c :: nat) \<le> 122 | _ \<Rightarrow> False)"

definition is_ascii_digit :: "string \<Rightarrow> bool" where
  "is_ascii_digit ch = (case ch of [c] \<Rightarrow> is_digit_char c | _ \<Rightarrow> False)"

definition validate_slug :: "string \<Rightarrow> string option" where
  "validate_slug s =
     (if s = [] then Some ''name must not be empty''
      else if length (utf8_chars s) > 64 then Some ''name must be at most 64 characters''
      else if \<not> is_ascii_lowercase (hd (utf8_chars s)) \<and> \<not> is_ascii_digit (hd (utf8_chars s))
      then Some (''name '' @ quoted s @ '' must start with a lowercase letter or digit'')
      else if \<not> list_all (\<lambda>ch. is_ascii_lowercase ch \<or> is_ascii_digit ch \<or> ch \<in> {''.'', ''_'', ''-''}) (utf8_chars s)
      then Some (''name '' @ quoted s @ '' may only contain lowercase letters, digits, '' @ quoted ''.'' @ '', '' @ quoted ''_'' @ '' and '' @ quoted ''-'')
      else None)"

definition invalid_step :: "step_def \<Rightarrow> string \<Rightarrow> workflow_error option" where
  "invalid_step step m = Some (WfInvalid (''step '' @ quoted (sd_name step) @ '': '' @ m))"

fun check_outcomes :: "step_def \<Rightarrow> string set \<Rightarrow> step_outcome list \<Rightarrow> workflow_error option" where
  "check_outcomes step seen [] = None"
| "check_outcomes step seen (x # xs) =
     (if trim (so_value x) = [] then invalid_step step ''an outcome needs a value''
      else if trim (so_description x) = []
      then invalid_step step (''outcome '' @ quoted (so_value x) @ '' needs a description '' @ em_dash
             @ '' it is what the model reads to choose between them'')
      else if so_value x \<in> seen
      then invalid_step step (''two outcomes are both '' @ quoted (so_value x)
             @ ''; a transition addresses them by value'')
      else check_outcomes step (insert (so_value x) seen) xs)"

fun check_fields :: "step_def \<Rightarrow> string set \<Rightarrow> step_field list \<Rightarrow> workflow_error option" where
  "check_fields step seen [] = None"
| "check_fields step seen (f # fs) =
     (if trim (sf_name f) = [] then invalid_step step ''a result field needs a name''
      else if sf_name f = OUTCOME_FIELD \<or> sf_name f = DESCRIPTION_FIELD
      then invalid_step step (quoted (sf_name f)
             @ '' is one of the two fields every result carries; name it something else'')
      else if trim (sf_description f) = []
      then invalid_step step (''field '' @ quoted (sf_name f) @ '' needs a description '' @ em_dash
             @ '' an undocumented field is one the model fills in by guessing'')
      else if sf_name f \<in> seen
      then invalid_step step (''two fields are both named '' @ quoted (sf_name f))
      else check_fields step (insert (sf_name f) seen) fs)"

definition or_else :: "'e option \<Rightarrow> 'e option \<Rightarrow> 'e option" where
  "or_else a b = (case a of Some e \<Rightarrow> Some e | None \<Rightarrow> b)"

lemma or_else_None [simp]: "or_else a b = None \<longleftrightarrow> a = None \<and> b = None"
  by (simp add: or_else_def split: option.splits)

definition opt_list :: "'a list option \<Rightarrow> 'a list" where
  "opt_list xs = (case xs of Some ys \<Rightarrow> ys | None \<Rightarrow> [])"

definition validate_result_contract :: "step_def \<Rightarrow> workflow_error option" where
  "validate_result_contract step =
     or_else
       (case sd_outcomes step of
          Some [] \<Rightarrow> invalid_step step (''declare at least one outcome, or leave `outcomes` unset for success/failure'')
        | Some xs \<Rightarrow> check_outcomes step {} xs
        | None \<Rightarrow> None)
       (check_fields step {} (opt_list (sd_fields step)))"

text \<open>The first loop of \<open>validate\<close>, with the set of the names seen so far.\<close>

fun check_steps :: "string set \<Rightarrow> step_def list \<Rightarrow> workflow_error option" where
  "check_steps seen [] = None"
| "check_steps seen (s # ss) =
     (if trim (sd_name s) = [] then Some (WfInvalid ''every step needs a name'')
      else if sd_name s \<in> seen
      then Some (WfInvalid (''two steps are named '' @ quoted (sd_name s) @ ''; transitions address steps by name''))
      else if trim (sd_prompt s) = []
      then invalid_step s (''prompt must not be empty '' @ em_dash @ '' it is the step'' @ [CHR 0x27]
             @ ''s whole instruction'')
      else or_else (validate_result_contract s) (check_steps (insert (sd_name s) seen) ss))"

definition check_catch_all :: "step_def \<Rightarrow> workflow_error option" where
  "check_catch_all s = (case sd_transitions s of
     None \<Rightarrow> None
   | Some ts \<Rightarrow> (case position (\<lambda>t. wt_when t = None) ts of
       None \<Rightarrow> None
     | Some first \<Rightarrow>
         if first + 1 < length ts
         then invalid_step s (''the transition to '' @ quoted (wt_to (ts ! first))
           @ '' has no outcome filter, so it is the catch-all and must come last '' @ em_dash @ '' the ''
           @ (if length ts - first = 2 then ''one'' else show_nat (length ts - first - 1))
           @ '' after it can never be reached'')
         else None))"

definition check_filter :: "step_def \<Rightarrow> outcome_filter \<Rightarrow> workflow_error option" where
  "check_filter s flt =
     (let declared = outcomes_or_default (sd_outcomes s); vs = filter_values flt
      in if vs = [] then invalid_step s ''a transition filter names no outcomes''
         else find_map (\<lambda>v. if list_ex (\<lambda>x. so_value x = v) declared then None
            else Some (WfInvalid (''step '' @ quoted (sd_name s) @ '' transitions on outcome '' @ quoted v
              @ '', which it does not declare; it reports: '' @ join '', '' (map so_value declared)))) vs)"

definition check_transition :: "string set \<Rightarrow> step_def \<Rightarrow> wf_transition \<Rightarrow> workflow_error option" where
  "check_transition seen s t =
     (if wt_to t \<notin> seen
      then Some (WfInvalid (''step '' @ quoted (sd_name s) @ '' transitions to '' @ quoted (wt_to t)
             @ '', which is not a step''))
      else case wt_when t of Some flt \<Rightarrow> check_filter s flt | None \<Rightarrow> None)"

definition check_edges :: "(string \<Rightarrow> bool) \<Rightarrow> string set \<Rightarrow> step_def \<Rightarrow> workflow_error option" where
  "check_edges preset_known seen s =
     or_else (check_catch_all s)
       (or_else (find_map (check_transition seen s) (opt_list (sd_transitions s)))
          (if preset_known (sd_agent s) then None
           else invalid_step s (''unknown agent preset '' @ quoted (sd_agent s))))"

definition validate_workflow :: "(string \<Rightarrow> bool) \<Rightarrow> workflow_input \<Rightarrow> workflow_error option" where
  "validate_workflow preset_known inp =
     (case validate_slug (wi_name inp) of
        Some m \<Rightarrow> Some (WfInvalid m)
      | None \<Rightarrow>
          if wi_steps inp = [] then Some (WfInvalid ''a workflow needs at least one step'')
          else if wi_max_steps inp = Some 0
          then Some (WfInvalid ''max_steps must be at least 1, or absent for the default'')
          else or_else (check_steps {} (wi_steps inp))
            (let seen = set (map sd_name (wi_steps inp))
             in if wi_start inp \<notin> seen
                then Some (WfInvalid (''start step '' @ quoted (wi_start inp) @ '' is not one of the steps''))
                else find_map (check_edges preset_known seen) (wi_steps inp)))"

section \<open>The service\<close>

type_synonym wf_table = "string \<Rightarrow> workflow_row option"

definition input_row :: "workflow_input \<Rightarrow> string \<Rightarrow> string \<Rightarrow> workflow_row" where
  "input_row inp created now = \<lparr> wr_name = wi_name inp,
     wr_description = (case wi_description inp of Some d \<Rightarrow> d | None \<Rightarrow> []),
     wr_start = wi_start inp, wr_steps = wi_steps inp, wr_max_steps = wi_max_steps inp,
     wr_created_at = created, wr_updated_at = now \<rparr>"

definition unknown_workflow :: "string \<Rightarrow> workflow_error" where
  "unknown_workflow name = WfNotFound (''unknown workflow '' @ quoted name)"

definition wf_row :: "(nat \<Rightarrow> string option) \<Rightarrow> wf_table \<Rightarrow> string \<Rightarrow> workflow_error + workflow_row" where
  "wf_row db tab name = (case db 0 of
     Some e \<Rightarrow> Inl (WfInternal e)
   | None \<Rightarrow> (case tab name of Some r \<Rightarrow> Inr r | None \<Rightarrow> Inl (unknown_workflow name)))"

definition wf_create ::
    "(nat \<Rightarrow> string option) \<Rightarrow> (string \<Rightarrow> bool) \<Rightarrow> wf_table \<Rightarrow> workflow_input \<Rightarrow> nat
     \<Rightarrow> (workflow_error + workflow_row) \<times> wf_table" where
  "wf_create db preset_known tab inp now =
     (case validate_workflow preset_known inp of
        Some e \<Rightarrow> (Inl e, tab)
      | None \<Rightarrow> (case db 0 of
          Some e \<Rightarrow> (Inl (WfInternal e), tab)
        | None \<Rightarrow>
            if tab (wi_name inp) \<noteq> None
            then (Inl (WfConflict (''workflow '' @ quoted (wi_name inp) @ '' already exists'')), tab)
            else (case db 1 of
                Some e \<Rightarrow> (Inl (WfInternal e), tab)
              | None \<Rightarrow> (let row = input_row inp (show_nat now) (show_nat now)
                  in (Inr row, tab(wi_name inp \<mapsto> row))))))"

definition wf_replace ::
    "(nat \<Rightarrow> string option) \<Rightarrow> (string \<Rightarrow> bool) \<Rightarrow> wf_table \<Rightarrow> string \<Rightarrow> workflow_input \<Rightarrow> nat
     \<Rightarrow> (workflow_error + workflow_row) \<times> wf_table" where
  "wf_replace db preset_known tab name inp now =
     (if wi_name inp \<noteq> name
      then (Inl (WfInvalid ''the name in the body must match the one in the path''), tab)
      else case validate_workflow preset_known inp of
        Some e \<Rightarrow> (Inl e, tab)
      | None \<Rightarrow> (case wf_row db tab name of
          Inl e \<Rightarrow> (Inl e, tab)
        | Inr existing \<Rightarrow> (case db 1 of
            Some e \<Rightarrow> (Inl (WfInternal e), tab)
          | None \<Rightarrow> (let row = input_row inp (wr_created_at existing) (show_nat now)
              in (Inr row, tab(name \<mapsto> row))))))"

definition wf_delete ::
    "(nat \<Rightarrow> string option) \<Rightarrow> wf_table \<Rightarrow> string \<Rightarrow> workflow_error option \<times> wf_table" where
  "wf_delete db tab name = (case db 0 of
     Some e \<Rightarrow> (Some (WfInternal e), tab)
   | None \<Rightarrow> if tab name = None then (Some (unknown_workflow name), tab) else (None, tab(name := None)))"

section \<open>The snapshot of a run\<close>

record mcp_selection =
  mcp_name :: string
  mcp_tools :: "string list option"

datatype agent_source = AdHoc | Preset string

record agent_settings =
  as_source :: agent_source
  as_model :: string
  as_allowed_tools :: "string list option"
  as_use_plugins :: "bool option"
  as_max_iterations :: "u32 option"
  as_max_retries :: u32
  as_mcp_servers :: "mcp_selection list"
  as_memory_spaces :: "string list"
  as_thinking_effort :: "string option"
  as_max_concurrent_subagents :: "u32 option"
  as_instructions :: "string option"
  as_plugins :: "string list"
  as_auto_compact :: "bool option"

record agent_view =
  av_name :: string
  av_description :: string
  av_instructions :: "string option"
  av_model :: string
  av_plugins :: "string list"
  av_mcp_servers :: "mcp_selection list"
  av_memory_spaces :: "string list"
  av_thinking_effort :: "string option"
  av_auto_compact :: "bool option"
  av_allowed_tools :: "string list option"
  av_tunable :: "bool option"
  av_revision :: "u64 option"

record transition_spec =
  ts_to :: string
  ts_when :: "outcome_filter option"

record step_spec =
  ss_name :: string
  ss_agent :: string
  ss_prompt :: string
  ss_outcomes :: "step_outcome list"
  ss_fields :: "step_field list"
  ss_interactive :: bool
  ss_transitions :: "transition_spec list"
  ss_settings :: agent_settings

record run_spec =
  rs_workflow :: string
  rs_start :: string
  rs_steps :: "step_spec list"
  rs_input :: string
  rs_max_steps :: u32

datatype resolve_error = ReNotFound string | ReInvalid string | ReInternal string

definition DEFAULT_MAX_STEPS :: u32 where "DEFAULT_MAX_STEPS = 1000"

definition step_settings :: "agent_view \<Rightarrow> u32 option \<Rightarrow> u32 option \<Rightarrow> agent_settings" where
  "step_settings preset max_iterations max_retries = \<lparr>
     as_source = Preset (av_name preset), as_model = av_model preset,
     as_allowed_tools = None, as_use_plugins = None, as_max_iterations = max_iterations,
     as_max_retries = (case max_retries of Some n \<Rightarrow> n | None \<Rightarrow> 0),
     as_mcp_servers = av_mcp_servers preset, as_memory_spaces = av_memory_spaces preset,
     as_thinking_effort = av_thinking_effort preset, as_max_concurrent_subagents = None,
     as_instructions = av_instructions preset, as_plugins = av_plugins preset,
     as_auto_compact = av_auto_compact preset \<rparr>"

definition assemble_step :: "agent_view \<Rightarrow> step_def \<Rightarrow> step_spec" where
  "assemble_step preset step = \<lparr>
     ss_name = sd_name step, ss_agent = sd_agent step, ss_prompt = sd_prompt step,
     ss_outcomes = outcomes_or_default (sd_outcomes step),
     ss_fields = opt_list (sd_fields step),
     ss_interactive = (case sd_interactive step of Some b \<Rightarrow> b | None \<Rightarrow> False),
     ss_transitions = map (\<lambda>t. \<lparr> ts_to = wt_to t, ts_when = wt_when t \<rparr>) (opt_list (sd_transitions step)),
     ss_settings = step_settings preset (sd_max_iterations step) (sd_max_retries step) \<rparr>"

definition add_plugins :: "string list \<Rightarrow> string list \<Rightarrow> string list" where
  "add_plugins plugins new = foldl (\<lambda>ps p. if p \<in> set ps then ps else ps @ [p]) plugins new"

fun assemble_steps ::
    "(string \<Rightarrow> agent_view option) \<Rightarrow> string list \<Rightarrow> string list \<Rightarrow> step_def list
     \<Rightarrow> resolve_error + step_spec list \<times> string list" where
  "assemble_steps presets models plugins [] = Inr ([], plugins)"
| "assemble_steps presets models plugins (s # ss) =
     (case presets (sd_agent s) of
        None \<Rightarrow> Inl (ReInvalid (''step '' @ quoted (sd_name s) @ '': agent preset '' @ quoted (sd_agent s)
                  @ '' no longer exists''))
      | Some preset \<Rightarrow>
          if av_model preset \<notin> set models
          then Inl (ReInvalid (''step '' @ quoted (sd_name s) @ '': model '' @ quoted (av_model preset)
                  @ '' is no longer configured''))
          else (case assemble_steps presets models (add_plugins plugins (av_plugins preset)) ss of
                  Inl e \<Rightarrow> Inl e
                | Inr (specs, ps) \<Rightarrow> Inr (assemble_step preset s # specs, ps)))"

definition assemble_run_spec ::
    "workflow_row \<Rightarrow> (string \<Rightarrow> agent_view option) \<Rightarrow> string list \<Rightarrow> string
     \<Rightarrow> resolve_error + run_spec \<times> string list" where
  "assemble_run_spec row presets models inp =
     (if trim inp = [] then Inl (ReInvalid (''input must not be empty '' @ em_dash
            @ '' it is what the first step is handed''))
      else case assemble_steps presets models [] (wr_steps row) of
        Inl e \<Rightarrow> Inl e
      | Inr (specs, plugins) \<Rightarrow> Inr (\<lparr> rs_workflow = wr_name row, rs_start = wr_start row,
          rs_steps = specs, rs_input = inp,
          rs_max_steps = (case wr_max_steps row of Some n \<Rightarrow> n | None \<Rightarrow> DEFAULT_MAX_STEPS) \<rparr>, plugins))"

definition spec_step :: "run_spec \<Rightarrow> string \<Rightarrow> step_spec option" where
  "spec_step spec name = find (\<lambda>s. ss_name s = name) (rs_steps spec)"

section \<open>What a step returns\<close>

definition type_of :: "step_field_type \<Rightarrow> (string \<times> json) list" where
  "type_of k = (case k of
     FtString \<Rightarrow> [(''type'', JString ''string'')]
   | FtNumber \<Rightarrow> [(''type'', JString ''number'')]
   | FtBoolean \<Rightarrow> [(''type'', JString ''boolean'')]
   | FtStringList \<Rightarrow> [(''type'', JString ''array''), (''items'', JObject [(''type'', JString ''string'')])])"

text \<open>\<open>Map::insert\<close> overwrites the value of a key that is there and keeps its place.\<close>

definition field_required :: "step_field \<Rightarrow> bool" where
  "field_required f = (case sf_required f of Some b \<Rightarrow> b | None \<Rightarrow> False)"

definition result_schema :: "step_outcome list \<Rightarrow> step_field list \<Rightarrow> json" where
  "result_schema outcomes flds =
     (let values = map (\<lambda>x. JString (so_value x)) outcomes;
          meanings = join [nl] (map (\<lambda>x. so_value x @ '': '' @ so_description x) outcomes);
          base = [(OUTCOME_FIELD, JObject [(''type'', JString ''string''), (''enum'', JArray values),
                    (''description'', JString (''How this step ended. This is what decides which step runs next.''
                       @ [nl] @ meanings))]),
                  (DESCRIPTION_FIELD, JObject [(''type'', JString ''string''), (''description'', JString
                    (''A markdown summary of what you did and what you found. The next step is '' @
                     ''handed this and nothing else of your work, so make it self-contained.''))])];
          properties = foldl (\<lambda>ps f. AList.update (sf_name f)
            (JObject (type_of (sf_kind f) @ [(''description'', JString (sf_description f))])) ps) base flds;
          required = [JString OUTCOME_FIELD, JString DESCRIPTION_FIELD]
            @ map (\<lambda>f. JString (sf_name f)) (filter field_required flds)
      in JObject [(''type'', JString ''object''), (''required'', JArray required),
                  (''properties'', JObject properties)])"

fun json_is_string :: "json \<Rightarrow> bool" where
  "json_is_string (JString s) = True"
| "json_is_string _ = False"

fun has_kind :: "step_field_type \<Rightarrow> json \<Rightarrow> bool" where
  "has_kind FtString v = json_is_string v"
| "has_kind FtNumber v = (case v of JInt n \<Rightarrow> True | JFloat s \<Rightarrow> True | _ \<Rightarrow> False)"
| "has_kind FtBoolean v = (case v of JBool b \<Rightarrow> True | _ \<Rightarrow> False)"
| "has_kind FtStringList v = (case v of JArray vs \<Rightarrow> list_all json_is_string vs | _ \<Rightarrow> False)"

fun kind_name :: "step_field_type \<Rightarrow> string" where
  "kind_name FtString = ''a string''"
| "kind_name FtNumber = ''a number''"
| "kind_name FtBoolean = ''true or false''"
| "kind_name FtStringList = ''an array of strings''"

definition check_field :: "json \<Rightarrow> step_field \<Rightarrow> string option" where
  "check_field v f = (case json_get v (sf_name f) of
     None \<Rightarrow> if field_required f then Some (quoted (sf_name f) @ '' is required'') else None
   | Some present \<Rightarrow>
       if present = JNull \<and> \<not> field_required f then None
       else if has_kind (sf_kind f) present then None
       else Some (quoted (sf_name f) @ '' must be '' @ kind_name (sf_kind f)))"

definition validate_result :: "json \<Rightarrow> step_outcome list \<Rightarrow> step_field list \<Rightarrow> string option" where
  "validate_result v outcomes flds =
     (if (case v of JObject kvs \<Rightarrow> False | _ \<Rightarrow> True) then Some ''the result must be an object''
      else case get_str v OUTCOME_FIELD of
        None \<Rightarrow> Some (quoted OUTCOME_FIELD @ '' is required and must be a string'')
      | Some outc \<Rightarrow>
          if \<not> list_ex (\<lambda>x. so_value x = outc) outcomes
          then Some (quoted outc @ '' is not one of this step'' @ [CHR 0x27] @ ''s outcomes: ''
                 @ join '', '' (map so_value outcomes))
          else (case get_str v DESCRIPTION_FIELD of
              None \<Rightarrow> Some (quoted DESCRIPTION_FIELD @ '' is required and must be a string'')
            | Some d \<Rightarrow>
                if trim d = []
                then Some (quoted DESCRIPTION_FIELD @ '' must say what this step did '' @ em_dash
                       @ '' the next step is handed it'')
                else find_map (check_field v) flds))"

text \<open>
  \<open>StepResultToolbox::execute\<close>: only the finishing tool is its own; \<open>show_json\<close> is
  \<open>Value::to_string\<close>.
\<close>

definition SUBMIT_RESULT :: string where "SUBMIT_RESULT = ''submit_result''"

definition step_toolbox ::
    "step_outcome list \<Rightarrow> step_field list \<Rightarrow> (string \<Rightarrow> json \<Rightarrow> 'r)
     \<Rightarrow> (tool_call_error option \<Rightarrow> 'r) \<Rightarrow> string \<Rightarrow> json \<Rightarrow> 'r" where
  "step_toolbox outcomes flds inner finish name v =
     (if name = SUBMIT_RESULT
      then finish (map_option InvalidInput (validate_result v outcomes flds))
      else inner name v)"

definition render_extra :: "(json \<Rightarrow> string) \<Rightarrow> json \<Rightarrow> string" where
  "render_extra show_json v = (case v of
     JString s \<Rightarrow> s
   | JArray items \<Rightarrow> join '', '' (map (\<lambda>i. case json_as_str i of Some s \<Rightarrow> s | None \<Rightarrow> show_json i) items)
   | _ \<Rightarrow> show_json v)"

definition render_result :: "(json \<Rightarrow> string) \<Rightarrow> json \<Rightarrow> string" where
  "render_result show_json v = (case v of
     JObject kvs \<Rightarrow>
       (let outc = (case get_str v OUTCOME_FIELD of
              Some x \<Rightarrow> ''**outcome:** '' @ x @ [nl, nl] | None \<Rightarrow> []);
            desc = (case get_str v DESCRIPTION_FIELD of
              Some d \<Rightarrow> trim_end d @ [nl] | None \<Rightarrow> []);
            extras = sort_key fst (filter (\<lambda>(k, _). k \<noteq> OUTCOME_FIELD \<and> k \<noteq> DESCRIPTION_FIELD) kvs);
            listed = (if extras = [] then [] else [nl] @ concat (map (\<lambda>(k, x).
              ''- **'' @ k @ '':** '' @ render_extra show_json x @ [nl]) extras))
        in trim_end (outc @ desc @ listed))
   | _ \<Rightarrow> show_json v)"

definition output_as_input :: "(json \<Rightarrow> string) \<Rightarrow> json \<Rightarrow> string" where
  "output_as_input show_json v = (case json_as_str v of
     Some t \<Rightarrow> t | None \<Rightarrow> render_result show_json v)"

definition compose_step_input :: "string \<Rightarrow> string option \<Rightarrow> string \<Rightarrow> string" where
  "compose_step_input prompt from_step incoming =
     trim_end prompt @ [nl, nl]
     @ (case from_step of Some s \<Rightarrow> ''## Input from step `'' @ s @ ''`'' | None \<Rightarrow> ''## Input'')
     @ [nl] @ incoming"

section \<open>The log of a run\<close>

datatype workflow_run_status = WrPending | WrRunning | WrSuspended | WrAwaitingInput | WrFinished | WrFailed

datatype step_status = StRunning | StConcluded | StFailed | StCancelled

record step_run =
  se_step :: string
  se_agent :: string
  se_attempt :: nat
  se_from :: "nat option"
  se_via :: "string option"
  se_status :: step_status
  se_input :: string
  se_output :: "json option"
  se_error :: "string option"
  se_started_at_ms :: u64
  se_ended_at_ms :: "u64 option"

record run_state =
  rn_status :: workflow_run_status
  rn_steps :: "step_run list"
  rn_output :: "json option"
  rn_error :: "string option"

definition run_state_default :: run_state where
  "run_state_default = \<lparr> rn_status = WrPending, rn_steps = [], rn_output = None, rn_error = None \<rparr>"

definition is_terminal :: "workflow_run_status \<Rightarrow> bool" where
  "is_terminal s \<longleftrightarrow> s = WrFinished \<or> s = WrFailed"

definition run_current :: "run_state \<Rightarrow> nat option" where
  "run_current r = position (\<lambda>s. se_status s = StRunning) (rn_steps r)"

definition run_get :: "run_state \<Rightarrow> nat \<Rightarrow> step_run option" where
  "run_get r i = (if i < length (rn_steps r) then Some (rn_steps r ! i) else None)"

definition index_of_agent :: "run_state \<Rightarrow> string \<Rightarrow> nat option" where
  "index_of_agent r agent = position (\<lambda>s. se_agent s = agent) (rn_steps r)"

definition current_agent :: "run_state \<Rightarrow> string option" where
  "current_agent r = map_option se_agent (Option.bind (run_current r) (run_get r))"

definition run_last :: "run_state \<Rightarrow> (nat \<times> step_run) option" where
  "run_last r = (if rn_steps r = [] then None else Some (length (rn_steps r) - 1, last (rn_steps r)))"

definition attempts_of :: "run_state \<Rightarrow> string \<Rightarrow> nat" where
  "attempts_of r step = length (filter (\<lambda>s. se_step s = step) (rn_steps r))"

definition run_started ::
    "string \<Rightarrow> string \<Rightarrow> nat \<Rightarrow> nat option \<Rightarrow> string option \<Rightarrow> string \<Rightarrow> u64 \<Rightarrow> run_state \<Rightarrow> run_state" where
  "run_started step agent attempt from via inp at r = r\<lparr>
     rn_steps := rn_steps r @ [\<lparr> se_step = step, se_agent = agent, se_attempt = attempt, se_from = from,
       se_via = via, se_status = StRunning, se_input = inp, se_output = None, se_error = None,
       se_started_at_ms = at, se_ended_at_ms = None \<rparr>],
     rn_status := WrRunning \<rparr>"

text \<open>\<open>get_mut\<close>: an index past the end changes nothing.\<close>

definition update_at :: "nat \<Rightarrow> ('a \<Rightarrow> 'a) \<Rightarrow> 'a list \<Rightarrow> 'a list" where
  "update_at i f xs = (if i < length xs then xs[i := f (xs ! i)] else xs)"

definition run_concluded :: "nat \<Rightarrow> json \<Rightarrow> u64 \<Rightarrow> run_state \<Rightarrow> run_state" where
  "run_concluded i out at r = r\<lparr>
     rn_steps := update_at i (\<lambda>s. s\<lparr> se_status := StConcluded, se_output := Some out, se_ended_at_ms := Some at \<rparr>) (rn_steps r),
     rn_status := WrRunning \<rparr>"

definition run_step_failed :: "nat \<Rightarrow> string \<Rightarrow> u64 \<Rightarrow> run_state \<Rightarrow> run_state" where
  "run_step_failed i err at r = r\<lparr>
     rn_steps := update_at i (\<lambda>s. s\<lparr> se_status := StFailed, se_error := Some err, se_ended_at_ms := Some at \<rparr>) (rn_steps r) \<rparr>"

definition run_cancelled :: "nat \<Rightarrow> u64 \<Rightarrow> run_state \<Rightarrow> run_state" where
  "run_cancelled i at r = r\<lparr>
     rn_steps := update_at i (\<lambda>s. s\<lparr> se_status := StCancelled, se_ended_at_ms := Some at \<rparr>) (rn_steps r),
     rn_status := WrSuspended \<rparr>"

definition run_awaiting :: "run_state \<Rightarrow> run_state" where
  "run_awaiting r = r\<lparr> rn_status := WrAwaitingInput \<rparr>"

definition run_finished :: "json \<Rightarrow> run_state \<Rightarrow> run_state" where
  "run_finished out r = r\<lparr> rn_status := WrFinished, rn_output := Some out \<rparr>"

definition run_failed :: "string \<Rightarrow> run_state \<Rightarrow> run_state" where
  "run_failed err r = r\<lparr> rn_status := WrFailed, rn_error := Some err \<rparr>"

end
