(* ===== verification/Workflow_Driver.thy ===== *)
theory Workflow_Driver
  imports Workflow Inbox
begin

text \<open>
  What the graph does next (\<^verbatim>\<open>crates/server/src/sessions/workflow/driver.rs\<close> and the actions of
  \<^verbatim>\<open>sessions/orchestrator.rs\<close>), the moves a run makes in a session, and what holds of every log they
  can build. The id of a step's agent is a name-based UUID of the run and the index, \<open>agent_of\<close>.
\<close>

section \<open>The decision\<close>

datatype agent_key = KeyMain | KeySub uuid | KeyStep uuid | KeySubSession uuid

record step_start =
  sp_run :: uuid
  sp_index :: nat
  sp_step :: string
  sp_agent :: uuid
  sp_attempt :: nat
  sp_from :: "nat option"
  sp_via :: "string option"
  sp_input :: string

record delivery =
  dv_to :: agent_key
  dv_child :: uuid
  dv_part :: subagent_result_part

datatype agent_action =
    StartStep step_start
  | FinishRun uuid json
  | FailRun uuid string
  | DeliverResult delivery

fun next_transition :: "transition_spec list \<Rightarrow> string \<Rightarrow> (string \<times> string option) option" where
  "next_transition [] outc = None"
| "next_transition (t # ts) outc = (case ts_when t of
     None \<Rightarrow> Some (ts_to t, None)
   | Some flt \<Rightarrow> if filter_matches flt outc then Some (ts_to t, Some (filter_render flt))
                  else next_transition ts outc)"

definition start_action ::
    "(uuid \<Rightarrow> nat \<Rightarrow> uuid) \<Rightarrow> uuid \<Rightarrow> run_spec \<Rightarrow> run_state \<Rightarrow> string \<Rightarrow> nat option \<Rightarrow> string option
     \<Rightarrow> string \<Rightarrow> string option \<Rightarrow> agent_action" where
  "start_action agent_of run spec r name from via incoming from_step =
     (let index = length (rn_steps r);
          prompt = (case spec_step spec name of Some s \<Rightarrow> ss_prompt s | None \<Rightarrow> [])
      in StartStep \<lparr> sp_run = run, sp_index = index, sp_step = name, sp_agent = agent_of run index,
           sp_attempt = attempts_of r name + 1, sp_from = from, sp_via = via,
           sp_input = compose_step_input prompt from_step incoming \<rparr>)"

definition budget_error :: "run_spec \<Rightarrow> string" where
  "budget_error spec = ''step budget exhausted after '' @ show_nat (unat (rs_max_steps spec)) @ '' steps''"

definition outcome_of :: "json \<Rightarrow> string" where
  "outcome_of v = (case get_str v OUTCOME_FIELD of Some s \<Rightarrow> s | None \<Rightarrow> [])"

definition step_actions ::
    "(uuid \<Rightarrow> nat \<Rightarrow> uuid) \<Rightarrow> (json \<Rightarrow> string) \<Rightarrow> uuid \<Rightarrow> run_spec \<Rightarrow> run_state \<Rightarrow> agent_action list" where
  "step_actions agent_of show_json run spec r =
     (if is_terminal (rn_status r) \<or> rn_status r = WrSuspended \<or> rn_status r = WrAwaitingInput
         \<or> run_current r \<noteq> None then []
      else if length (rn_steps r) \<ge> unat (rs_max_steps spec) then [FailRun run (budget_error spec)]
      else case run_last r of
        None \<Rightarrow>
          if spec_step spec (rs_start spec) = None
          then [FailRun run (''start step '' @ quoted (rs_start spec) @ '' is not in this workflow'')]
          else [start_action agent_of run spec r (rs_start spec) None None (rs_input spec) None]
      | Some (index, prev) \<Rightarrow>
          if se_status prev \<noteq> StConcluded then []
          else
            (let out = (case se_output prev of Some v \<Rightarrow> v | None \<Rightarrow> JNull)
             in case spec_step spec (se_step prev) of
                  None \<Rightarrow> [FailRun run (''step '' @ quoted (se_step prev) @ '' is no longer in this workflow'')]
                | Some step \<Rightarrow> (case next_transition (ss_transitions step) (outcome_of out) of
                    None \<Rightarrow> [FinishRun run out]
                  | Some (to, via) \<Rightarrow>
                      if spec_step spec to = None
                      then [FailRun run (''step '' @ quoted (se_step prev) @ '' transitions to '' @ quoted to
                             @ '', which is not in this workflow'')]
                      else [start_action agent_of run spec r to (Some index) via
                              (output_as_input show_json out) (Some (se_step prev))])))"

text \<open>What journaling an action does to the run's log.\<close>

definition perform :: "u64 \<Rightarrow> agent_action \<Rightarrow> run_state \<Rightarrow> run_state" where
  "perform at a r = (case a of
     StartStep p \<Rightarrow> run_started (sp_step p) (sp_agent p) (sp_attempt p) (sp_from p) (sp_via p) (sp_input p) at r
   | FinishRun _ out \<Rightarrow> run_finished out r
   | FailRun _ err \<Rightarrow> run_failed err r
   | DeliverResult _ \<Rightarrow> r)"

text \<open>
  A retry of one execution, as \<open>on_retry_step\<close> journals it: whatever is in flight is cancelled and the
  target is started again where it sat.
\<close>

definition retry_run :: "(uuid \<Rightarrow> nat \<Rightarrow> uuid) \<Rightarrow> uuid \<Rightarrow> nat \<Rightarrow> u64 \<Rightarrow> run_state \<Rightarrow> run_state" where
  "retry_run agent_of run i at r = (case run_get r i of
     None \<Rightarrow> r
   | Some target \<Rightarrow>
       (let r1 = (case run_current r of Some c \<Rightarrow> run_cancelled c at r | None \<Rightarrow> r);
            n = length (rn_steps r1)
        in run_started (se_step target) (agent_of run n) (attempts_of r1 (se_step target) + 1)
             (se_from target) (se_via target) (se_input target) at r1))"

text \<open>A stop, as \<open>cancel_descendants\<close> journals it for a run that is not over.\<close>

definition stop_run :: "string \<Rightarrow> u64 \<Rightarrow> run_state \<Rightarrow> run_state" where
  "stop_run err at r =
     (if is_terminal (rn_status r) then r
      else run_failed err (case run_current r of Some c \<Rightarrow> run_cancelled c at r | None \<Rightarrow> r))"

section \<open>The moves of a run\<close>

text \<open>
  Every way a run's log changes while a session lives: the driver's own decisions, the outcomes its step
  agents report, in whatever order and however late, a reload, a retry and a stop. An outcome names the
  execution its agent ran, which need not be the one in flight any more.
\<close>

inductive run_move ::
    "(uuid \<Rightarrow> nat \<Rightarrow> uuid) \<Rightarrow> (json \<Rightarrow> string) \<Rightarrow> uuid \<Rightarrow> run_spec \<Rightarrow> run_state \<Rightarrow> run_state \<Rightarrow> bool"
  for agent_of show_json run spec where
  drive: "a \<in> set (step_actions agent_of show_json run spec r) \<Longrightarrow>
     run_move agent_of show_json run spec r (perform at a r)"
| concluded: "run_move agent_of show_json run spec r (run_concluded i out at r)"
| asked: "run_move agent_of show_json run spec r (run_awaiting r)"
| failed: "run_move agent_of show_json run spec r (run_failed err (run_step_failed i err at r))"
| interrupted: "run_current r = Some i \<Longrightarrow> run_move agent_of show_json run spec r (run_cancelled i at r)"
| retried: "run_move agent_of show_json run spec r (retry_run agent_of run i at r)"
| unstartable: "run_move agent_of show_json run spec r (run_failed err r)"
| stopped: "run_move agent_of show_json run spec r (stop_run err at r)"

section \<open>What every log is\<close>

definition running_steps :: "run_state \<Rightarrow> nat" where
  "running_steps r = length (filter (\<lambda>s. se_status s = StRunning) (rn_steps r))"

text \<open>The part of an execution no later event touches.\<close>

definition step_edge :: "step_run \<Rightarrow> string \<times> uuid \<times> nat \<times> nat option \<times> string option" where
  "step_edge s = (se_step s, se_agent s, se_attempt s, se_from s, se_via s)"

definition edges :: "run_state \<Rightarrow> (string \<times> uuid \<times> nat \<times> nat option \<times> string option) list" where
  "edges r = map step_edge (rn_steps r)"

definition edge_ok ::
    "(uuid \<Rightarrow> nat \<Rightarrow> uuid) \<Rightarrow> uuid \<Rightarrow> run_spec \<Rightarrow> (string \<times> uuid \<times> nat \<times> nat option \<times> string option) list \<Rightarrow> nat \<Rightarrow> bool" where
  "edge_ok agent_of run spec es i = (case es ! i of (step, agent, attempt, from, via) \<Rightarrow>
     agent = agent_of run i \<and> attempt = Suc (length (filter (\<lambda>e. fst e = step) (take i es))) \<and>
     spec_step spec step \<noteq> None \<and>
     (case from of
        None \<Rightarrow> step = rs_start spec \<and> via = None
      | Some j \<Rightarrow> j < i \<and> (\<exists>s t. spec_step spec (fst (es ! j)) = Some s \<and> t \<in> set (ss_transitions s) \<and>
          ts_to t = step \<and> via = map_option filter_render (ts_when t))))"

definition path_ok :: "(uuid \<Rightarrow> nat \<Rightarrow> uuid) \<Rightarrow> uuid \<Rightarrow> run_spec \<Rightarrow> run_state \<Rightarrow> bool" where
  "path_ok agent_of run spec r \<longleftrightarrow> (\<forall>i<length (edges r). edge_ok agent_of run spec (edges r) i)"

definition run_inv :: "(uuid \<Rightarrow> nat \<Rightarrow> uuid) \<Rightarrow> uuid \<Rightarrow> run_spec \<Rightarrow> run_state \<Rightarrow> bool" where
  "run_inv agent_of run spec r \<longleftrightarrow> running_steps r \<le> 1 \<and> path_ok agent_of run spec r"

lemma next_transition_SomeD:
  "next_transition ts outc = Some (to, via) \<Longrightarrow>
   \<exists>t\<in>set ts. ts_to t = to \<and> via = map_option filter_render (ts_when t) \<and>
     (case ts_when t of None \<Rightarrow> True | Some flt \<Rightarrow> filter_matches flt outc)"
  by (induction ts) (auto split: option.splits if_splits)

lemma step_actions_one: "length (step_actions agent_of show_json run spec r) \<le> 1"
  by (simp add: step_actions_def Let_def split: option.splits prod.splits)

lemma start_action_cases [simp]:
  "start_action agent_of run spec r name from via incoming from_step \<noteq> FinishRun u v"
  "start_action agent_of run spec r name from via incoming from_step \<noteq> FailRun u e"
  "start_action agent_of run spec r name from via incoming from_step \<noteq> DeliverResult d"
  by (simp_all add: start_action_def Let_def)

lemmas start_action_cases' [simp] = start_action_cases [THEN not_sym]

lemma step_actions_start:
  assumes "StartStep p \<in> set (step_actions agent_of show_json run spec r)"
  shows "run_current r = None" "spec_step spec (sp_step p) \<noteq> None"
    "length (rn_steps r) < unat (rs_max_steps spec)"
    "sp_agent p = agent_of run (length (rn_steps r))" "sp_attempt p = attempts_of r (sp_step p) + 1"
    "case sp_from p of
       None \<Rightarrow> sp_step p = rs_start spec \<and> sp_via p = None
     | Some j \<Rightarrow> j < length (rn_steps r) \<and> (\<exists>s t. spec_step spec (se_step (rn_steps r ! j)) = Some s \<and>
         t \<in> set (ss_transitions s) \<and> ts_to t = sp_step p \<and> sp_via p = map_option filter_render (ts_when t))"
proof -
  from assms have *: "run_current r = None" "length (rn_steps r) < unat (rs_max_steps spec)"
    by (auto simp: step_actions_def split: if_splits)
  then show "run_current r = None" "length (rn_steps r) < unat (rs_max_steps spec)" by simp_all
  show "spec_step spec (sp_step p) \<noteq> None" "sp_agent p = agent_of run (length (rn_steps r))"
    "sp_attempt p = attempts_of r (sp_step p) + 1"
    using assms by (auto simp: step_actions_def Let_def start_action_def split: if_splits option.splits prod.splits)
  show "case sp_from p of
       None \<Rightarrow> sp_step p = rs_start spec \<and> sp_via p = None
     | Some j \<Rightarrow> j < length (rn_steps r) \<and> (\<exists>s t. spec_step spec (se_step (rn_steps r ! j)) = Some s \<and>
         t \<in> set (ss_transitions s) \<and> ts_to t = sp_step p \<and> sp_via p = map_option filter_render (ts_when t))"
  proof (cases "rn_steps r = []")
    case True
    then show ?thesis using assms *
      by (auto simp: step_actions_def run_last_def start_action_def Let_def split: if_splits)
  next
    case False
    with assms * obtain step to via where st: "spec_step spec (se_step (last (rn_steps r))) = Some step"
      "next_transition (ss_transitions step) (outcome_of (case se_output (last (rn_steps r)) of Some v \<Rightarrow> v | None \<Rightarrow> JNull)) = Some (to, via)"
      "sp_step p = to" "sp_via p = via" "sp_from p = Some (length (rn_steps r) - 1)"
      by (auto simp: step_actions_def run_last_def start_action_def Let_def split: if_splits option.splits)
    from next_transition_SomeD [OF st(2)] st False show ?thesis by (auto simp: last_conv_nth)
  qed
qed

lemma map_update_at:
  assumes "\<And>x. f (g x) = f x"
  shows "map f (update_at i g xs) = map f xs"
proof (cases "i < length xs")
  case True
  then have "map f (xs[i := g (xs ! i)]) = (map f xs)[i := map f xs ! i]" by (simp add: map_update assms)
  then show ?thesis using True by (simp only: update_at_def if_True list_update_id)
qed (simp add: update_at_def)

lemma filter_list_update: "\<not> P y \<Longrightarrow> length (filter P (xs[i := y])) \<le> length (filter P xs)"
  by (induction xs arbitrary: i) (auto split: nat.splits intro: le_SucI)

lemma filter_update_at:
  "(\<And>x. \<not> P (g x)) \<Longrightarrow> length (filter P (update_at i g xs)) \<le> length (filter P xs)"
  by (simp add: update_at_def filter_list_update)

lemma edges_simps [simp]:
  "edges (run_concluded i out at r) = edges r"
  "edges (run_step_failed i err at r) = edges r"
  "edges (run_cancelled i at r) = edges r"
  "edges (run_awaiting r) = edges r"
  "edges (run_finished out r) = edges r"
  "edges (run_failed err r) = edges r"
  "edges (run_started step agent attempt from via inp at r) = edges r @ [(step, agent, attempt, from, via)]"
  by (simp_all add: edges_def run_concluded_def run_step_failed_def run_cancelled_def run_awaiting_def
      run_finished_def run_failed_def run_started_def step_edge_def map_update_at)

lemma running_steps_le:
  "running_steps (run_concluded i out at r) \<le> running_steps r"
  "running_steps (run_step_failed i err at r) \<le> running_steps r"
  "running_steps (run_cancelled i at r) \<le> running_steps r"
  by (simp_all add: running_steps_def run_concluded_def run_step_failed_def run_cancelled_def filter_update_at)

lemma running_steps_simps [simp]:
  "running_steps (run_awaiting r) = running_steps r"
  "running_steps (run_finished out r) = running_steps r"
  "running_steps (run_failed err r) = running_steps r"
  "running_steps (run_started step agent attempt from via inp at r) = Suc (running_steps r)"
  by (simp_all add: running_steps_def run_awaiting_def run_finished_def run_failed_def run_started_def)

lemma run_current_None: "run_current r = None \<longleftrightarrow> running_steps r = 0"
  by (auto simp: run_current_def running_steps_def position_None filter_empty_conv)

lemma cancel_current:
  assumes "running_steps r \<le> 1" "run_current r = Some c"
  shows "running_steps (run_cancelled c at r) = 0"
proof -
  from assms(2) have c: "c < length (rn_steps r)" "se_status (rn_steps r ! c) = StRunning"
    using position_SomeD [of _ "rn_steps r" c] by (auto simp: run_current_def)
  let ?P = "\<lambda>s. se_status s = StRunning"
  have "length (filter ?P (rn_steps r)) =
      length (filter ?P (take c (rn_steps r))) + Suc (length (filter ?P (drop (Suc c) (rn_steps r))))"
    using c by (subst id_take_nth_drop [OF c(1)]) simp
  then have "filter ?P (take c (rn_steps r)) = []" "filter ?P (drop (Suc c) (rn_steps r)) = []"
    using assms(1) by (simp_all add: running_steps_def)
  then show ?thesis
    using c by (simp add: running_steps_def run_cancelled_def update_at_def upd_conv_take_nth_drop)
qed

lemma length_edges [simp]: "length (edges r) = length (rn_steps r)"
  by (simp add: edges_def)

lemma attempts_edges: "attempts_of r step = length (filter (\<lambda>e. fst e = step) (edges r))"
  by (simp add: attempts_of_def edges_def filter_map o_def step_edge_def)

lemma edge_ok_prefix:
  "i < length es \<Longrightarrow> edge_ok agent_of run spec (es @ fs) i \<longleftrightarrow> edge_ok agent_of run spec es i"
  by (auto simp: edge_ok_def nth_append split: option.splits prod.splits)

lemma path_ok_started:
  assumes "path_ok agent_of run spec r"
    "edge_ok agent_of run spec (edges r @ [(step, agent, attempt, from, via)]) (length (rn_steps r))"
  shows "path_ok agent_of run spec (run_started step agent attempt from via inp at r)"
  using assms by (auto simp: path_ok_def less_Suc_eq edge_ok_prefix)

lemma path_ok_simps [simp]:
  "path_ok agent_of run spec (run_concluded i out at r) = path_ok agent_of run spec r"
  "path_ok agent_of run spec (run_step_failed i err at r) = path_ok agent_of run spec r"
  "path_ok agent_of run spec (run_cancelled i at r) = path_ok agent_of run spec r"
  "path_ok agent_of run spec (run_awaiting r) = path_ok agent_of run spec r"
  "path_ok agent_of run spec (run_finished out r) = path_ok agent_of run spec r"
  "path_ok agent_of run spec (run_failed err r) = path_ok agent_of run spec r"
  unfolding path_ok_def edges_simps by (rule refl)+

lemma perform_run_inv:
  assumes "run_inv agent_of run spec r" "a \<in> set (step_actions agent_of show_json run spec r)"
  shows "run_inv agent_of run spec (perform at a r)"
proof (cases a)
  case (StartStep p)
  note st = step_actions_start [OF assms(2) [unfolded StartStep]]
  have "edge_ok agent_of run spec (edges r @ [(sp_step p, sp_agent p, sp_attempt p, sp_from p, sp_via p)]) (length (rn_steps r))"
    using st by (auto simp: edge_ok_def nth_append attempts_edges split: option.splits) (auto simp: edges_def step_edge_def)
  moreover have "running_steps r = 0" using st(1) by (simp add: run_current_None)
  ultimately show ?thesis using assms(1) StartStep by (simp add: perform_def run_inv_def path_ok_started)
qed (use assms(1) in \<open>simp_all add: perform_def run_inv_def\<close>)

lemma cancel_run_inv:
  assumes "run_inv agent_of run spec r"
  shows "run_inv agent_of run spec (case run_current r of Some c \<Rightarrow> run_cancelled c at r | None \<Rightarrow> r)"
    "running_steps (case run_current r of Some c \<Rightarrow> run_cancelled c at r | None \<Rightarrow> r) = 0"
    "edges (case run_current r of Some c \<Rightarrow> run_cancelled c at r | None \<Rightarrow> r) = edges r"
  using assms cancel_current [of r _ at]
  by (auto simp: run_inv_def run_current_None split: option.splits)

lemma retry_run_inv:
  assumes "run_inv agent_of run spec r"
  shows "run_inv agent_of run spec (retry_run agent_of run i at r)"
proof (cases "i < length (rn_steps r)")
  case True
  define r1 where "r1 = (case run_current r of Some c \<Rightarrow> run_cancelled c at r | None \<Rightarrow> r)"
  have r1: "run_inv agent_of run spec r1" "running_steps r1 = 0" "edges r1 = edges r"
    using cancel_run_inv [OF assms, of at] by (simp_all add: r1_def)
  let ?t = "rn_steps r ! i"
  have i: "edges r ! i = step_edge ?t" using True by (simp add: edges_def)
  have "edge_ok agent_of run spec (edges r) i" using assms True by (simp add: run_inv_def path_ok_def)
  then have "edge_ok agent_of run spec (edges r1 @ [(se_step ?t, agent_of run (length (rn_steps r1)),
      attempts_of r1 (se_step ?t) + 1, se_from ?t, se_via ?t)]) (length (rn_steps r1))"
    using True i r1(3) by (auto simp: edge_ok_def step_edge_def attempts_edges nth_append simp flip: length_edges split: option.splits)
  then have "run_inv agent_of run spec (run_started (se_step ?t) (agent_of run (length (rn_steps r1)))
      (attempts_of r1 (se_step ?t) + 1) (se_from ?t) (se_via ?t) (se_input ?t) at r1)"
    using r1 by (simp add: run_inv_def path_ok_started)
  then show ?thesis using True by (simp add: retry_run_def run_get_def Let_def r1_def)
qed (use assms in \<open>simp add: retry_run_def run_get_def\<close>)

lemma run_move_inv:
  assumes "run_move agent_of show_json run spec r r'" "run_inv agent_of run spec r"
  shows "run_inv agent_of run spec r'"
  using assms(1)
proof cases
  case (drive a at)
  then show ?thesis using perform_run_inv [OF assms(2)] by simp
next
  case (retried i at)
  then show ?thesis using retry_run_inv [OF assms(2)] by simp
next
  case (stopped err at)
  then show ?thesis
    using cancel_run_inv [OF assms(2), of at] assms(2) by (simp add: stop_run_def run_inv_def)
qed (use assms(2) in \<open>simp_all add: run_inv_def order_trans [OF running_steps_le(1)]
  order_trans [OF running_steps_le(2)] order_trans [OF running_steps_le(3)]\<close>)

lemma run_inv_default: "run_inv agent_of run spec run_state_default"
  by (simp add: run_inv_def running_steps_def path_ok_def edges_def run_state_default_def)

lemma run_moves_inv:
  "(run_move agent_of show_json run spec)\<^sup>*\<^sup>* run_state_default r \<Longrightarrow> run_inv agent_of run spec r"
  by (induction rule: rtranclp_induct) (auto intro: run_inv_default run_move_inv)

section \<open>Saved definitions\<close>

lemma find_map_None': "find_map f xs = None \<Longrightarrow> x \<in> set xs \<Longrightarrow> f x = None"
  by (simp add: find_map_None)

lemma check_steps_names:
  "check_steps seen ss = None \<Longrightarrow> distinct (map sd_name ss) \<and> set (map sd_name ss) \<inter> seen = {} \<and>
   (\<forall>s\<in>set ss. validate_result_contract s = None)"
  by (induction ss arbitrary: seen) (auto simp: invalid_step_def split: if_splits)

lemma check_outcomes_ok:
  "check_outcomes step seen xs = None \<Longrightarrow> distinct (map so_value xs) \<and> set (map so_value xs) \<inter> seen = {} \<and>
   (\<forall>x\<in>set xs. trim (so_value x) \<noteq> [] \<and> trim (so_description x) \<noteq> [])"
  by (induction xs arbitrary: seen) (auto simp: invalid_step_def split: if_splits)

lemma check_fields_ok:
  "check_fields step seen fs = None \<Longrightarrow> distinct (map sf_name fs) \<and> set (map sf_name fs) \<inter> seen = {} \<and>
   (\<forall>f\<in>set fs. trim (sf_name f) \<noteq> [] \<and> sf_name f \<noteq> OUTCOME_FIELD \<and> sf_name f \<noteq> DESCRIPTION_FIELD)"
  by (induction fs arbitrary: seen) (auto simp: invalid_step_def split: if_splits)

lemma validate_workflow_None:
  assumes "validate_workflow known inp = None"
  shows "wi_steps inp \<noteq> []" "wi_max_steps inp \<noteq> Some 0" "distinct (map sd_name (wi_steps inp))"
    "wi_start inp \<in> set (map sd_name (wi_steps inp))"
    "\<And>s. s \<in> set (wi_steps inp) \<Longrightarrow> check_edges known (set (map sd_name (wi_steps inp))) s = None"
    "\<And>s. s \<in> set (wi_steps inp) \<Longrightarrow> validate_result_contract s = None"
proof -
  from assms have *: "wi_steps inp \<noteq> []" "wi_max_steps inp \<noteq> Some 0" "check_steps {} (wi_steps inp) = None"
    "wi_start inp \<in> set (map sd_name (wi_steps inp))"
    "find_map (check_edges known (set (map sd_name (wi_steps inp)))) (wi_steps inp) = None"
    by (auto simp: validate_workflow_def Let_def split: option.splits if_splits)
  then show "wi_steps inp \<noteq> []" "wi_max_steps inp \<noteq> Some 0" "wi_start inp \<in> set (map sd_name (wi_steps inp))"
    by simp_all
  show "distinct (map sd_name (wi_steps inp))" "\<And>s. s \<in> set (wi_steps inp) \<Longrightarrow> validate_result_contract s = None"
    using check_steps_names [OF *(3)] by simp_all
  show "\<And>s. s \<in> set (wi_steps inp) \<Longrightarrow> check_edges known (set (map sd_name (wi_steps inp))) s = None"
    using find_map_None' [OF *(5)] by blast
qed

lemma check_filter_None:
  "check_filter s flt = None \<longleftrightarrow> filter_values flt \<noteq> [] \<and>
   (\<forall>v\<in>set (filter_values flt). \<exists>x\<in>set (outcomes_or_default (sd_outcomes s)). so_value x = v)"
  by (auto simp: check_filter_def Let_def find_map_None list_ex_iff invalid_step_def)

lemma check_catch_all_None:
  "check_catch_all s = None \<longleftrightarrow>
   (\<forall>i. i + 1 < length (opt_list (sd_transitions s)) \<longrightarrow> wt_when (opt_list (sd_transitions s) ! i) \<noteq> None)"
proof (cases "sd_transitions s")
  case (Some ts)
  show ?thesis
  proof (cases "position (\<lambda>t. wt_when t = None) ts")
    case None
    then have "check_catch_all s = None" using Some by (simp add: check_catch_all_def)
    with None show ?thesis using Some by (auto simp: opt_list_def position_None)
  next
    case (Some i)
    from position_SomeD [OF this] \<open>sd_transitions s = Some ts\<close> Some show ?thesis
      by (auto simp: check_catch_all_def opt_list_def invalid_step_def)
  qed
qed (simp add: check_catch_all_def opt_list_def)

lemma check_edges_None:
  assumes "check_edges known seen s = None"
  shows "check_catch_all s = None" "known (sd_agent s)"
    "\<And>t. t \<in> set (opt_list (sd_transitions s)) \<Longrightarrow> wt_to t \<in> seen"
    "\<And>t flt. t \<in> set (opt_list (sd_transitions s)) \<Longrightarrow> wt_when t = Some flt \<Longrightarrow> check_filter s flt = None"
proof -
  from assms have *: "check_catch_all s = None" "find_map (check_transition seen s) (opt_list (sd_transitions s)) = None"
    "known (sd_agent s)"
    by (auto simp: check_edges_def invalid_step_def split: if_splits)
  then show "check_catch_all s = None" "known (sd_agent s)" by simp_all
  fix t assume "t \<in> set (opt_list (sd_transitions s))"
  with *(2) have "check_transition seen s t = None" by (simp add: find_map_None)
  then show "wt_to t \<in> seen" and "\<And>flt. wt_when t = Some flt \<Longrightarrow> check_filter s flt = None"
    by (simp_all add: check_transition_def split: if_splits)
qed

lemma assemble_steps_Inr:
  "assemble_steps presets models ps ss = Inr (specs, qs) \<Longrightarrow>
   length specs = length ss \<and>
   (\<forall>i<length ss. \<exists>p. presets (sd_agent (ss ! i)) = Some p \<and> av_model p \<in> set models \<and> specs ! i = assemble_step p (ss ! i))"
proof (induction ss arbitrary: ps specs)
  case (Cons s ss)
  then obtain p specs' where *: "presets (sd_agent s) = Some p" "av_model p \<in> set models"
    "assemble_steps presets models (add_plugins ps (av_plugins p)) ss = Inr (specs', qs)"
    "specs = assemble_step p s # specs'"
    by (auto split: option.splits if_splits sum.splits)
  from Cons.IH [OF *(3)] * show ?case by (auto simp: nth_Cons split: nat.splits)
qed simp

lemma ss_assemble [simp]:
  "ss_name (assemble_step p s) = sd_name s"
  "map ts_to (ss_transitions (assemble_step p s)) = map wt_to (opt_list (sd_transitions s))"
  by (simp_all add: assemble_step_def)

lemma assembled_names:
  assumes "assemble_run_spec row presets models inp = Inr (spec, ps)"
  shows "map ss_name (rs_steps spec) = map sd_name (wr_steps row)"
    "\<And>s t. s \<in> set (rs_steps spec) \<Longrightarrow> t \<in> set (ss_transitions s) \<Longrightarrow>
       \<exists>d\<in>set (wr_steps row). \<exists>u\<in>set (opt_list (sd_transitions d)). wt_to u = ts_to t"
    "rs_start spec = wr_start row"
    "rs_max_steps spec = (case wr_max_steps row of Some n \<Rightarrow> n | None \<Rightarrow> DEFAULT_MAX_STEPS)"
proof -
  from assms obtain specs where sp: "assemble_steps presets models [] (wr_steps row) = Inr (specs, ps)"
    "rs_steps spec = specs" and st: "rs_start spec = wr_start row"
    "rs_max_steps spec = (case wr_max_steps row of Some n \<Rightarrow> n | None \<Rightarrow> DEFAULT_MAX_STEPS)"
    by (auto simp: assemble_run_spec_def split: if_splits sum.splits prod.splits)
  note a = assemble_steps_Inr [OF sp(1)]
  show "map ss_name (rs_steps spec) = map sd_name (wr_steps row)"
    using a sp(2) by (intro nth_equalityI) auto
  fix s t assume "s \<in> set (rs_steps spec)" "t \<in> set (ss_transitions s)"
  then obtain i p where "i < length (wr_steps row)" "s = assemble_step p (wr_steps row ! i)"
    using a sp(2) by (auto simp: in_set_conv_nth)
  with \<open>t \<in> set (ss_transitions s)\<close> show "\<exists>d\<in>set (wr_steps row). \<exists>u\<in>set (opt_list (sd_transitions d)). wt_to u = ts_to t"
    by (auto simp: assemble_step_def intro!: bexI [of _ "wr_steps row ! i"])
qed (use assms in \<open>auto simp: assemble_run_spec_def split: if_splits sum.splits prod.splits\<close>)

lemma spec_step_None: "spec_step spec n = None \<longleftrightarrow> n \<notin> set (map ss_name (rs_steps spec))"
  by (auto simp: spec_step_def find_None_iff)

lemma spec_step_SomeD: "spec_step spec n = Some s \<Longrightarrow> s \<in> set (rs_steps spec) \<and> ss_name s = n"
  by (auto simp: spec_step_def find_Some_iff)

text \<open>A snapshot whose start and targets are all steps of it.\<close>

definition graph_closed :: "run_spec \<Rightarrow> bool" where
  "graph_closed spec \<longleftrightarrow> spec_step spec (rs_start spec) \<noteq> None \<and>
     (\<forall>s\<in>set (rs_steps spec). \<forall>t\<in>set (ss_transitions s). spec_step spec (ts_to t) \<noteq> None)"

lemma saved_graph_closed:
  assumes "validate_workflow known inp = None"
    "assemble_run_spec (input_row inp created now) presets models text_in = Inr (spec, ps)"
  shows "graph_closed spec" "0 < unat (rs_max_steps spec)"
proof -
  note v = validate_workflow_None [OF assms(1)] and a = assembled_names [OF assms(2)]
  have names: "spec_step spec n = None \<longleftrightarrow> n \<notin> set (map sd_name (wi_steps inp))" for n
    using a(1) by (simp add: spec_step_None input_row_def)
  show "graph_closed spec"
    unfolding graph_closed_def
  proof (intro conjI ballI)
    show "spec_step spec (rs_start spec) \<noteq> None" using v(4) a(3) by (simp add: names input_row_def)
    fix s t assume "s \<in> set (rs_steps spec)" "t \<in> set (ss_transitions s)"
    from a(2) [OF this] obtain d u where "d \<in> set (wi_steps inp)" "u \<in> set (opt_list (sd_transitions d))" "wt_to u = ts_to t"
      by (auto simp: input_row_def)
    with check_edges_None(3) [OF v(5)] show "spec_step spec (ts_to t) \<noteq> None"
      unfolding names by metis
  qed
  show "0 < unat (rs_max_steps spec)"
    using v(2) a(4) by (auto simp: input_row_def DEFAULT_MAX_STEPS_def unat_gt_0 split: option.splits)
qed

lemma closed_graph_fails_by_budget:
  assumes "graph_closed spec" "path_ok agent_of run spec r"
    "FailRun u err \<in> set (step_actions agent_of show_json run spec r)"
  shows "err = budget_error spec \<and> unat (rs_max_steps spec) \<le> length (rn_steps r)"
proof (rule ccontr)
  assume "\<not> ?thesis"
  with assms(1,3) have ne: "rn_steps r \<noteq> []" and prev: "se_status (last (rn_steps r)) = StConcluded"
    by (auto simp: step_actions_def run_last_def graph_closed_def split: if_splits)
  then have i: "length (rn_steps r) - 1 < length (edges r)" by simp
  with assms(2) have "edge_ok agent_of run spec (edges r) (length (rn_steps r) - 1)" by (simp only: path_ok_def)
  then obtain st where st: "spec_step spec (se_step (last (rn_steps r))) = Some st"
    using ne by (auto simp: edge_ok_def edges_def step_edge_def last_conv_nth)
  from \<open>\<not> ?thesis\<close> assms(3) ne prev st obtain to via outc where
    t: "next_transition (ss_transitions st) outc = Some (to, via)" "spec_step spec to = None"
    by (auto simp: step_actions_def run_last_def Let_def split: if_splits option.splits)
  from next_transition_SomeD [OF t(1)] obtain x where "x \<in> set (ss_transitions st)" "ts_to x = to" by blast
  with spec_step_SomeD [OF st] assms(1) have "spec_step spec to \<noteq> None" unfolding graph_closed_def by blast
  with t(2) show False by simp
qed

section \<open>Handing a result on\<close>

lemma mset_eq_distinct_map: "mset xs = mset ys \<Longrightarrow> distinct (map f xs) \<Longrightarrow> distinct (map f ys)"
  by (metis mset_eq_imp_distinct_iff mset_map)

lemma map_of_perm:
  assumes "mset xs = mset ys" "distinct (map fst xs)"
  shows "map_of xs = map_of ys"
  using assms mset_eq_distinct_map [OF assms] map_of_inject_set [of xs ys] by (auto dest: mset_eq_setD)

lemma sort_key_perm:
  assumes "mset xs = mset ys" "distinct (map f xs)"
  shows "sort_key f xs = sort_key f ys"
  using assms by (intro sort_key_inj_key_eq) (simp_all add: distinct_map)

lemma distinct_map_filter_sub: "distinct (map f xs) \<Longrightarrow> distinct (map f (filter P xs))"
  by (rule distinct_map_filter)

section \<open>A run that is left alone\<close>

text \<open>
  A run driven to its end: each decision is taken, and a started step concludes with what \<open>oracle\<close> says.
\<close>

fun drive_run ::
    "(uuid \<Rightarrow> nat \<Rightarrow> uuid) \<Rightarrow> (json \<Rightarrow> string) \<Rightarrow> uuid \<Rightarrow> run_spec \<Rightarrow> (nat \<Rightarrow> json) \<Rightarrow> u64 \<Rightarrow> nat \<Rightarrow> run_state \<Rightarrow> run_state" where
  "drive_run agent_of show_json run spec oracle at 0 r = r"
| "drive_run agent_of show_json run spec oracle at (Suc n) r =
     (case step_actions agent_of show_json run spec r of
        [] \<Rightarrow> r
      | a # _ \<Rightarrow>
          (let r' = perform at a r
           in drive_run agent_of show_json run spec oracle at n
                (case a of StartStep p \<Rightarrow> run_concluded (sp_index p) (oracle (sp_index p)) at r' | _ \<Rightarrow> r')))"

definition between_steps :: "run_state \<Rightarrow> bool" where
  "between_steps r \<longleftrightarrow> (rn_status r = WrRunning \<or> rn_status r = WrPending) \<and> running_steps r = 0 \<and>
     (rn_steps r \<noteq> [] \<longrightarrow> se_status (last (rn_steps r)) = StConcluded)"

lemma between_steps_acts: "between_steps r \<Longrightarrow> step_actions agent_of show_json run spec r \<noteq> []"
  by (auto simp: between_steps_def step_actions_def is_terminal_def run_current_None run_last_def Let_def
      split: option.splits prod.splits)

lemma start_then_conclude:
  assumes "between_steps r" "StartStep p \<in> set (step_actions agent_of show_json run spec r)"
  shows "between_steps (run_concluded (sp_index p) out at (perform at (StartStep p) r))"
    "length (rn_steps (run_concluded (sp_index p) out at (perform at (StartStep p) r))) = Suc (length (rn_steps r))"
proof -
  from assms(2) have i: "sp_index p = length (rn_steps r)"
    by (auto simp: step_actions_def start_action_def Let_def split: if_splits option.splits prod.splits)
  show "length (rn_steps (run_concluded (sp_index p) out at (perform at (StartStep p) r))) = Suc (length (rn_steps r))"
    by (simp add: i perform_def run_started_def run_concluded_def update_at_def)
  show "between_steps (run_concluded (sp_index p) out at (perform at (StartStep p) r))"
    using assms(1) by (simp add: i between_steps_def perform_def run_started_def run_concluded_def update_at_def
        running_steps_def list_update_append)
qed

lemma no_delivery: "DeliverResult d \<notin> set (step_actions agent_of show_json run spec r)"
  by (simp add: step_actions_def Let_def split: option.splits prod.splits)

lemma drive_run_ends:
  assumes "between_steps r" "length (rn_steps r) \<le> unat (rs_max_steps spec)"
    "unat (rs_max_steps spec) - length (rn_steps r) < n"
  shows "is_terminal (rn_status (drive_run agent_of show_json run spec oracle at n r)) \<and>
    length (rn_steps (drive_run agent_of show_json run spec oracle at n r)) \<le> unat (rs_max_steps spec)"
  using assms
proof (induction n arbitrary: r)
  case (Suc n)
  obtain a as where a: "step_actions agent_of show_json run spec r = a # as"
    using between_steps_acts [OF Suc.prems(1)] by (metis neq_Nil_conv)
  show ?case
  proof (cases a)
    case (StartStep p)
    then have p: "StartStep p \<in> set (step_actions agent_of show_json run spec r)" using a by simp
    note s = start_then_conclude [OF Suc.prems(1) p, of "oracle (sp_index p)" at]
    have "length (rn_steps r) < unat (rs_max_steps spec)" using step_actions_start(3) [OF p] .
    with Suc.IH [OF s(1)] s(2) Suc.prems show ?thesis using a StartStep by (simp add: Let_def)
  next
    case (FinishRun u out)
    then have t: "is_terminal (rn_status (perform at a r))" by (simp add: perform_def run_finished_def is_terminal_def)
    then have "drive_run agent_of show_json run spec oracle at n (perform at a r) = perform at a r"
      by (cases n) (simp_all add: step_actions_def)
    with t Suc.prems(2) a FinishRun show ?thesis by (simp add: perform_def run_finished_def)
  next
    case (FailRun u err)
    then have t: "is_terminal (rn_status (perform at a r))" by (simp add: perform_def run_failed_def is_terminal_def)
    then have "drive_run agent_of show_json run spec oracle at n (perform at a r) = perform at a r"
      by (cases n) (simp_all add: step_actions_def)
    with t Suc.prems(2) a FailRun show ?thesis by (simp add: perform_def run_failed_def)
  next
    case (DeliverResult d)
    then show ?thesis using a no_delivery [of d agent_of show_json run spec r] by simp
  qed
qed simp

section \<open>A sample workflow\<close>

definition sample_step :: "string \<Rightarrow> wf_transition list \<Rightarrow> step_def" where
  "sample_step name ts = \<lparr> sd_name = name, sd_agent = ''coder'', sd_prompt = ''work'', sd_outcomes = None,
     sd_fields = None, sd_interactive = None, sd_transitions = Some ts, sd_max_iterations = None,
     sd_max_retries = None \<rparr>"

definition sample_workflow :: workflow_input where
  "sample_workflow = \<lparr> wi_name = ''ship'', wi_description = None, wi_start = ''build'',
     wi_steps = [sample_step ''build'' [\<lparr> wt_to = ''test'', wt_when = Some (FIn [''success'']) \<rparr>],
                 sample_step ''test'' [\<lparr> wt_to = ''build'', wt_when = Some (FNotIn [''success'']) \<rparr>]],
     wi_max_steps = Some 3 \<rparr>"

definition sample_preset :: agent_view where
  "sample_preset = \<lparr> av_name = ''coder'', av_description = [], av_instructions = None, av_model = ''m'',
     av_plugins = [], av_mcp_servers = [], av_memory_spaces = [], av_thinking_effort = None,
     av_auto_compact = None, av_allowed_tools = None, av_tunable = None, av_revision = None \<rparr>"

definition sample_spec :: run_spec where
  "sample_spec = (case assemble_run_spec (input_row sample_workflow ''0'' ''0'') (\<lambda>_. Some sample_preset) [''m''] ''go'' of
     Inr (spec, _) \<Rightarrow> spec | Inl _ \<Rightarrow> undefined)"

definition sample_agent_of :: "uuid \<Rightarrow> nat \<Rightarrow> uuid" where
  "sample_agent_of run i = run @ ''/'' @ show_nat i"

lemma sample_workflow_saved: "validate_workflow (\<lambda>p. p = ''coder'') sample_workflow = None"
  by code_simp

lemma sample_spec_assembled:
  "assemble_run_spec (input_row sample_workflow ''0'' ''0'') (\<lambda>_. Some sample_preset) [''m''] ''go'' = Inr (sample_spec, [])"
proof -
  have "trim ''go'' = ''go''" by code_simp
  then show ?thesis
    by (simp add: sample_spec_def assemble_run_spec_def input_row_def sample_workflow_def sample_step_def
        sample_preset_def add_plugins_def)
qed

lemma sample_agent_of_inj: "inj (sample_agent_of run)"
  by (simp add: inj_def sample_agent_of_def)

definition sample_output :: "string \<Rightarrow> json" where
  "sample_output x = JObject [(OUTCOME_FIELD, JString x), (DESCRIPTION_FIELD, JString ''done'')]"

section \<open>Properties\<close>

text \<open>
  C9: Whatever a session does to a run, and however late or out of order its steps report, the log stays a
  walk through the graph with at most one step in flight: every execution is of a step of the graph, was
  reached over an edge of the earlier execution it names (or is the start), is numbered after the earlier
  executions of its step, and is found again by its agent's id.\<close>

theorem workflow_log_is_a_path:
  assumes "(run_move agent_of show_json run spec)\<^sup>*\<^sup>* run_state_default r" "inj (agent_of run)"
  shows "running_steps r \<le> 1 \<and> path_ok agent_of run spec r \<and>
    (\<forall>i<length (rn_steps r). index_of_agent r (se_agent (rn_steps r ! i)) = Some i)"
proof -
  have inv: "running_steps r \<le> 1" "path_ok agent_of run spec r"
    using run_moves_inv [OF assms(1)] by (simp_all add: run_inv_def)
  have agent: "se_agent (rn_steps r ! i) = agent_of run i" if "i < length (rn_steps r)" for i
  proof -
    from inv(2) that have "edge_ok agent_of run spec (edges r) i" by (simp add: path_ok_def)
    with that show ?thesis by (simp add: edge_ok_def edges_def step_edge_def)
  qed
  have "index_of_agent r (se_agent (rn_steps r ! i)) = Some i" if i: "i < length (rn_steps r)" for i
  proof (cases "index_of_agent r (se_agent (rn_steps r ! i))")
    case None
    with i show ?thesis by (auto simp: index_of_agent_def position_None)
  next
    case (Some j)
    with position_SomeD [of _ "rn_steps r" j] have "j < length (rn_steps r)" "se_agent (rn_steps r ! j) = se_agent (rn_steps r ! i)"
      by (auto simp: index_of_agent_def)
    with i agent assms(2) Some show ?thesis by (auto dest: injD)
  qed
  with inv show ?thesis by blast
qed

definition sample_started :: run_state where
  "sample_started = perform 1 (hd (step_actions sample_agent_of (\<lambda>_. []) ''r'' sample_spec run_state_default)) run_state_default"

lemma sample_moves: "(run_move sample_agent_of (\<lambda>_. []) ''r'' sample_spec)\<^sup>*\<^sup>* run_state_default sample_started"
proof -
  have "step_actions sample_agent_of (\<lambda>_. []) ''r'' sample_spec run_state_default \<noteq> []" by code_simp
  then have "run_move sample_agent_of (\<lambda>_. []) ''r'' sample_spec run_state_default sample_started"
    unfolding sample_started_def by (intro run_move.drive) simp
  then show ?thesis ..
qed

theorem workflow_log_is_a_path_witness:
  "running_steps sample_started \<le> 1 \<and> index_of_agent sample_started ''r/0'' = Some 0 \<and> running_steps sample_started = 1"
proof -
  have "length (rn_steps sample_started) = 1" "se_agent (rn_steps sample_started ! 0) = ''r/0''" "running_steps sample_started = 1"
    by code_simp+
  then show ?thesis using workflow_log_is_a_path [OF sample_moves sample_agent_of_inj] by force
qed

text \<open>
  C10: A run that is left alone ends. Whatever its steps return, driving it takes at most as many step
  executions as its budget allows and then leaves it finished or failed; a loop whose condition never flips
  is cut off by the budget.\<close>

theorem driven_run_ends:
  shows "is_terminal (rn_status (drive_run agent_of show_json run spec oracle at
      (Suc (unat (rs_max_steps spec))) run_state_default)) \<and>
    length (rn_steps (drive_run agent_of show_json run spec oracle at
      (Suc (unat (rs_max_steps spec))) run_state_default)) \<le> unat (rs_max_steps spec)"
  by (rule drive_run_ends) (simp_all add: between_steps_def run_state_default_def running_steps_def)

text \<open>
  C11: A definition that passed the checks at save time cannot run into a dead end. In every log its runs can
  build, the only failure the driver ever decides on is the exhausted step budget: its start step and every
  transition's target are there, whatever the steps returned, were retried or stopped.\<close>

theorem saved_workflow_fails_only_by_budget:
  assumes "validate_workflow known inp = None"
    "assemble_run_spec (input_row inp created now) presets models text_in = Inr (spec, ps)"
    "(run_move agent_of show_json run spec)\<^sup>*\<^sup>* run_state_default r"
    "FailRun u err \<in> set (step_actions agent_of show_json run spec r)"
  shows "err = budget_error spec \<and> 0 < unat (rs_max_steps spec) \<and> unat (rs_max_steps spec) \<le> length (rn_steps r)"
  using closed_graph_fails_by_budget [OF saved_graph_closed(1) [OF assms(1,2)] _ assms(4)]
    saved_graph_closed(2) [OF assms(1,2)] run_moves_inv [OF assms(3)] by (simp add: run_inv_def)

lemma drive_run_moves:
  "(run_move agent_of show_json run spec)\<^sup>*\<^sup>* r (drive_run agent_of show_json run spec oracle at n r)"
proof (induction n arbitrary: r)
  case (Suc n)
  show ?case
  proof (cases "step_actions agent_of show_json run spec r")
    case (Cons a as)
    let ?next = "case a of StartStep p \<Rightarrow> run_concluded (sp_index p) (oracle (sp_index p)) at (perform at a r) | _ \<Rightarrow> perform at a r"
    have "run_move agent_of show_json run spec r (perform at a r)" using Cons by (intro run_move.drive) simp
    moreover have "(run_move agent_of show_json run spec)\<^sup>*\<^sup>* (perform at a r) ?next"
      by (cases a) (auto intro: run_move.concluded)
    ultimately have "(run_move agent_of show_json run spec)\<^sup>*\<^sup>* r ?next" by (rule converse_rtranclp_into_rtranclp)
    from rtranclp_trans [OF this Suc.IH] Cons show ?thesis by (simp add: Let_def)
  qed simp
qed simp

definition sample_looped :: run_state where
  "sample_looped = drive_run sample_agent_of (\<lambda>_. []) ''r'' sample_spec
     (\<lambda>i. sample_output (if i = 1 then ''failure'' else ''success'')) 1 3 run_state_default"

theorem saved_workflow_fails_only_by_budget_witness:
  "step_actions sample_agent_of (\<lambda>_. []) ''r'' sample_spec sample_looped = [FailRun ''r'' (budget_error sample_spec)] \<and>
   3 \<le> length (rn_steps sample_looped)"
proof -
  have acts: "step_actions sample_agent_of (\<lambda>_. []) ''r'' sample_spec sample_looped
      = [FailRun ''r'' ''step budget exhausted after 3 steps'']" and "rs_max_steps sample_spec = 3"
    by code_simp+
  then show ?thesis
    using saved_workflow_fails_only_by_budget [OF sample_workflow_saved sample_spec_assembled
        drive_run_moves [of sample_agent_of "\<lambda>_. []" "''r''" sample_spec run_state_default
          "\<lambda>i. sample_output (if i = 1 then ''failure'' else ''success'')" 1 3, folded sample_looped_def],
        of "''r''" "''step budget exhausted after 3 steps''"]
    by simp
qed

text \<open>
  What one step hands the next does not depend on the order in which the submitted object iterates its
  keys, so it cannot change with how the server was built.\<close>

theorem handoff_ignores_key_order:
  assumes "mset kvs = mset kvs'" "distinct (map fst kvs)"
  shows "output_as_input show_json (JObject kvs) = output_as_input show_json (JObject kvs')"
proof -
  have "map_of kvs = map_of kvs'" using assms by (rule map_of_perm)
  moreover have "sort_key fst (filter P kvs) = sort_key fst (filter P kvs')" for P
    using assms by (intro sort_key_perm) (simp_all add: distinct_map_filter)
  ultimately show ?thesis
    by (simp add: output_as_input_def json_as_str_def render_result_def get_str_def json_get_def)
qed

theorem handoff_ignores_key_order_witness:
  "output_as_input (\<lambda>_. []) (JObject [(''b'', JString ''2''), (''a'', JString ''1'')])
   = output_as_input (\<lambda>_. []) (JObject [(''a'', JString ''1''), (''b'', JString ''2'')])"
  by (rule handoff_ignores_key_order) simp_all



end
