(* ===== verification/Run_Forest.thy ===== *)
theory Run_Forest
  imports Ordered_Map Workflow_Driver Tool_Output Hook_Translation
begin

text \<open>
  The forest of everything a session runs (\<^verbatim>\<open>crates/server/src/sessions/run_forest.rs\<close>): its entries,
  the index from agents to the entries that host them, the folds every session event goes through, the
  walks up the parent links, the deletion of an agent with its delegated work, and the deliveries a
  child owes. UUIDs are strings, ordered as the tree orders them.
\<close>

section \<open>Entries\<close>

type_synonym run_id = uuid
type_synonym runtime_id = uuid

definition MAX_DEPTH :: nat where "MAX_DEPTH = 4"

definition DEFAULT_MAX_CONCURRENT_SUBAGENTS :: u32 where "DEFAULT_MAX_CONCURRENT_SUBAGENTS = 8"

definition MAX_LIVE_RUNS :: nat where "MAX_LIVE_RUNS = 8"

definition INTERRUPTED_ERROR :: string where "INTERRUPTED_ERROR = ''interrupted by restart''"

definition STOPPED_ERROR :: string where "STOPPED_ERROR = ''stopped before it finished''"

definition MAX_RESULT_BYTES :: nat where "MAX_RESULT_BYTES = 50000"

definition truncate_result :: "string \<Rightarrow> string" where
  "truncate_result s =
     (if length s \<le> MAX_RESULT_BYTES then s
      else take (back_to_boundary s MAX_RESULT_BYTES) s @ [CHR 0xE2, CHR 0x80, CHR 0xA6, nl, nl]
        @ ''[truncated: '' @ show_nat (length s) @ '' bytes total]'')"

datatype turn_phase = PhIdle | PhRunning | PhAwaitingInput | PhFailed string

datatype runtime_choice = RcPending | RcOn runtime_id | RcWithout | RcInherit

record main_run =
  mr_turn :: turn_phase
  mr_title :: "string option"
  mr_runtime :: runtime_choice

datatype sub_status = SubRunning | SubCompleted | SubFailed

record sub_run =
  su_title :: string
  su_task :: string
  su_agent_type :: "string option"
  su_status :: sub_status
  su_output :: "string option"
  su_error :: "string option"
  su_notified :: bool
  su_started_at_ms :: u64
  su_ended_at_ms :: u64

record workflow_run =
  wf_workflow :: string
  wf_graph :: run_spec
  wf_run :: run_state
  wf_notified :: bool
  wf_runtime :: runtime_choice

datatype seed_mode = SeedCopy | SeedSummary | SeedFresh

datatype agent_status =
    AsProvisioning | AsRunning | AsIdle | AsAwaitingInput | AsCompleted | AsFailed | AsCancelled

record sub_session_run =
  sn_source_seq :: nat
  sn_seed :: seed_mode
  sn_message :: string
  sn_title :: string
  sn_status :: agent_status
  sn_last_activity_ms :: u64
  sn_runtime :: runtime_choice

datatype entry_state =
    EMain main_run
  | ESub sub_run
  | EWorkflow workflow_run
  | ESubSession sub_session_run

record run_entry =
  en_parent :: "uuid option"
  en_created_at_ms :: u64
  en_state :: entry_state

record owed_delivery =
  od_child :: run_id
  od_to :: uuid
  od_part :: subagent_result_part

record run_forest =
  rf_root :: "run_id option"
  rf_entries :: "run_entry btree"
  rf_agents :: "run_id btree"

definition forest_default :: run_forest where
  "forest_default = \<lparr> rf_root = None, rf_entries = [], rf_agents = [] \<rparr>"

definition seed_as_str :: "seed_mode \<Rightarrow> string" where
  "seed_as_str m = (case m of SeedCopy \<Rightarrow> ''copy'' | SeedSummary \<Rightarrow> ''summary'' | SeedFresh \<Rightarrow> ''fresh'')"

section \<open>Roots\<close>

definition put_entry :: "run_id \<Rightarrow> run_entry \<Rightarrow> run_forest \<Rightarrow> run_forest" where
  "put_entry i e f = f\<lparr> rf_entries := bt_insert i e (rf_entries f) \<rparr>"

definition host_agent :: "uuid \<Rightarrow> run_id \<Rightarrow> run_forest \<Rightarrow> run_forest" where
  "host_agent a i f = f\<lparr> rf_agents := bt_insert a i (rf_agents f) \<rparr>"

definition apply_root_agent :: "uuid \<Rightarrow> u64 \<Rightarrow> runtime_choice \<Rightarrow> run_forest \<Rightarrow> run_forest" where
  "apply_root_agent session at rt f =
     (host_agent session session (put_entry session
        \<lparr> en_parent = None, en_created_at_ms = at,
          en_state = EMain \<lparr> mr_turn = PhIdle, mr_title = None, mr_runtime = rt \<rparr> \<rparr> f))
     \<lparr> rf_root := Some session \<rparr>"

definition apply_root_workflow :: "uuid \<Rightarrow> string \<Rightarrow> run_spec \<Rightarrow> u64 \<Rightarrow> runtime_choice \<Rightarrow> run_forest \<Rightarrow> run_forest" where
  "apply_root_workflow session workflow graph at rt f =
     (put_entry session \<lparr> en_parent = None, en_created_at_ms = at,
        en_state = EWorkflow \<lparr> wf_workflow = workflow, wf_graph = graph, wf_run = run_state_default,
          wf_notified = False, wf_runtime = rt \<rparr> \<rparr> f)\<lparr> rf_root := Some session \<rparr>"

text \<open>The mutable views: each reaches an entry of one kind and nothing else.\<close>

definition on_entry :: "run_id \<Rightarrow> (entry_state \<Rightarrow> entry_state) \<Rightarrow> run_forest \<Rightarrow> run_forest" where
  "on_entry i g f = f\<lparr> rf_entries := bt_update i (\<lambda>e. e\<lparr> en_state := g (en_state e) \<rparr>) (rf_entries f) \<rparr>"

definition main_mut :: "run_id \<Rightarrow> (main_run \<Rightarrow> main_run) \<Rightarrow> run_forest \<Rightarrow> run_forest" where
  "main_mut i g = on_entry i (\<lambda>s. case s of EMain m \<Rightarrow> EMain (g m) | _ \<Rightarrow> s)"

definition sub_mut :: "run_id \<Rightarrow> (sub_run \<Rightarrow> sub_run) \<Rightarrow> run_forest \<Rightarrow> run_forest" where
  "sub_mut i g = on_entry i (\<lambda>s. case s of ESub m \<Rightarrow> ESub (g m) | _ \<Rightarrow> s)"

definition workflow_mut :: "run_id \<Rightarrow> (workflow_run \<Rightarrow> workflow_run) \<Rightarrow> run_forest \<Rightarrow> run_forest" where
  "workflow_mut i g = on_entry i (\<lambda>s. case s of EWorkflow m \<Rightarrow> EWorkflow (g m) | _ \<Rightarrow> s)"

definition sub_session_mut :: "run_id \<Rightarrow> (sub_session_run \<Rightarrow> sub_session_run) \<Rightarrow> run_forest \<Rightarrow> run_forest" where
  "sub_session_mut i g = on_entry i (\<lambda>s. case s of ESubSession m \<Rightarrow> ESubSession (g m) | _ \<Rightarrow> s)"

definition apply_main_titled :: "string \<Rightarrow> run_forest \<Rightarrow> run_forest" where
  "apply_main_titled title f = (case rf_root f of
     Some i \<Rightarrow> main_mut i (\<lambda>m. m\<lparr> mr_title := Some title \<rparr>) f | None \<Rightarrow> f)"

section \<open>Lookups\<close>

definition forest_entry :: "run_forest \<Rightarrow> run_id \<Rightarrow> run_entry option" where
  "forest_entry f i = bt_get (rf_entries f) i"

definition root_entry :: "run_forest \<Rightarrow> run_entry option" where
  "root_entry f = Option.bind (rf_root f) (forest_entry f)"

definition main_title :: "run_forest \<Rightarrow> string option" where
  "main_title f = (case map_option en_state (root_entry f) of Some (EMain m) \<Rightarrow> mr_title m | _ \<Rightarrow> None)"

definition root_workflow :: "run_forest \<Rightarrow> (run_id \<times> workflow_run) option" where
  "root_workflow f = (case rf_root f of
     None \<Rightarrow> None
   | Some i \<Rightarrow> (case map_option en_state (forest_entry f i) of Some (EWorkflow w) \<Rightarrow> Some (i, w) | _ \<Rightarrow> None))"

definition root_is_workflow :: "run_forest \<Rightarrow> bool" where
  "root_is_workflow f \<longleftrightarrow> root_workflow f \<noteq> None"

definition current_root_step_agent :: "run_forest \<Rightarrow> uuid option" where
  "current_root_step_agent f = Option.bind (root_workflow f) (\<lambda>(_, w). current_agent (wf_run w))"

definition entries_of :: "(entry_state \<Rightarrow> 'a option) \<Rightarrow> run_forest \<Rightarrow> (run_id \<times> 'a) list" where
  "entries_of pick f = List.map_filter (\<lambda>(i, e). map_option (Pair i) (pick (en_state e))) (rf_entries f)"

definition as_workflow :: "entry_state \<Rightarrow> workflow_run option" where
  "as_workflow s = (case s of EWorkflow w \<Rightarrow> Some w | _ \<Rightarrow> None)"

definition as_sub :: "entry_state \<Rightarrow> sub_run option" where
  "as_sub s = (case s of ESub m \<Rightarrow> Some m | _ \<Rightarrow> None)"

definition as_sub_session :: "entry_state \<Rightarrow> sub_session_run option" where
  "as_sub_session s = (case s of ESubSession m \<Rightarrow> Some m | _ \<Rightarrow> None)"

definition workflows :: "run_forest \<Rightarrow> (run_id \<times> workflow_run) list" where
  "workflows = entries_of as_workflow"

definition subs :: "run_forest \<Rightarrow> (uuid \<times> sub_run) list" where
  "subs = entries_of as_sub"

definition sub_sessions :: "run_forest \<Rightarrow> (uuid \<times> sub_session_run) list" where
  "sub_sessions = entries_of as_sub_session"

definition in_flight_steps :: "run_forest \<Rightarrow> (run_id \<times> nat \<times> uuid) list" where
  "in_flight_steps f = List.map_filter (\<lambda>(i, w).
     case run_current (wf_run w) of
       None \<Rightarrow> None
     | Some index \<Rightarrow> map_option (\<lambda>s. (i, index, se_agent s)) (run_get (wf_run w) index)) (workflows f)"

definition has_step_in_flight :: "run_forest \<Rightarrow> bool" where
  "has_step_in_flight f \<longleftrightarrow> list_ex (\<lambda>(_, w). run_current (wf_run w) \<noteq> None) (workflows f)"

definition owner_of_agent :: "run_forest \<Rightarrow> uuid \<Rightarrow> (run_id \<times> run_entry) option" where
  "owner_of_agent f a = (case bt_get (rf_agents f) a of
     None \<Rightarrow> None | Some i \<Rightarrow> map_option (Pair i) (bt_get (rf_entries f) i))"

definition is_known_agent :: "run_forest \<Rightarrow> uuid \<Rightarrow> bool" where
  "is_known_agent f a \<longleftrightarrow> bt_get (rf_agents f) a \<noteq> None"

definition is_hosted_agent :: "run_forest \<Rightarrow> uuid \<Rightarrow> bool" where
  "is_hosted_agent f a = (case map_option (\<lambda>(_, e). en_state e) (owner_of_agent f a) of
     Some (ESub _) \<Rightarrow> True | Some (ESubSession _) \<Rightarrow> True | Some (EWorkflow _) \<Rightarrow> True
   | Some (EMain _) \<Rightarrow> False | None \<Rightarrow> False)"

section \<open>Walks up\<close>

text \<open>Every loop counts its hops against the number of entries, so that it ends on any data.\<close>

definition decided :: "runtime_choice \<Rightarrow> bool" where
  "decided c \<longleftrightarrow> c \<noteq> RcInherit"

text \<open>What an entry says about where it runs: an answer, or \<open>None\<close> to ask above it.\<close>

definition runtime_here :: "entry_state \<Rightarrow> runtime_choice option" where
  "runtime_here s = (case s of
     EMain m \<Rightarrow> Some (if mr_runtime m = RcInherit then RcPending else mr_runtime m)
   | ESubSession m \<Rightarrow> if decided (sn_runtime m) then Some (sn_runtime m) else None
   | EWorkflow w \<Rightarrow> if decided (wf_runtime w) then Some (wf_runtime w) else None
   | ESub _ \<Rightarrow> None)"

text \<open>\<open>n\<close> is the number of hops still allowed.\<close>

fun runtime_walk :: "run_forest \<Rightarrow> nat \<Rightarrow> run_entry \<Rightarrow> runtime_choice" where
  "runtime_walk f n e = (case runtime_here (en_state e) of
     Some c \<Rightarrow> c
   | None \<Rightarrow> (case n of
       0 \<Rightarrow> RcPending
     | Suc k \<Rightarrow> (case en_parent e of
         None \<Rightarrow> RcPending
       | Some p \<Rightarrow> (case owner_of_agent f p of
           None \<Rightarrow> RcPending
         | Some (_, upper) \<Rightarrow> runtime_walk f k upper))))"

declare runtime_walk.simps [simp del]

definition runtime_from :: "run_forest \<Rightarrow> run_entry \<Rightarrow> runtime_choice" where
  "runtime_from f e = runtime_walk f (length (rf_entries f)) e"

definition runtime_of_agent :: "run_forest \<Rightarrow> uuid \<Rightarrow> runtime_choice" where
  "runtime_of_agent f a = (case owner_of_agent f a of
     None \<Rightarrow> RcPending | Some (_, e) \<Rightarrow> runtime_from f e)"

definition runtime_of_run :: "run_forest \<Rightarrow> run_id \<Rightarrow> runtime_choice" where
  "runtime_of_run f i = (case bt_get (rf_entries f) i of
     Some e \<Rightarrow> runtime_from f e | None \<Rightarrow> RcPending)"

text \<open>The loop of \<open>depth_of_entry\<close>: \<open>None\<close> is the bound being hit, which the code reports as depth 0.\<close>

fun depth_walk :: "run_forest \<Rightarrow> nat \<Rightarrow> uuid option \<Rightarrow> nat option" where
  "depth_walk f n None = Some 0"
| "depth_walk f 0 (Some p) = None"
| "depth_walk f (Suc n) (Some p) = (case owner_of_agent f p of
     None \<Rightarrow> Some 1
   | Some (_, upper) \<Rightarrow> map_option Suc (depth_walk f n (en_parent upper)))"

definition depth_of_entry :: "run_forest \<Rightarrow> run_entry \<Rightarrow> nat" where
  "depth_of_entry f e = (case depth_walk f (length (rf_entries f)) (en_parent e) of Some d \<Rightarrow> d | None \<Rightarrow> 0)"

definition depth_of_agent :: "run_forest \<Rightarrow> uuid \<Rightarrow> nat option" where
  "depth_of_agent f a = map_option (\<lambda>(_, e). depth_of_entry f e) (owner_of_agent f a)"

fun ancestor_walk :: "run_forest \<Rightarrow> nat \<Rightarrow> uuid \<Rightarrow> uuid \<Rightarrow> bool" where
  "ancestor_walk f n ancestor a = (a = ancestor \<or> (case n of
     0 \<Rightarrow> False
   | Suc k \<Rightarrow> (case owner_of_agent f a of
       None \<Rightarrow> False
     | Some (_, e) \<Rightarrow> (case en_parent e of None \<Rightarrow> False | Some p \<Rightarrow> ancestor_walk f k ancestor p))))"

declare ancestor_walk.simps [simp del]

definition descends_from :: "run_forest \<Rightarrow> uuid \<Rightarrow> uuid \<Rightarrow> bool" where
  "descends_from f descendant ancestor = ancestor_walk f (length (rf_entries f) + 1) ancestor descendant"

definition descendant_agents :: "run_forest \<Rightarrow> uuid \<Rightarrow> uuid list" where
  "descendant_agents f a = filter (\<lambda>b. b \<noteq> a \<and> descends_from f b a) (map fst (rf_agents f))"

section \<open>Subagents\<close>

definition apply_sub_spawned ::
    "uuid \<Rightarrow> uuid \<Rightarrow> string \<Rightarrow> string \<Rightarrow> string option \<Rightarrow> u64 \<Rightarrow> run_forest \<Rightarrow> run_forest" where
  "apply_sub_spawned i parent title task agent_type at f =
     host_agent i i (put_entry i \<lparr> en_parent = Some parent, en_created_at_ms = at,
       en_state = ESub \<lparr> su_title = title, su_task = task, su_agent_type = agent_type,
         su_status = SubRunning, su_output = None, su_error = None, su_notified = False,
         su_started_at_ms = at, su_ended_at_ms = 0 \<rparr> \<rparr> f)"

definition apply_sub_running :: "uuid \<Rightarrow> u64 \<Rightarrow> run_forest \<Rightarrow> run_forest" where
  "apply_sub_running i at = sub_mut i (\<lambda>s. s\<lparr> su_status := SubRunning, su_started_at_ms := at, su_ended_at_ms := 0 \<rparr>)"

definition apply_sub_completed :: "uuid \<Rightarrow> string \<Rightarrow> u64 \<Rightarrow> run_forest \<Rightarrow> run_forest" where
  "apply_sub_completed i out at = sub_mut i (\<lambda>s. s\<lparr> su_status := SubCompleted, su_output := Some out,
     su_error := None, su_notified := False, su_ended_at_ms := at \<rparr>)"

definition apply_sub_failed :: "uuid \<Rightarrow> string \<Rightarrow> u64 \<Rightarrow> run_forest \<Rightarrow> run_forest" where
  "apply_sub_failed i err at = sub_mut i (\<lambda>s. s\<lparr> su_status := SubFailed, su_error := Some err,
     su_notified := False, su_ended_at_ms := at \<rparr>)"

definition apply_sub_notified :: "uuid \<Rightarrow> run_forest \<Rightarrow> run_forest" where
  "apply_sub_notified i = sub_mut i (\<lambda>s. s\<lparr> su_notified := True \<rparr>)"

definition sub_of :: "run_forest \<Rightarrow> uuid \<Rightarrow> sub_run option" where
  "sub_of f i = Option.bind (map_option en_state (bt_get (rf_entries f) i)) as_sub"

definition sub_ids :: "run_forest \<Rightarrow> uuid list" where
  "sub_ids f = map fst (subs f)"

definition active_sub_count :: "run_forest \<Rightarrow> nat" where
  "active_sub_count f = length (filter (\<lambda>(_, s). su_status s = SubRunning) (subs f))"

definition has_active_subs :: "run_forest \<Rightarrow> bool" where
  "has_active_subs f \<longleftrightarrow> list_ex (\<lambda>(_, s). su_status s = SubRunning) (subs f)"

definition interrupted_subs :: "run_forest \<Rightarrow> uuid list" where
  "interrupted_subs f = map fst (filter (\<lambda>(_, s). su_status s = SubRunning) (subs f))"

section \<open>Turns\<close>

definition apply_turn_began :: "uuid \<Rightarrow> run_forest \<Rightarrow> run_forest" where
  "apply_turn_began a = main_mut a (\<lambda>m. m\<lparr> mr_turn := PhRunning \<rparr>)"

definition apply_turn_idle :: "uuid \<Rightarrow> run_forest \<Rightarrow> run_forest" where
  "apply_turn_idle a = main_mut a (\<lambda>m. m\<lparr> mr_turn := PhIdle \<rparr>)"

definition apply_turn_failed :: "uuid \<Rightarrow> string \<Rightarrow> run_forest \<Rightarrow> run_forest" where
  "apply_turn_failed a err = main_mut a (\<lambda>m. m\<lparr> mr_turn := PhFailed err \<rparr>)"

definition apply_asked :: "uuid \<Rightarrow> run_forest \<Rightarrow> run_forest" where
  "apply_asked a f = (case bt_get (rf_agents f) a of
     None \<Rightarrow> f
   | Some i \<Rightarrow> on_entry i (\<lambda>s. case s of
         EMain m \<Rightarrow> EMain (m\<lparr> mr_turn := PhAwaitingInput \<rparr>)
       | EWorkflow w \<Rightarrow> EWorkflow (w\<lparr> wf_run := run_awaiting (wf_run w) \<rparr>)
       | _ \<Rightarrow> s) f)"

definition main_turn :: "run_forest \<Rightarrow> turn_phase option" where
  "main_turn f = (case map_option en_state (root_entry f) of Some (EMain m) \<Rightarrow> Some (mr_turn m) | _ \<Rightarrow> None)"

definition root_runtime_id :: "run_forest \<Rightarrow> runtime_id option" where
  "root_runtime_id f = (case map_option en_state (root_entry f) of
     Some (EMain m) \<Rightarrow> (case mr_runtime m of RcOn i \<Rightarrow> Some i | _ \<Rightarrow> None)
   | Some (EWorkflow w) \<Rightarrow> (case wf_runtime w of RcOn i \<Rightarrow> Some i | _ \<Rightarrow> None)
   | _ \<Rightarrow> None)"

definition point_at_runtime :: "uuid \<Rightarrow> runtime_choice \<Rightarrow> run_forest \<Rightarrow> run_forest" where
  "point_at_runtime owner rt = on_entry owner (\<lambda>s. case s of
     EMain m \<Rightarrow> EMain (m\<lparr> mr_runtime := rt \<rparr>)
   | ESubSession m \<Rightarrow> ESubSession (m\<lparr> sn_runtime := rt \<rparr>)
   | EWorkflow w \<Rightarrow> EWorkflow (w\<lparr> wf_runtime := rt \<rparr>)
   | ESub _ \<Rightarrow> s)"

section \<open>Workflow runs\<close>

definition apply_run_created :: "run_id \<Rightarrow> uuid \<Rightarrow> string \<Rightarrow> run_spec \<Rightarrow> u64 \<Rightarrow> run_forest \<Rightarrow> run_forest" where
  "apply_run_created i parent workflow graph at = put_entry i \<lparr> en_parent = Some parent, en_created_at_ms = at,
     en_state = EWorkflow \<lparr> wf_workflow = workflow, wf_graph = graph, wf_run = run_state_default,
       wf_notified = False, wf_runtime = RcInherit \<rparr> \<rparr>"

definition apply_step_started ::
    "run_id \<Rightarrow> string \<Rightarrow> uuid \<Rightarrow> nat \<Rightarrow> nat option \<Rightarrow> string option \<Rightarrow> string \<Rightarrow> u64 \<Rightarrow> run_forest \<Rightarrow> run_forest" where
  "apply_step_started i step agent attempt from via inp at f =
     host_agent agent i (workflow_mut i (\<lambda>w. w\<lparr> wf_run :=
       run_started step agent attempt from via inp at (wf_run w) \<rparr>) f)"

definition apply_step_concluded :: "run_id \<Rightarrow> nat \<Rightarrow> json \<Rightarrow> u64 \<Rightarrow> run_forest \<Rightarrow> run_forest" where
  "apply_step_concluded i index out at = workflow_mut i (\<lambda>w. w\<lparr> wf_run := run_concluded index out at (wf_run w) \<rparr>)"

definition apply_step_failed :: "run_id \<Rightarrow> nat \<Rightarrow> string \<Rightarrow> u64 \<Rightarrow> run_forest \<Rightarrow> run_forest" where
  "apply_step_failed i index err at = workflow_mut i (\<lambda>w. w\<lparr>
     wf_run := run_failed err (run_step_failed index err at (wf_run w)), wf_notified := False \<rparr>)"

definition apply_step_cancelled :: "run_id \<Rightarrow> nat \<Rightarrow> u64 \<Rightarrow> run_forest \<Rightarrow> run_forest" where
  "apply_step_cancelled i index at = workflow_mut i (\<lambda>w. w\<lparr> wf_run := run_cancelled index at (wf_run w) \<rparr>)"

definition apply_run_finished :: "run_id \<Rightarrow> json \<Rightarrow> run_forest \<Rightarrow> run_forest" where
  "apply_run_finished i out = workflow_mut i (\<lambda>w. w\<lparr> wf_run := run_finished out (wf_run w), wf_notified := False \<rparr>)"

definition apply_run_failed :: "run_id \<Rightarrow> string \<Rightarrow> run_forest \<Rightarrow> run_forest" where
  "apply_run_failed i err = workflow_mut i (\<lambda>w. w\<lparr> wf_run := run_failed err (wf_run w), wf_notified := False \<rparr>)"

definition apply_run_notified :: "run_id \<Rightarrow> run_forest \<Rightarrow> run_forest" where
  "apply_run_notified i = workflow_mut i (\<lambda>w. w\<lparr> wf_notified := True \<rparr>)"

definition workflow_of :: "run_forest \<Rightarrow> run_id \<Rightarrow> workflow_run option" where
  "workflow_of f i = Option.bind (map_option en_state (bt_get (rf_entries f) i)) as_workflow"

definition step_of_agent :: "run_forest \<Rightarrow> uuid \<Rightarrow> (run_id \<times> nat) option" where
  "step_of_agent f a = (case owner_of_agent f a of
     None \<Rightarrow> None
   | Some (i, e) \<Rightarrow> (case en_state e of
       EWorkflow w \<Rightarrow> map_option (Pair i) (index_of_agent (wf_run w) a) | _ \<Rightarrow> None))"

definition live_run_count :: "run_forest \<Rightarrow> nat" where
  "live_run_count f = length (filter (\<lambda>(_, w). \<not> is_terminal (rn_status (wf_run w))) (workflows f))"

definition descendant_entries :: "run_forest \<Rightarrow> uuid \<Rightarrow> run_id list" where
  "descendant_entries f x = map fst (filter (\<lambda>(i, e). i \<noteq> x \<and> (case en_state e of
       EWorkflow _ \<Rightarrow> (case en_parent e of None \<Rightarrow> False | Some p \<Rightarrow> p = x \<or> descends_from f p x)
     | _ \<Rightarrow> descends_from f i x)) (rf_entries f))"

section \<open>Sub sessions\<close>

definition apply_sub_session_created ::
    "uuid \<Rightarrow> uuid \<Rightarrow> nat \<Rightarrow> seed_mode \<Rightarrow> string \<Rightarrow> string \<Rightarrow> u64 \<Rightarrow> runtime_choice \<Rightarrow> run_forest \<Rightarrow> run_forest" where
  "apply_sub_session_created i parent source_seq seed message title at rt f =
     host_agent i i (put_entry i \<lparr> en_parent = Some parent, en_created_at_ms = at,
       en_state = ESubSession \<lparr> sn_source_seq = source_seq, sn_seed = seed, sn_message = message,
         sn_title = title, sn_status = AsProvisioning, sn_last_activity_ms = at, sn_runtime = rt \<rparr> \<rparr> f)"

definition apply_sub_session_seeded :: "uuid \<Rightarrow> run_forest \<Rightarrow> run_forest" where
  "apply_sub_session_seeded i = sub_session_mut i (\<lambda>s.
     if sn_status s = AsProvisioning then s\<lparr> sn_status := AsIdle \<rparr> else s)"

definition apply_sub_session_status :: "uuid \<Rightarrow> agent_status \<Rightarrow> u64 \<Rightarrow> run_forest \<Rightarrow> run_forest" where
  "apply_sub_session_status i st at = sub_session_mut i (\<lambda>s. s\<lparr> sn_status := st, sn_last_activity_ms := at \<rparr>)"

definition sub_session_of :: "run_forest \<Rightarrow> uuid \<Rightarrow> sub_session_run option" where
  "sub_session_of f i = Option.bind (map_option en_state (bt_get (rf_entries f) i)) as_sub_session"

definition sub_session_ids :: "run_forest \<Rightarrow> uuid list" where
  "sub_session_ids f = map fst (sub_sessions f)"

definition has_sub_sessions :: "run_forest \<Rightarrow> bool" where
  "has_sub_sessions f \<longleftrightarrow> sub_sessions f \<noteq> []"

definition seeding_sub_sessions :: "run_forest \<Rightarrow> uuid list" where
  "seeding_sub_sessions f = map fst (filter (\<lambda>(_, s). sn_status s = AsProvisioning) (sub_sessions f))"

definition has_seeding_sub_sessions :: "run_forest \<Rightarrow> bool" where
  "has_seeding_sub_sessions f \<longleftrightarrow> list_ex (\<lambda>(_, s). sn_status s = AsProvisioning) (sub_sessions f)"

section \<open>Deleting an agent\<close>

text \<open>
  The entries under an agent that are its work: subagents it spawned and runs it invoked. A sub session
  under it is nobody's work. A subagent is descended through itself, a run through its steps' agents.
\<close>

definition work_under :: "run_forest \<Rightarrow> uuid \<Rightarrow> (run_id \<times> uuid list) list" where
  "work_under f x = List.map_filter (\<lambda>(i, e).
     if en_parent e \<noteq> Some x then None
     else case en_state e of
         ESub _ \<Rightarrow> Some (i, [i])
       | EWorkflow w \<Rightarrow> Some (i, map se_agent (rn_steps (wf_run w)))
       | _ \<Rightarrow> None) (rf_entries f)"

text \<open>
  The loop that collects the doomed: a stack of agents, its top first. The code's loop ends when the
  stack is empty; \<open>n\<close> bounds its rounds, and \<open>None\<close> is a loop still running after them.
\<close>

fun doom_walk :: "run_forest \<Rightarrow> nat \<Rightarrow> uuid list \<Rightarrow> run_id list \<Rightarrow> run_id list option" where
  "doom_walk f n [] doomed = Some doomed"
| "doom_walk f 0 (x # frontier) doomed = None"
| "doom_walk f (Suc n) (x # frontier) doomed =
     doom_walk f n (rev (concat (map snd (work_under f x))) @ frontier) (doomed @ map fst (work_under f x))"

definition remove_run :: "run_id \<Rightarrow> run_forest \<Rightarrow> run_forest" where
  "remove_run i f = f\<lparr> rf_entries := bt_remove i (rf_entries f),
     rf_agents := bt_retain (\<lambda>_ hosted. hosted \<noteq> i) (bt_remove i (rf_agents f)) \<rparr>"

definition remove_agent :: "uuid \<Rightarrow> run_forest \<Rightarrow> run_forest" where
  "remove_agent a f = f\<lparr> rf_entries := bt_remove a (rf_entries f), rf_agents := bt_remove a (rf_agents f) \<rparr>"

definition deletable :: "run_forest \<Rightarrow> uuid \<Rightarrow> bool" where
  "deletable f a = (case map_option en_state (bt_get (rf_entries f) a) of
     Some (ESub _) \<Rightarrow> True | Some (ESubSession _) \<Rightarrow> True | _ \<Rightarrow> False)"

text \<open>As many rounds as there are agents, and one for the deleted entry, are enough (shown below).\<close>

definition doomed_by :: "run_forest \<Rightarrow> uuid \<Rightarrow> run_id list option" where
  "doomed_by f a = doom_walk f (Suc (length (rf_agents f))) [a] []"

definition apply_agent_deleted :: "uuid \<Rightarrow> run_forest \<Rightarrow> run_forest" where
  "apply_agent_deleted a f =
     (if \<not> deletable f a then f
      else case doomed_by f a of
          Some doomed \<Rightarrow> remove_agent a (fold remove_run doomed f)
        | None \<Rightarrow> f)"

section \<open>Deliveries and reports\<close>

definition opt_text :: "string option \<Rightarrow> string" where
  "opt_text t = (case t of Some s \<Rightarrow> s | None \<Rightarrow> [])"

definition sub_result_part :: "uuid \<Rightarrow> sub_run \<Rightarrow> subagent_result_part" where
  "sub_result_part i s =
     (let (status, body) = (case su_status s of
            SubFailed \<Rightarrow> (''failed'', opt_text (su_error s))
          | _ \<Rightarrow> (''completed'', opt_text (su_output s)))
      in \<lparr> sr_subagent_id = i, sr_title = su_title s, sr_status = status, sr_text = truncate_result body,
           sr_spawned_at_ms = su_started_at_ms s, sr_ended_at_ms = su_ended_at_ms s \<rparr>)"

definition run_result_part :: "(json \<Rightarrow> string) \<Rightarrow> run_id \<Rightarrow> u64 \<Rightarrow> workflow_run \<Rightarrow> subagent_result_part" where
  "run_result_part show_json i created w =
     (let r = wf_run w;
          is_failed = (rn_status r = WrFailed);
          body = (case (rn_error r, rn_output r) of
              (Some err, Some out) \<Rightarrow> if is_failed then err else render_result show_json out
            | (None, Some out) \<Rightarrow> render_result show_json out
            | (Some err, None) \<Rightarrow> err
            | (None, None) \<Rightarrow> [])
      in \<lparr> sr_subagent_id = i, sr_title = ''workflow '' @ wf_workflow w,
           sr_status = (if is_failed then ''failed'' else ''completed''), sr_text = truncate_result body,
           sr_spawned_at_ms = created,
           sr_ended_at_ms = foldl max 0 (List.map_filter se_ended_at_ms (rn_steps r)) \<rparr>)"

definition owed_part :: "(json \<Rightarrow> string) \<Rightarrow> run_id \<Rightarrow> run_entry \<Rightarrow> subagent_result_part option" where
  "owed_part show_json i e = (case en_state e of
     ESub s \<Rightarrow> if su_status s = SubRunning \<or> su_notified s then None else Some (sub_result_part i s)
   | EWorkflow w \<Rightarrow> if \<not> is_terminal (rn_status (wf_run w)) \<or> wf_notified w then None
       else Some (run_result_part show_json i (en_created_at_ms e) w)
   | _ \<Rightarrow> None)"

definition owed :: "(json \<Rightarrow> string) \<Rightarrow> run_forest \<Rightarrow> owed_delivery list" where
  "owed show_json f = List.map_filter (\<lambda>(i, e). case en_parent e of
     None \<Rightarrow> None
   | Some p \<Rightarrow> map_option (\<lambda>part. \<lparr> od_child = i, od_to = p, od_part = part \<rparr>) (owed_part show_json i e)) (rf_entries f)"

definition agent_key_of :: "run_forest \<Rightarrow> uuid \<Rightarrow> agent_key option" where
  "agent_key_of f a = map_option (\<lambda>(_, e). case en_state e of
     EMain _ \<Rightarrow> KeyMain | ESub _ \<Rightarrow> KeySub a | EWorkflow _ \<Rightarrow> KeyStep a | ESubSession _ \<Rightarrow> KeySubSession a)
     (owner_of_agent f a)"

definition owed_deliveries :: "(json \<Rightarrow> string) \<Rightarrow> run_forest \<Rightarrow> agent_action list" where
  "owed_deliveries show_json f = List.map_filter (\<lambda>d.
     map_option (\<lambda>k. DeliverResult \<lparr> dv_to = k, dv_child = od_child d, dv_part = od_part d \<rparr>)
       (agent_key_of f (od_to d))) (owed show_json f)"

definition sub_status_name :: "sub_status \<Rightarrow> string" where
  "sub_status_name s = (case s of SubRunning \<Rightarrow> ''running'' | SubCompleted \<Rightarrow> ''completed'' | SubFailed \<Rightarrow> ''failed'')"

definition run_status_name :: "workflow_run_status \<Rightarrow> string" where
  "run_status_name s = (case s of WrPending \<Rightarrow> ''pending'' | WrRunning \<Rightarrow> ''running'' | WrSuspended \<Rightarrow> ''suspended''
     | WrAwaitingInput \<Rightarrow> ''awaiting input'' | WrFinished \<Rightarrow> ''finished'' | WrFailed \<Rightarrow> ''failed'')"

definition step_status_name :: "step_status \<Rightarrow> string" where
  "step_status_name s = (case s of StRunning \<Rightarrow> ''running'' | StConcluded \<Rightarrow> ''concluded''
     | StFailed \<Rightarrow> ''failed'' | StCancelled \<Rightarrow> ''cancelled'')"

definition dquoted :: "string \<Rightarrow> string" where
  "dquoted s = [quot] @ s @ [quot]"

definition render_run :: "(json \<Rightarrow> string) \<Rightarrow> run_forest \<Rightarrow> run_id \<Rightarrow> string option" where
  "render_run show_json f i = map_option (\<lambda>w.
     (let r = wf_run w in
        ''workflow '' @ dquoted (wf_workflow w) @ '' ('' @ i @ '') '' @ em_dash @ '' '' @ run_status_name (rn_status r)
        @ concat (map (\<lambda>(n, s). [nl] @ show_nat n @ ''. '' @ dquoted (se_step s) @ '' ['' @ step_status_name (se_status s) @ '']'')
            (zip [0 ..< length (rn_steps r)] (rn_steps r)))
        @ (case rn_error r of
             Some err \<Rightarrow> [nl, nl] @ ''error:'' @ [nl] @ truncate_result err
           | None \<Rightarrow> (case rn_output r of
               Some out \<Rightarrow> [nl, nl] @ ''output:'' @ [nl] @ truncate_result (render_result show_json out)
             | None \<Rightarrow> [])))) (workflow_of f i)"

definition render_sub :: "run_forest \<Rightarrow> uuid \<Rightarrow> string option" where
  "render_sub f i = map_option (\<lambda>s.
     ''subagent '' @ dquoted (su_title s) @ '' ('' @ i @ '') '' @ em_dash @ '' '' @ sub_status_name (su_status s)
     @ '', depth '' @ show_nat (case depth_of_agent f i of Some d \<Rightarrow> d | None \<Rightarrow> 0)
     @ (case su_output s of Some out \<Rightarrow> [nl, nl] @ ''output:'' @ [nl] @ truncate_result out | None \<Rightarrow> [])
     @ (case su_error s of Some err \<Rightarrow> [nl, nl] @ ''error:'' @ [nl] @ truncate_result err | None \<Rightarrow> [])) (sub_of f i)"

text \<open>The recursion goes one level down a forest per call; \<open>n\<close> bounds the levels.\<close>

fun render_children :: "run_forest \<Rightarrow> nat \<Rightarrow> uuid \<Rightarrow> nat \<Rightarrow> string" where
  "render_children f 0 x indent = []"
| "render_children f (Suc n) x indent = concat (map (\<lambda>(i, e).
     if en_parent e \<noteq> Some x then []
     else case en_state e of
         ESub s \<Rightarrow> replicate (2 * indent) (CHR '' '') @ ''- '' @ dquoted (su_title s) @ '' ('' @ i @ '') [''
           @ sub_status_name (su_status s) @ '']'' @ [nl] @ render_children f n i (indent + 1)
       | EWorkflow w \<Rightarrow> concat (map (\<lambda>s. render_children f n (se_agent s) indent) (rn_steps (wf_run w)))
       | _ \<Rightarrow> []) (rf_entries f))"

definition render_sub_tree :: "run_forest \<Rightarrow> uuid \<Rightarrow> string" where
  "render_sub_tree f from =
     (let out = render_children f (Suc (length (rf_entries f))) from 0
      in if out = [] then ''No subagents.'' @ [nl] else out)"

end
