(* ===== verification/Forest_Walks.thy ===== *)
theory Forest_Walks
  imports Run_Forest
begin

text \<open>
  The invariant of a session's forest, its preservation by every fold, and what the bounded walks
  compute on a forest that has it: the lineage of an agent, its depth, its descendants and the runtime
  it inherits.
\<close>

section \<open>Well-formed forests\<close>

definition parent_of :: "run_forest \<Rightarrow> uuid \<Rightarrow> uuid option" where
  "parent_of f a = Option.bind (owner_of_agent f a) (\<lambda>(_, e). en_parent e)"

text \<open>The agents an entry hosts: its own, or the agents of its steps.\<close>

definition hosted_by :: "run_id \<Rightarrow> entry_state \<Rightarrow> uuid list" where
  "hosted_by i s = (case s of EWorkflow w \<Rightarrow> map se_agent (rn_steps (wf_run w)) | _ \<Rightarrow> [i])"

definition index_ok :: "run_forest \<Rightarrow> bool" where
  "index_ok f \<longleftrightarrow> (\<forall>a i. bt_get (rf_agents f) a = Some i \<longleftrightarrow>
     (\<exists>e. bt_get (rf_entries f) i = Some e \<and> a \<in> set (hosted_by i (en_state e))))"

definition ranked :: "run_forest \<Rightarrow> (uuid \<Rightarrow> nat) \<Rightarrow> bool" where
  "ranked f rank \<longleftrightarrow> (\<forall>a p. parent_of f a = Some p \<longrightarrow> rank p < rank a)"

text \<open>No entry hosts an agent twice, and the agent of a step has no entry of its own.\<close>

definition hosts_ok :: "run_forest \<Rightarrow> bool" where
  "hosts_ok f \<longleftrightarrow> (\<forall>i e. bt_get (rf_entries f) i = Some e \<longrightarrow> distinct (hosted_by i (en_state e)) \<and>
     (\<forall>a \<in> set (hosted_by i (en_state e)). a = i \<or> bt_get (rf_entries f) a = None))"

definition forest_wf :: "run_forest \<Rightarrow> bool" where
  "forest_wf f \<longleftrightarrow> bt_wf (rf_entries f) \<and> bt_wf (rf_agents f) \<and> index_ok f \<and> hosts_ok f \<and> (\<exists>rank. ranked f rank)"

text \<open>An id nothing in the forest uses.\<close>

definition unused :: "run_forest \<Rightarrow> uuid \<Rightarrow> bool" where
  "unused f a \<longleftrightarrow> bt_get (rf_agents f) a = None \<and> bt_get (rf_entries f) a = None \<and>
     (\<forall>i e. bt_get (rf_entries f) i = Some e \<longrightarrow> en_parent e \<noteq> Some a \<and> a \<notin> set (hosted_by i (en_state e)))"

lemma owner_of_agent_iff:
  "owner_of_agent f a = Some (i, e) \<longleftrightarrow> bt_get (rf_agents f) a = Some i \<and> bt_get (rf_entries f) i = Some e"
  by (auto simp: owner_of_agent_def split: option.splits)

lemma index_okD:
  assumes "index_ok f" "bt_get (rf_agents f) a = Some i"
  obtains e where "bt_get (rf_entries f) i = Some e" "a \<in> set (hosted_by i (en_state e))"
  using assms unfolding index_ok_def by blast

lemma index_okI:
  assumes "index_ok f" "bt_get (rf_entries f) i = Some e" "a \<in> set (hosted_by i (en_state e))"
  shows "bt_get (rf_agents f) a = Some i"
  using assms unfolding index_ok_def by blast

lemma owner_known:
  assumes "index_ok f"
  shows "owner_of_agent f a = None \<longleftrightarrow> bt_get (rf_agents f) a = None"
  using assms by (cases "bt_get (rf_agents f) a") (auto simp: owner_of_agent_def elim: index_okD)

lemma forest_wf_default: "forest_wf forest_default"
  by (auto simp: forest_wf_def forest_default_def bt_wf_def index_ok_def hosts_ok_def ranked_def parent_of_def
      owner_of_agent_def bt_get_def)

lemma hosts_okI:
  assumes "\<And>i e. bt_get (rf_entries f) i = Some e \<Longrightarrow> distinct (hosted_by i (en_state e))"
    and "\<And>i e a. bt_get (rf_entries f) i = Some e \<Longrightarrow> a \<in> set (hosted_by i (en_state e)) \<Longrightarrow> a \<noteq> i \<Longrightarrow> bt_get (rf_entries f) a = None"
  shows "hosts_ok f"
  unfolding hosts_ok_def
proof (intro allI impI conjI ballI)
  fix i e a assume e: "bt_get (rf_entries f) i = Some e" "a \<in> set (hosted_by i (en_state e))"
  show "a = i \<or> bt_get (rf_entries f) a = None" using assms(2) [OF e] by (cases "a = i") simp_all
qed (rule assms(1))

lemma hosts_okD:
  assumes "hosts_ok f" "bt_get (rf_entries f) i = Some e"
  shows "distinct (hosted_by i (en_state e))"
    and "a \<in> set (hosted_by i (en_state e)) \<Longrightarrow> a \<noteq> i \<Longrightarrow> bt_get (rf_entries f) a = None"
  using assms unfolding hosts_ok_def by blast+

subsection \<open>Changing one entry in place\<close>

lemma on_entry_sels [simp]:
  "rf_agents (on_entry i g f) = rf_agents f"
  "rf_root (on_entry i g f) = rf_root f"
  "length (rf_entries (on_entry i g f)) = length (rf_entries f)"
  by (simp_all add: on_entry_def)

lemma on_entry_get: "bt_get (rf_entries (on_entry i g f)) j =
  (if j = i then map_option (\<lambda>e. e\<lparr> en_state := g (en_state e) \<rparr>) (bt_get (rf_entries f) i) else bt_get (rf_entries f) j)"
  by (simp add: on_entry_def bt.get_modify)

lemma on_entry_parent [simp]: "parent_of (on_entry i g f) a = parent_of f a"
  by (cases "bt_get (rf_agents f) a"; cases "bt_get (rf_entries f) (the (bt_get (rf_agents f) a))")
    (auto simp: parent_of_def owner_of_agent_def on_entry_get)

lemma on_entry_wf:
  assumes "forest_wf f" "\<And>s. hosted_by i (g s) = hosted_by i s"
  shows "forest_wf (on_entry i g f)"
proof -
  have "index_ok (on_entry i g f)"
    using assms by (auto simp: forest_wf_def index_ok_def on_entry_get)
  moreover have "hosts_ok (on_entry i g f)"
  proof (rule hosts_okI)
    fix j e assume "bt_get (rf_entries (on_entry i g f)) j = Some e"
    then obtain e0 where e0: "bt_get (rf_entries f) j = Some e0" "hosted_by j (en_state e) = hosted_by j (en_state e0)"
      using assms(2) by (auto simp: on_entry_get split: if_splits)
    have "hosts_ok f" using assms(1) by (simp add: forest_wf_def)
    from hosts_okD [OF this e0(1)] e0(2)
    show "distinct (hosted_by j (en_state e))"
      "\<And>a. a \<in> set (hosted_by j (en_state e)) \<Longrightarrow> a \<noteq> j \<Longrightarrow> bt_get (rf_entries (on_entry i g f)) a = None"
      by (auto simp: on_entry_get)
  qed
  moreover have "bt_wf (rf_entries (on_entry i g f))" using assms(1) by (simp add: forest_wf_def on_entry_def bt.wf_modify)
  ultimately show ?thesis using assms(1) by (simp add: forest_wf_def ranked_def)
qed

lemma hosted_by_keep:
  "hosted_by i (case s of EMain m \<Rightarrow> EMain (gm m) | _ \<Rightarrow> s) = hosted_by i s"
  "hosted_by i (case s of ESub x \<Rightarrow> ESub (gs x) | _ \<Rightarrow> s) = hosted_by i s"
  "hosted_by i (case s of ESubSession y \<Rightarrow> ESubSession (gn y) | _ \<Rightarrow> s) = hosted_by i s"
  by (simp_all add: hosted_by_def split: entry_state.split)

lemma hosted_by_workflow:
  "(\<And>w. map se_agent (rn_steps (wf_run (gw w))) = map se_agent (rn_steps (wf_run w))) \<Longrightarrow>
   hosted_by i (case s of EWorkflow w \<Rightarrow> EWorkflow (gw w) | _ \<Rightarrow> s) = hosted_by i s"
  by (simp add: hosted_by_def split: entry_state.split)

lemma agents_run_simps [simp]:
  "map se_agent (rn_steps (run_concluded index out at r)) = map se_agent (rn_steps r)"
  "map se_agent (rn_steps (run_step_failed index err at r)) = map se_agent (rn_steps r)"
  "map se_agent (rn_steps (run_cancelled index at r)) = map se_agent (rn_steps r)"
  "rn_steps (run_awaiting r) = rn_steps r"
  "rn_steps (run_finished out r) = rn_steps r"
  "rn_steps (run_failed err r) = rn_steps r"
  "rn_steps (run_started step agent attempt from via inp at r) = rn_steps r @
     [\<lparr> se_step = step, se_agent = agent, se_attempt = attempt, se_from = from, se_via = via,
        se_status = StRunning, se_input = inp, se_output = None, se_error = None, se_started_at_ms = at, se_ended_at_ms = None \<rparr>]"
proof -
  have *: "map se_agent (update_at k g xs) = map se_agent xs" if "\<And>x. se_agent (g x) = se_agent x" for k g xs
    using map_update_at [of se_agent g k xs] that by simp
  show "map se_agent (rn_steps (run_concluded index out at r)) = map se_agent (rn_steps r)"
    "map se_agent (rn_steps (run_step_failed index err at r)) = map se_agent (rn_steps r)"
    "map se_agent (rn_steps (run_cancelled index at r)) = map se_agent (rn_steps r)"
    by (simp_all add: run_concluded_def run_step_failed_def run_cancelled_def *)
qed (simp_all add: run_awaiting_def run_finished_def run_failed_def run_started_def)

text \<open>The folds that change one entry without touching who runs under whom.\<close>

lemma in_place_folds_wf:
  assumes "forest_wf f"
  shows "forest_wf (main_mut i gm f)" "forest_wf (sub_mut i gs f)" "forest_wf (sub_session_mut i gn f)"
    "(\<And>w. map se_agent (rn_steps (wf_run (gw w))) = map se_agent (rn_steps (wf_run w))) \<Longrightarrow>
       forest_wf (workflow_mut i gw f)"
  unfolding main_mut_def sub_mut_def sub_session_mut_def workflow_mut_def
  using assms by (auto intro!: on_entry_wf simp: hosted_by_keep hosted_by_workflow)

subsection \<open>Adding an entry\<close>

lemma put_host_get:
  "bt_get (rf_entries (host_agent i j (put_entry k e f))) x = (if x = k then Some e else bt_get (rf_entries f) x)"
  "bt_get (rf_agents (host_agent i j (put_entry k e f))) x = (if x = i then Some j else bt_get (rf_agents f) x)"
  "bt_get (rf_entries (put_entry k e f)) x = (if x = k then Some e else bt_get (rf_entries f) x)"
  "rf_agents (put_entry k e f) = rf_agents f"
  by (simp_all add: put_entry_def host_agent_def bt.get_put)

lemma unused_not_hosted: "index_ok f \<Longrightarrow> unused f i \<Longrightarrow> bt_get (rf_agents f) a = Some j \<Longrightarrow> j \<noteq> i \<and> a \<noteq> i"
  by (auto simp: unused_def index_ok_def)

lemma put_entry_parent:
  assumes "index_ok f" "unused f i"
  shows "parent_of (put_entry i e f) a = parent_of f a"
  using unused_not_hosted [OF assms] by (auto simp: parent_of_def owner_of_agent_def put_host_get split: option.splits)

lemma host_entry_parent:
  assumes "index_ok f" "unused f i"
  shows "parent_of (host_agent i i (put_entry i e f)) a = (if a = i then en_parent e else parent_of f a)"
  using unused_not_hosted [OF assms] by (auto simp: parent_of_def owner_of_agent_def put_host_get split: option.splits)

lemma parent_not_unused: "unused f i \<Longrightarrow> parent_of f a \<noteq> Some i"
  by (auto simp: parent_of_def unused_def owner_of_agent_def bind_eq_Some_conv split: option.splits)

lemma ranked_extend:
  assumes "ranked f rank" "unused f i" "\<And>a. parent_of f' a = (if a = i then p else parent_of f a)" "p \<noteq> Some i"
  shows "ranked f' (rank(i := (case p of Some q \<Rightarrow> Suc (rank q) | None \<Rightarrow> 0)))"
  using assms parent_not_unused [OF assms(2)] unfolding ranked_def by (auto split: if_splits)

lemma add_agent_wf:
  assumes "forest_wf f" "unused f i" "en_parent e \<noteq> Some i" "hosted_by i (en_state e) = [i]"
  shows "forest_wf (host_agent i i (put_entry i e f))"
proof -
  from assms(1) obtain rank where wf: "bt_wf (rf_entries f)" "bt_wf (rf_agents f)" "index_ok f" "ranked f rank" "hosts_ok f"
    by (auto simp: forest_wf_def)
  have "index_ok (host_agent i i (put_entry i e f))"
    unfolding index_ok_def
  proof (intro allI)
    fix a j
    show "bt_get (rf_agents (host_agent i i (put_entry i e f))) a = Some j \<longleftrightarrow>
      (\<exists>e'. bt_get (rf_entries (host_agent i i (put_entry i e f))) j = Some e' \<and> a \<in> set (hosted_by j (en_state e')))"
      using wf(3) assms(2,4) unused_not_hosted [OF wf(3) assms(2)]
      by (cases "a = i"; cases "j = i") (auto simp: put_host_get index_ok_def unused_def)
  qed
  moreover have "hosts_ok (host_agent i i (put_entry i e f))"
    using wf(5) assms(2,4) by (auto simp: hosts_ok_def put_host_get unused_def)
  moreover have "ranked (host_agent i i (put_entry i e f)) (rank(i := (case en_parent e of Some q \<Rightarrow> Suc (rank q) | None \<Rightarrow> 0)))"
    using wf(4) assms(2) host_entry_parent [OF wf(3) assms(2)] assms(3) by (rule ranked_extend)
  ultimately show ?thesis
    using wf by (auto simp: forest_wf_def host_agent_def put_entry_def bt_wf_insert)
qed

lemma add_run_wf:
  assumes "forest_wf f" "unused f i" "hosted_by i (en_state e) = []"
  shows "forest_wf (put_entry i e f)"
proof -
  from assms(1) obtain rank where wf: "bt_wf (rf_entries f)" "bt_wf (rf_agents f)" "index_ok f" "ranked f rank" "hosts_ok f"
    by (auto simp: forest_wf_def)
  have "index_ok (put_entry i e f)"
    unfolding index_ok_def
  proof (intro allI)
    fix a j
    show "bt_get (rf_agents (put_entry i e f)) a = Some j \<longleftrightarrow>
      (\<exists>e'. bt_get (rf_entries (put_entry i e f)) j = Some e' \<and> a \<in> set (hosted_by j (en_state e')))"
      using wf(3) assms(3) unused_not_hosted [OF wf(3) assms(2), of a j]
      by (cases "j = i") (auto simp: put_host_get index_ok_def)
  qed
  moreover have "hosts_ok (put_entry i e f)"
    using wf(5) assms(2,3) by (auto simp: hosts_ok_def put_host_get unused_def)
  moreover have "ranked (put_entry i e f) rank"
    using wf(4) put_entry_parent [OF wf(3) assms(2)] by (simp add: ranked_def)
  ultimately show ?thesis using wf by (auto simp: forest_wf_def put_entry_def bt_wf_insert)
qed

text \<open>A step: the run's entry hosts one more agent.\<close>

lemma step_started_get:
  "bt_get (rf_entries (apply_step_started i step agent attempt from via inp at f)) j =
    (if j = i then map_option (\<lambda>e. e\<lparr> en_state := (case en_state e of
        EWorkflow w \<Rightarrow> EWorkflow (w\<lparr> wf_run := run_started step agent attempt from via inp at (wf_run w) \<rparr>)
      | s \<Rightarrow> s) \<rparr>) (bt_get (rf_entries f) i) else bt_get (rf_entries f) j)"
  "bt_get (rf_agents (apply_step_started i step agent attempt from via inp at f)) a =
    (if a = agent then Some i else bt_get (rf_agents f) a)"
  by (simp_all add: apply_step_started_def host_agent_def workflow_mut_def on_entry_get bt.get_put)
    (simp add: on_entry_def bt.get_modify cong: entry_state.case_cong)

lemma apply_step_started_wf:
  assumes "forest_wf f" "unused f agent" "bt_get (rf_entries f) i = Some e" "en_state e = EWorkflow w"
  shows "forest_wf (apply_step_started i step agent attempt from via inp at f)"
proof -
  let ?f = "apply_step_started i step agent attempt from via inp at f"
  from assms(1) obtain rank where wf: "bt_wf (rf_entries f)" "bt_wf (rf_agents f)" "index_ok f" "ranked f rank" "hosts_ok f"
    by (auto simp: forest_wf_def)
  have not_i: "agent \<noteq> i" using assms(2,3) by (auto simp: unused_def)
  have index: "bt_get (rf_agents ?f) a = Some j \<longleftrightarrow>
      (\<exists>e'. bt_get (rf_entries ?f) j = Some e' \<and> a \<in> set (hosted_by j (en_state e')))" for a j
    using wf(3) assms(2-4) unused_not_hosted [OF wf(3) assms(2)]
    by (cases "a = agent"; cases "j = i") (auto simp: step_started_get index_ok_def unused_def hosted_by_def)
  have parent: "parent_of ?f a = (if a = agent then en_parent e else parent_of f a)" for a
    using assms(3,4) unused_not_hosted [OF wf(3) assms(2)]
    by (auto simp: parent_of_def owner_of_agent_def step_started_get split: option.splits)
  have "en_parent e \<noteq> Some agent" using assms(2,3) by (auto simp: unused_def)
  with wf(4) assms(2) parent have "ranked ?f (rank(agent := (case en_parent e of Some q \<Rightarrow> Suc (rank q) | None \<Rightarrow> 0)))"
    by (rule ranked_extend)
  moreover have "bt_wf (rf_entries ?f)" "bt_wf (rf_agents ?f)"
    using wf(1,2) by (simp_all add: apply_step_started_def host_agent_def workflow_mut_def on_entry_def bt_wf_insert bt.wf_modify)
  moreover have "index_ok ?f" using index by (simp add: index_ok_def)
  moreover have "hosts_ok ?f"
  proof (rule hosts_okI)
    fix j e' assume j: "bt_get (rf_entries ?f) j = Some e'"
    then obtain e0 where e0: "bt_get (rf_entries f) j = Some e0"
      "hosted_by j (en_state e') = hosted_by j (en_state e0) @ (if j = i then [agent] else [])"
      using assms(3,4) by (auto simp: step_started_get hosted_by_def split: if_splits)
    have fresh: "agent \<notin> set (hosted_by j (en_state e0))" "bt_get (rf_entries f) agent = None"
      using assms(2) e0(1) by (auto simp: unused_def)
    show "distinct (hosted_by j (en_state e'))" using hosts_okD(1) [OF wf(5) e0(1)] e0(2) fresh by (cases "j = i") simp_all
    show "bt_get (rf_entries ?f) a = None" if "a \<in> set (hosted_by j (en_state e'))" "a \<noteq> j" for a
      using that hosts_okD(2) [OF wf(5) e0(1), of a] e0 fresh not_i assms(3)
      by (auto simp: step_started_get split: if_splits)
  qed
  ultimately show ?thesis unfolding forest_wf_def by blast
qed

section \<open>The parent relation\<close>

definition up :: "run_forest \<Rightarrow> (uuid \<times> uuid) set" where
  "up f = {(a, p). parent_of f a = Some p}"

lemma up_iff [simp]: "(a, p) \<in> up f \<longleftrightarrow> parent_of f a = Some p"
  by (simp add: up_def)

lemma parent_of_owner: "owner_of_agent f a = Some (i, e) \<Longrightarrow> parent_of f a = en_parent e"
  by (simp add: parent_of_def)

lemma rank_decreases: "ranked f rank \<Longrightarrow> (\<And>i. i < n \<Longrightarrow> parent_of f (g i) = Some (g (Suc i))) \<Longrightarrow> i < j \<Longrightarrow> j \<le> n \<Longrightarrow>
    rank (g j) < rank (g i)"
proof (induction j)
  case (Suc j)
  then have "rank (g (Suc j)) < rank (g j)" by (simp add: ranked_def)
  with Suc show ?case by (cases "i = j") (auto intro: less_trans)
qed simp

text \<open>No chain of parents is longer than the forest has entries: two links of one entry would have one upper end.\<close>

lemma up_bounded:
  assumes "forest_wf f" "(a, b) \<in> up f ^^ n"
  shows "n \<le> length (rf_entries f)"
proof -
  obtain rank where wf: "bt_wf (rf_entries f)" "ranked f rank" using assms(1) by (auto simp: forest_wf_def)
  from assms(2) obtain g where g: "\<And>i. i < n \<Longrightarrow> parent_of f (g i) = Some (g (Suc i))"
    by (auto simp: relpow_fun_conv)
  define own where "own i = fst (the (owner_of_agent f (g i)))" for i
  have own: "\<exists>e. bt_get (rf_entries f) (own i) = Some e \<and> en_parent e = Some (g (Suc i))" if i: "i < n" for i
  proof -
    obtain k e where ke: "owner_of_agent f (g i) = Some (k, e)" "en_parent e = Some (g (Suc i))"
      using g [OF i] by (auto simp: parent_of_def bind_eq_Some_conv)
    then have "own i = k" by (simp add: own_def)
    with ke show ?thesis by (simp add: owner_of_agent_iff)
  qed
  have "inj_on own {..<n}"
  proof (rule linorder_inj_onI)
    fix i j assume ij: "i < j" "i \<in> {..<n}" "j \<in> {..<n}"
    have "rank (g (Suc j)) < rank (g (Suc i))" using rank_decreases [of f rank n g "Suc i" "Suc j"] wf(2) g ij by simp
    then show "own i \<noteq> own j" using own [of i] own [of j] ij by auto
  qed auto
  moreover have "own ` {..<n} \<subseteq> dom (bt_get (rf_entries f))" using own by blast
  ultimately have "n \<le> card (dom (bt_get (rf_entries f)))"
    using card_inj_on_le [of own "{..<n}" "dom (bt_get (rf_entries f))"]
    by (simp add: bt_get_def [abs_def] finite_dom_map_of)
  then show ?thesis using card_dom_bt [OF wf(1)] by simp
qed

lemma relpow_up_Suc: "(a, b) \<in> up f ^^ Suc k \<longleftrightarrow> (\<exists>p. parent_of f a = Some p \<and> (p, b) \<in> up f ^^ k)"
  by (metis relpow_Suc_D2 relpow_Suc_I2 up_iff)

lemma top_exists:
  assumes "forest_wf f"
  obtains d t where "(a, t) \<in> up f ^^ d" "parent_of f t = None" "d \<le> length (rf_entries f)"
proof -
  obtain rank where rank: "ranked f rank" using assms by (auto simp: forest_wf_def)
  have "\<exists>d t. (a, t) \<in> up f ^^ d \<and> parent_of f t = None"
  proof (induction "rank a" arbitrary: a rule: less_induct)
    case less
    show ?case
    proof (cases "parent_of f a")
      case None
      then show ?thesis by (intro exI [of _ 0]) simp
    next
      case (Some p)
      then have "rank p < rank a" using rank by (simp add: ranked_def)
      from less [OF this] obtain d t where "(p, t) \<in> up f ^^ d" "parent_of f t = None" by blast
      with Some have "(a, t) \<in> up f ^^ Suc d" unfolding relpow_up_Suc by blast
      with \<open>parent_of f t = None\<close> show ?thesis by blast
    qed
  qed
  then show ?thesis using that up_bounded [OF assms] by blast
qed

subsection \<open>What the bounded walks compute\<close>

lemma ancestor_walk_step:
  "ancestor_walk f (Suc n) b a \<longleftrightarrow> a = b \<or> (\<exists>p. parent_of f a = Some p \<and> ancestor_walk f n b p)"
  by (subst ancestor_walk.simps) (auto simp: parent_of_def split: option.splits)

lemma ancestor_walk_iff: "ancestor_walk f n b a \<longleftrightarrow> (\<exists>k \<le> n. (a, b) \<in> up f ^^ k)"
proof (induction n arbitrary: a)
  case 0
  show ?case by (simp add: ancestor_walk.simps)
next
  case (Suc n)
  have "(\<exists>k \<le> Suc n. (a, b) \<in> up f ^^ k) \<longleftrightarrow> a = b \<or> (\<exists>k \<le> n. (a, b) \<in> up f ^^ Suc k)"
    by (metis Suc_le_mono le0 not0_implies_Suc relpow_0_E relpow_0_I)
  then show ?case by (auto simp: ancestor_walk_step Suc.IH relpow_up_Suc simp del: relpow.simps)
qed

lemma descends_iff: "forest_wf f \<Longrightarrow> descends_from f d a \<longleftrightarrow> (d, a) \<in> (up f)\<^sup>*"
  unfolding descends_from_def ancestor_walk_iff
  by (metis le_SucI Suc_eq_plus1 relpow_imp_rtrancl rtrancl_imp_relpow up_bounded)

lemma depth_walk_up: "(a, t) \<in> up f ^^ d \<Longrightarrow> parent_of f t = None \<Longrightarrow> d \<le> n \<Longrightarrow> depth_walk f n (parent_of f a) = Some d"
proof (induction d arbitrary: a n)
  case (Suc d)
  from Suc.prems(1) obtain p where p: "parent_of f a = Some p" "(p, t) \<in> up f ^^ d" by (auto simp only: relpow_up_Suc)
  from Suc.prems(3) obtain m where n: "n = Suc m" "d \<le> m" by (cases n) auto
  have "depth_walk f n (Some p) = (case owner_of_agent f p of None \<Rightarrow> Some 1
      | Some _ \<Rightarrow> map_option Suc (depth_walk f m (parent_of f p)))"
    by (auto simp: n parent_of_def split: option.splits)
  moreover have "d = 0" if "owner_of_agent f p = None"
    using that p(2) by (cases d) (auto simp only: relpow_up_Suc, auto simp: parent_of_def)
  ultimately show ?case using Suc.IH [OF p(2) Suc.prems(2) n(2)] p(1) by (auto split: option.splits)
qed simp

lemma depth_of_agent_up:
  assumes "forest_wf f" "owner_of_agent f a = Some (i, e)" "(a, t) \<in> up f ^^ d" "parent_of f t = None"
  shows "depth_of_agent f a = Some d"
  using depth_walk_up [OF assms(3,4) up_bounded [OF assms(1,3)]] assms(2)
  by (simp add: depth_of_agent_def depth_of_entry_def parent_of_owner)

lemma runtime_walk_step:
  "runtime_walk f (Suc n) e = (case runtime_here (en_state e) of Some c \<Rightarrow> c | None \<Rightarrow>
     (case Option.bind (en_parent e) (owner_of_agent f) of None \<Rightarrow> RcPending | Some (_, u) \<Rightarrow> runtime_walk f n u))"
  by (subst runtime_walk.simps) (auto split: option.splits)

lemma runtime_walk_fuel:
  "owner_of_agent f a = Some (i, e) \<Longrightarrow> (a, t) \<in> up f ^^ d \<Longrightarrow> parent_of f t = None \<Longrightarrow> d \<le> n \<Longrightarrow> d \<le> m \<Longrightarrow>
    runtime_walk f n e = runtime_walk f m e"
proof (induction d arbitrary: a i e n m)
  case 0
  then have "en_parent e = None" by (simp add: parent_of_owner)
  then show ?case by (subst (1 2) runtime_walk.simps) (auto split: option.splits nat.splits)
next
  case (Suc d)
  from Suc.prems obtain p where p: "en_parent e = Some p" "(p, t) \<in> up f ^^ d"
    by (auto simp only: relpow_up_Suc parent_of_owner)
  from Suc.prems obtain n' m' where nm: "n = Suc n'" "m = Suc m'" "d \<le> n'" "d \<le> m'" by (cases n; cases m) auto
  show ?case using Suc.IH [OF _ p(2) Suc.prems(3) nm(3,4)] p(1)
    by (auto simp: nm(1,2) runtime_walk_step split: option.splits)
qed

lemma runtime_from_eq:
  assumes "forest_wf f" "owner_of_agent f a = Some (i, e)"
  shows "runtime_from f e = (case runtime_here (en_state e) of Some c \<Rightarrow> c | None \<Rightarrow>
     (case Option.bind (en_parent e) (owner_of_agent f) of None \<Rightarrow> RcPending | Some (_, u) \<Rightarrow> runtime_from f u))"
proof -
  obtain d t where t: "(a, t) \<in> up f ^^ d" "parent_of f t = None" "d \<le> length (rf_entries f)" by (rule top_exists [OF assms(1)])
  have "runtime_from f e = runtime_walk f (Suc (length (rf_entries f))) e"
    unfolding runtime_from_def using runtime_walk_fuel [OF assms(2) t(1,2) t(3), of "Suc (length (rf_entries f))"] t(3) by simp
  then show ?thesis by (simp add: runtime_walk_step runtime_from_def split: option.splits)
qed

end
