(* ===== verification/Forest_Deletion.thy ===== *)
theory Forest_Deletion
  imports Forest_Walks
begin

text \<open>
  Deleting an agent: the loop that collects the work under it ends within its bound, collects exactly
  that work, and what is left of the forest is well formed.
\<close>

section \<open>The work under an agent\<close>

definition work_agents :: "run_forest \<Rightarrow> uuid \<Rightarrow> uuid list" where
  "work_agents f x = concat (map snd (work_under f x))"

definition work_runs :: "run_forest \<Rightarrow> uuid \<Rightarrow> run_id list" where
  "work_runs f x = map fst (work_under f x)"

definition delegates :: "run_forest \<Rightarrow> (uuid \<times> uuid) set" where
  "delegates f = {(x, y). y \<in> set (work_agents f x)}"

text \<open>The runs delegated by an agent, by the agents of those runs, and so on.\<close>

definition delegated_runs :: "run_forest \<Rightarrow> uuid \<Rightarrow> run_id set" where
  "delegated_runs f a = (\<Union>x \<in> (delegates f)\<^sup>* `` {a}. set (work_runs f x))"

definition is_work :: "entry_state \<Rightarrow> bool" where
  "is_work s = (case s of ESub _ \<Rightarrow> True | EWorkflow _ \<Rightarrow> True | _ \<Rightarrow> False)"

lemma mem_map_filter_keys:
  "(k, w) \<in> set (List.map_filter (\<lambda>(k, v). map_option (Pair k) (g k v)) xs) \<longleftrightarrow> (\<exists>v. (k, v) \<in> set xs \<and> g k v = Some w)"
  by (induction xs) (auto simp: map_filter_simps split: option.splits)

lemma work_under_eq: "work_under f x = List.map_filter (\<lambda>(i, e). map_option (Pair i)
    (if en_parent e = Some x \<and> is_work (en_state e) then Some (hosted_by i (en_state e)) else None)) (rf_entries f)"
  unfolding work_under_def by (rule arg_cong2 [of _ _ _ _ List.map_filter])
    (auto simp: is_work_def hosted_by_def fun_eq_iff split: entry_state.splits)

lemma work_under_mem:
  assumes "bt_wf (rf_entries f)"
  shows "(i, ys) \<in> set (work_under f x) \<longleftrightarrow>
    (\<exists>e. bt_get (rf_entries f) i = Some e \<and> en_parent e = Some x \<and> is_work (en_state e) \<and> ys = hosted_by i (en_state e))"
  unfolding work_under_eq mem_map_filter_keys bt_get_iff [OF assms] by (auto split: if_splits)

lemma work_runs_mem:
  assumes "bt_wf (rf_entries f)"
  shows "i \<in> set (work_runs f x) \<longleftrightarrow> (\<exists>e. bt_get (rf_entries f) i = Some e \<and> en_parent e = Some x \<and> is_work (en_state e))"
proof -
  have "i \<in> set (work_runs f x) \<longleftrightarrow> (\<exists>ys. (i, ys) \<in> set (work_under f x))"
    unfolding work_runs_def set_map image_iff by (metis fst_conv prod.collapse)
  then show ?thesis by (simp add: work_under_mem [OF assms])
qed

lemma work_agents_mem:
  assumes "bt_wf (rf_entries f)"
  shows "y \<in> set (work_agents f x) \<longleftrightarrow> (\<exists>i e. bt_get (rf_entries f) i = Some e \<and> en_parent e = Some x \<and>
    is_work (en_state e) \<and> y \<in> set (hosted_by i (en_state e)))"
proof -
  have "y \<in> set (work_agents f x) \<longleftrightarrow> (\<exists>i ys. (i, ys) \<in> set (work_under f x) \<and> y \<in> set ys)"
    unfolding work_agents_def set_concat set_map by (force simp: image_iff)
  then show ?thesis by (auto simp: work_under_mem [OF assms])
qed

lemma work_agents_hosted:
  assumes "forest_wf f" "y \<in> set (work_agents f x)"
  shows "bt_get (rf_agents f) y \<noteq> None" "parent_of f y = Some x"
proof -
  from assms(1) have wf: "bt_wf (rf_entries f)" "index_ok f" by (auto simp: forest_wf_def)
  from assms(2) obtain i e where e: "bt_get (rf_entries f) i = Some e" "en_parent e = Some x" "y \<in> set (hosted_by i (en_state e))"
    by (auto simp: work_agents_mem [OF wf(1)])
  from index_okI [OF wf(2) e(1,3)] have y: "bt_get (rf_agents f) y = Some i" .
  then show "bt_get (rf_agents f) y \<noteq> None" by simp
  from y e show "parent_of f y = Some x" by (simp add: parent_of_def owner_of_agent_def)
qed

lemma distinct_map_filter_keys: "distinct (map fst xs) \<Longrightarrow> distinct (map fst (List.map_filter (\<lambda>(k, v). map_option (Pair k) (g k v)) xs))"
proof (induction xs)
  case (Cons x xs)
  obtain k v where x: "x = (k, v)" by (cases x)
  let ?g = "\<lambda>(k, v). map_option (Pair k) (g k v)"
  have "map fst (List.map_filter ?g (x # xs)) = (if g k v = None then [] else [k]) @ map fst (List.map_filter ?g xs)"
    by (simp add: x map_filter_simps split: option.splits)
  moreover have "k \<notin> set (map fst (List.map_filter ?g xs))"
  proof
    assume "k \<in> set (map fst (List.map_filter ?g xs))"
    then have "k \<in> fst ` set xs" by (force simp: set_map_filter)
    then show False using Cons.prems x by simp
  qed
  ultimately show ?case using Cons by simp
qed (simp add: map_filter_simps)

lemma work_agents_distinct:
  assumes "forest_wf f"
  shows "distinct (work_agents f x)"
proof -
  from assms have wf: "bt_wf (rf_entries f)" "index_ok f" "hosts_ok f" by (auto simp: forest_wf_def)
  have "distinct (concat (map snd ws))" if "distinct (map fst ws)" "set ws \<subseteq> set (work_under f x)" for ws
    using that
  proof (induction ws)
    case (Cons w ws)
    obtain i ys where w: "w = (i, ys)" by (cases w)
    from Cons.prems w obtain e where e: "bt_get (rf_entries f) i = Some e" "ys = hosted_by i (en_state e)"
      by (auto simp: work_under_mem [OF wf(1)])
    have "y \<notin> set zs" if "(j, zs) \<in> set ws" "y \<in> set ys" for j zs y
    proof
      assume "y \<in> set zs"
      from that(1) Cons.prems(2) have "(j, zs) \<in> set (work_under f x)" by auto
      then obtain e' where "bt_get (rf_entries f) j = Some e'" "zs = hosted_by j (en_state e')"
        unfolding work_under_mem [OF wf(1)] by blast
      then have "bt_get (rf_agents f) y = Some j" using index_okI [OF wf(2)] \<open>y \<in> set zs\<close> by blast
      moreover have "bt_get (rf_agents f) y = Some i" using index_okI [OF wf(2) e(1)] that(2) e(2) by blast
      ultimately have "(i, zs) \<in> set ws" using that(1) by simp
      then show False using Cons.prems(1) w by (force simp: image_iff)
    qed
    then show ?case using Cons w hosts_okD(1) [OF wf(3) e(1)] e(2) by fastforce
  qed simp
  moreover have "distinct (map fst (work_under f x))"
    unfolding work_under_eq using bt_wf_distinct [OF wf(1)] by (rule distinct_map_filter_keys)
  ultimately show ?thesis unfolding work_agents_def by blast
qed

section \<open>The loop\<close>

definition walk_inv :: "run_forest \<Rightarrow> (uuid \<Rightarrow> nat) \<Rightarrow> uuid \<Rightarrow> uuid list \<Rightarrow> uuid list \<Rightarrow> bool" where
  "walk_inv f rank a seen frontier \<longleftrightarrow> distinct (seen @ frontier) \<and> a \<in> set (seen @ frontier) \<and>
     set (seen @ frontier) \<subseteq> (delegates f)\<^sup>* `` {a} \<and>
     (\<forall>z \<in> set (seen @ frontier). z \<noteq> a \<longrightarrow> bt_get (rf_agents f) z \<noteq> None \<and> (\<exists>x \<in> set seen. parent_of f z = Some x)) \<and>
     (\<forall>z \<in> set (seen @ frontier). rank a \<le> rank z) \<and>
     (\<forall>z \<in> set seen. set (work_agents f z) \<subseteq> set (seen @ frontier))"

lemma walk_inv_start: "walk_inv f rank a [] [a]"
  by (simp add: walk_inv_def)

lemma walk_inv_step:
  assumes wf: "forest_wf f" "ranked f rank" and inv: "walk_inv f rank a seen (x # frontier)"
  shows "walk_inv f rank a (seen @ [x]) (rev (work_agents f x) @ frontier)"
proof -
  let ?old = "seen @ x # frontier"
  have old: "distinct ?old" "a \<in> set ?old" "set ?old \<subseteq> (delegates f)\<^sup>* `` {a}"
      "\<And>z. z \<in> set ?old \<Longrightarrow> z \<noteq> a \<Longrightarrow> bt_get (rf_agents f) z \<noteq> None \<and> (\<exists>y \<in> set seen. parent_of f z = Some y)"
      "\<And>z. z \<in> set ?old \<Longrightarrow> rank a \<le> rank z"
      "\<And>z. z \<in> set seen \<Longrightarrow> set (work_agents f z) \<subseteq> set ?old"
    using inv unfolding walk_inv_def by blast+
  have x: "x \<in> set ?old" "x \<notin> set seen" using old(1) by auto
  have above: "rank a < rank y" if "y \<in> set (work_agents f x)" for y
    using work_agents_hosted(2) [OF wf(1) that] wf(2) old(5) [OF x(1)] by (auto simp: ranked_def intro: le_less_trans)
  have new: "y \<notin> set ?old" if "y \<in> set (work_agents f x)" for y
    using work_agents_hosted(2) [OF wf(1) that] above [OF that] old(4) [of y] x(2) by fastforce
  have set_new: "set ((seen @ [x]) @ rev (work_agents f x) @ frontier) = set (work_agents f x) \<union> set ?old" by auto
  have "distinct ((seen @ [x]) @ rev (work_agents f x) @ frontier)"
    using old(1) work_agents_distinct [OF wf(1), of x] new by fastforce
  moreover have "set (work_agents f x) \<subseteq> (delegates f)\<^sup>* `` {a}"
    using x(1) old(3) by (auto simp: delegates_def intro: rtrancl_into_rtrancl)
  moreover have "\<forall>z \<in> set (work_agents f x) \<union> set ?old. z \<noteq> a \<longrightarrow>
      bt_get (rf_agents f) z \<noteq> None \<and> (\<exists>y \<in> set (seen @ [x]). parent_of f z = Some y)"
    using work_agents_hosted [OF wf(1)] old(4) by fastforce
  moreover have "\<forall>z \<in> set (work_agents f x) \<union> set ?old. rank a \<le> rank z"
    using above old(5) by (auto intro: less_imp_le)
  moreover have "\<forall>z \<in> set (seen @ [x]). set (work_agents f z) \<subseteq> set (work_agents f x) \<union> set ?old"
    using old(6) by auto
  ultimately show ?thesis unfolding walk_inv_def set_new using old(2,3) by auto
qed

lemma walk_inv_short:
  assumes "forest_wf f" "walk_inv f rank a seen frontier"
  shows "length seen + length frontier \<le> Suc (length (rf_agents f))"
proof -
  have "set (seen @ frontier) \<subseteq> insert a (dom (bt_get (rf_agents f)))"
    using assms(2) by (auto simp: walk_inv_def)
  then have "card (set (seen @ frontier)) \<le> card (insert a (dom (bt_get (rf_agents f))))"
    by (rule card_mono [rotated]) (simp add: bt_get_def [abs_def] finite_dom_map_of)
  also have "\<dots> \<le> Suc (length (rf_agents f))"
    using assms(1) card_insert_le_m1 [of "Suc (length (rf_agents f))" "dom (bt_get (rf_agents f))" a]
    by (simp add: forest_wf_def card_dom_bt)
  finally show ?thesis
    using assms(2) distinct_card [of "seen @ frontier"] unfolding walk_inv_def by simp
qed

lemma doom_walk_ends:
  assumes "forest_wf f" "ranked f rank" "walk_inv f rank a seen frontier" "Suc (length (rf_agents f)) \<le> n + length seen"
  shows "\<exists>all. walk_inv f rank a all [] \<and>
    doom_walk f n frontier (concat (map (work_runs f) seen)) = Some (concat (map (work_runs f) all))"
  using assms(3,4)
proof (induction n arbitrary: seen frontier)
  case 0
  then have "frontier = []" using walk_inv_short [OF assms(1) 0(1)] by (cases frontier) simp_all
  with 0 show ?case by auto
next
  case (Suc n)
  show ?case
  proof (cases frontier)
    case Nil
    with Suc.prems show ?thesis by auto
  next
    case (Cons x rest)
    have "walk_inv f rank a (seen @ [x]) (rev (work_agents f x) @ rest)"
      using walk_inv_step [OF assms(1,2)] Suc.prems(1) Cons by simp
    from Suc.IH [OF this] Suc.prems(2) show ?thesis
      by (simp add: Cons work_agents_def work_runs_def)
  qed
qed

lemma doomed_by_spec:
  assumes "forest_wf f"
  obtains doomed where "doomed_by f a = Some doomed" "set doomed = delegated_runs f a"
proof -
  obtain rank where rank: "ranked f rank" using assms by (auto simp: forest_wf_def)
  obtain seen where seen: "walk_inv f rank a seen []" "doomed_by f a = Some (concat (map (work_runs f) seen))"
    using doom_walk_ends [OF assms rank walk_inv_start, of "Suc (length (rf_agents f))" a] by (auto simp: doomed_by_def)
  have "set seen = (delegates f)\<^sup>* `` {a}"
  proof
    show "set seen \<subseteq> (delegates f)\<^sup>* `` {a}" using seen(1) by (simp add: walk_inv_def)
    show "(delegates f)\<^sup>* `` {a} \<subseteq> set seen"
    proof
      fix y assume "y \<in> (delegates f)\<^sup>* `` {a}"
      then have "(a, y) \<in> (delegates f)\<^sup>*" by simp
      then show "y \<in> set seen"
        by (induction rule: rtrancl_induct) (use seen(1) in \<open>auto simp: walk_inv_def delegates_def\<close>)
    qed
  qed
  then show ?thesis using that [OF seen(2)] by (simp add: delegated_runs_def)
qed

section \<open>What is left\<close>

lemma remove_runs_get:
  assumes "bt_wf (rf_agents f)"
  shows "bt_get (rf_entries (fold remove_run ds f)) = (\<lambda>i. if i \<in> set ds then None else bt_get (rf_entries f) i)"
    and "bt_get (rf_agents (fold remove_run ds f)) = (\<lambda>b. if b \<in> set ds then None else case bt_get (rf_agents f) b of
           Some h \<Rightarrow> if h \<in> set ds then None else Some h | None \<Rightarrow> None)"
    and "rf_root (fold remove_run ds f) = rf_root f"
    and "bt_wf (rf_agents (fold remove_run ds f))"
    and "bt_wf (rf_entries f) \<Longrightarrow> bt_wf (rf_entries (fold remove_run ds f))"
  using assms
proof (induction ds arbitrary: f)
  case Nil
  { case 2 show ?case by (auto split: option.split) }
qed (auto simp: remove_run_def bt.get_del bt_get_retain bt_wf_retain bt.wf_del split: option.splits)

definition removed_runs :: "run_forest \<Rightarrow> uuid \<Rightarrow> run_id set" where
  "removed_runs f a = insert a (delegated_runs f a)"

lemma agent_deleted_get:
  assumes "forest_wf f" "deletable f a"
  shows "bt_get (rf_entries (apply_agent_deleted a f)) = (\<lambda>i. if i \<in> removed_runs f a then None else bt_get (rf_entries f) i)"
    and "bt_get (rf_agents (apply_agent_deleted a f)) = (\<lambda>b. case bt_get (rf_agents f) b of
           Some h \<Rightarrow> if h \<in> removed_runs f a then None else Some h | None \<Rightarrow> None)"
    and "rf_root (apply_agent_deleted a f) = rf_root f"
    and "bt_wf (rf_entries (apply_agent_deleted a f))"
    and "bt_wf (rf_agents (apply_agent_deleted a f))"
proof -
  obtain doomed where d: "doomed_by f a = Some doomed" "set doomed = delegated_runs f a" by (rule doomed_by_spec [OF assms(1)])
  have wf: "bt_wf (rf_entries f)" "bt_wf (rf_agents f)" "index_ok f" "hosts_ok f" using assms(1) by (auto simp: forest_wf_def)
  have eq: "apply_agent_deleted a f = remove_agent a (fold remove_run doomed f)"
    using assms(2) d(1) by (simp add: apply_agent_deleted_def)
  show "bt_get (rf_entries (apply_agent_deleted a f)) = (\<lambda>i. if i \<in> removed_runs f a then None else bt_get (rf_entries f) i)"
    "rf_root (apply_agent_deleted a f) = rf_root f"
    "bt_wf (rf_entries (apply_agent_deleted a f))" "bt_wf (rf_agents (apply_agent_deleted a f))"
    using wf(1,2) by (auto simp: eq remove_agent_def bt.get_del bt.wf_del remove_runs_get d(2) removed_runs_def)
  show "bt_get (rf_agents (apply_agent_deleted a f)) = (\<lambda>b. case bt_get (rf_agents f) b of
           Some h \<Rightarrow> if h \<in> removed_runs f a then None else Some h | None \<Rightarrow> None)"
  proof
    fix b
    have del: "bt_get (rf_entries f) x \<noteq> None" if "x \<in> removed_runs f a" for x
      using that assms(2) work_runs_mem [OF wf(1)]
      by (auto simp: removed_runs_def delegated_runs_def deletable_def split: option.splits)
    have own: "h = b" if "b \<in> removed_runs f a" "bt_get (rf_agents f) b = Some h" for h
      using del [OF that(1)] that(2) index_okD [OF wf(3) that(2)] hosts_okD(2) [OF wf(4)] by metis
    have "hosted_by a (en_state e) = [a]" if "bt_get (rf_entries f) a = Some e" for e
      using assms(2) that by (auto simp: deletable_def hosted_by_def split: entry_state.splits)
    then have only: "b = a" if "bt_get (rf_agents f) b = Some a" using index_okD [OF wf(3) that] by auto
    show "bt_get (rf_agents (apply_agent_deleted a f)) b = (case bt_get (rf_agents f) b of
           Some h \<Rightarrow> if h \<in> removed_runs f a then None else Some h | None \<Rightarrow> None)"
      using own only wf(2) by (auto simp: eq remove_agent_def bt.get_del remove_runs_get d(2) removed_runs_def split: option.splits)
  qed
qed

lemma apply_agent_deleted_wf:
  assumes "forest_wf f"
  shows "forest_wf (apply_agent_deleted a f)"
proof (cases "deletable f a")
  case True
  let ?f = "apply_agent_deleted a f"
  obtain rank where wf: "bt_wf (rf_entries f)" "bt_wf (rf_agents f)" "index_ok f" "hosts_ok f" "ranked f rank"
    using assms by (auto simp: forest_wf_def)
  note get = agent_deleted_get [OF assms True]
  have index: "bt_get (rf_agents ?f) b = Some h \<longleftrightarrow>
      (\<exists>e. bt_get (rf_entries ?f) h = Some e \<and> b \<in> set (hosted_by h (en_state e)))" for b h
  proof -
    have "bt_get (rf_agents ?f) b = Some h \<longleftrightarrow> bt_get (rf_agents f) b = Some h \<and> h \<notin> removed_runs f a"
      unfolding get(2) by (auto split: option.splits)
    also have "\<dots> \<longleftrightarrow> (\<exists>e. bt_get (rf_entries f) h = Some e \<and> b \<in> set (hosted_by h (en_state e))) \<and> h \<notin> removed_runs f a"
      using wf(3) unfolding index_ok_def by blast
    finally show ?thesis unfolding get(1) by auto
  qed
  have parent: "parent_of ?f b = Some p \<Longrightarrow> parent_of f b = Some p" for b p
    unfolding parent_of_def owner_of_agent_def get(1,2) by (auto split: option.splits if_splits)
  have "index_ok ?f" using index by (simp add: index_ok_def)
  moreover have "hosts_ok ?f"
    using hosts_okD [OF wf(4)] by (intro hosts_okI) (auto simp: get(1) split: if_splits)
  moreover have "ranked ?f rank" using parent wf(5) by (simp add: ranked_def)
  ultimately show ?thesis using get(4,5) unfolding forest_wf_def by blast
qed (use assms in \<open>simp add: apply_agent_deleted_def\<close>)

end
