(* ===== verification/Session_State.thy ===== *)
theory Session_State
  imports Forest_Deletion Agent_Actor
begin

text \<open>
  A session's durable state (\<^verbatim>\<open>crates/server/src/sessions/session_actor/types.rs\<close>, \<^verbatim>\<open>sessions/spec.rs\<close>): what
  a session is, the events it journals, the folds of its components, and what is read off the folded
  state: where an agent runs, the session's status, and the banked totals. A hash map keyed by agent ids
  is kept as an ordered one; the only iterations over it are sums whose order does not matter.
\<close>

section \<open>What a session is\<close>

record runtime_env =
  re_vendor :: string
  re_workspaces :: "string list"
  re_provision :: "(string \<times> string \<times> (string \<times> string) list) list"
  re_env_vars :: "(string \<times> string) list"
  re_environment :: "string option"

datatype session_origin = OriginUser | OriginRoutine string

datatype session_kind = AgentSession agent_settings | WorkflowSession run_spec

record session_spec =
  sc_kind :: session_kind
  sc_runtime :: "runtime_env option"
  sc_plugins :: "string list"
  sc_origin :: session_origin

definition spec_vendor :: "session_spec \<Rightarrow> string option" where
  "spec_vendor s = map_option re_vendor (sc_runtime s)"

definition spec_environment :: "session_spec \<Rightarrow> string option" where
  "spec_environment s = Option.bind (sc_runtime s) re_environment"

definition spec_routine :: "session_spec \<Rightarrow> string option" where
  "spec_routine s = (case sc_origin s of OriginUser \<Rightarrow> None | OriginRoutine r \<Rightarrow> Some r)"

definition spec_settings :: "session_spec \<Rightarrow> agent_settings option" where
  "spec_settings s = (case sc_kind s of AgentSession a \<Rightarrow> Some a | WorkflowSession _ \<Rightarrow> None)"

definition spec_workflow_run :: "session_spec \<Rightarrow> run_spec option" where
  "spec_workflow_run s = (case sc_kind s of AgentSession _ \<Rightarrow> None | WorkflowSession r \<Rightarrow> Some r)"

definition spec_workflow_name :: "session_spec \<Rightarrow> string option" where
  "spec_workflow_name s = map_option rs_workflow (spec_workflow_run s)"

definition is_unattended :: "session_spec \<Rightarrow> bool" where
  "is_unattended s \<longleftrightarrow> spec_routine s \<noteq> None"

definition max_subagents :: "agent_settings \<Rightarrow> u32" where
  "max_subagents s = (case as_max_concurrent_subagents s of
     Some n \<Rightarrow> n | None \<Rightarrow> DEFAULT_MAX_CONCURRENT_SUBAGENTS)"

datatype session_status =
    StatProvisioning
  | StatIdle
  | StatRunning
  | StatFinished
  | StatAwaitingInput
  | StatFailed string
  | StatProvisioningFailed string
  | StatUnrecoverable string

datatype status_kind = SkProvisioning | SkIdle | SkRunning | SkAwaitingInput | SkFinished | SkFailed | SkUnrecoverable

definition kind_of_status :: "session_status \<Rightarrow> status_kind" where
  "kind_of_status s = (case s of
     StatProvisioning \<Rightarrow> SkProvisioning
   | StatIdle \<Rightarrow> SkIdle
   | StatRunning \<Rightarrow> SkRunning
   | StatAwaitingInput \<Rightarrow> SkAwaitingInput
   | StatFinished \<Rightarrow> SkFinished
   | StatFailed _ \<Rightarrow> SkFailed
   | StatProvisioningFailed _ \<Rightarrow> SkFailed
   | StatUnrecoverable _ \<Rightarrow> SkUnrecoverable)"

definition status_reason :: "session_status \<Rightarrow> string option" where
  "status_reason s = (case s of
     StatUnrecoverable r \<Rightarrow> Some r
   | StatFailed r \<Rightarrow> Some r
   | StatProvisioningFailed r \<Rightarrow> Some r
   | _ \<Rightarrow> None)"

section \<open>The state\<close>

datatype provisioning_state =
    ProvNever
  | ProvInFlight u64
  | ProvReady u64
  | ProvFailed u64 string

definition prov_at_ms :: "provisioning_state \<Rightarrow> u64 option" where
  "prov_at_ms p = (case p of
     ProvNever \<Rightarrow> None | ProvInFlight at \<Rightarrow> Some at | ProvReady at \<Rightarrow> Some at | ProvFailed at _ \<Rightarrow> Some at)"

record runtime_record =
  rt_env :: runtime_env
  rt_owner :: uuid
  rt_provisioning :: provisioning_state

datatype agent_runtime = RunsOn runtime_id runtime_record | RunsWithout | RunsPending

record session_state =
  ses_spec :: "session_spec option"
  ses_fatal :: "string option"
  ses_runtimes :: "runtime_record btree"
  ses_usage :: "usage_total btree"
  ses_context_tokens :: "u32 btree"
  ses_efficiency :: "efficiency_stats btree"
  ses_forest :: run_forest

definition session_default :: session_state where
  "session_default = \<lparr> ses_spec = None, ses_fatal = None, ses_runtimes = [], ses_usage = [],
     ses_context_tokens = [], ses_efficiency = [], ses_forest = forest_default \<rparr>"

section \<open>Events\<close>

datatype session_event =
    SpecRecorded u64 uuid session_spec
  | SRenamed string
  | ProvisioningStarted u64 runtime_id
  | RuntimeRequested u64 runtime_id uuid runtime_env
  | ProvisioningProgress u64 runtime_id string
  | ProvisioningSucceeded u64 runtime_id
  | ProvisioningFailed u64 runtime_id string bool
  | STurnBegan u64 uuid
  | SAskRecorded u64 uuid
  | STurnEnded u64 uuid
  | STurnFailed u64 uuid string
  | STurnStopped u64 uuid
  | STurnInterrupted u64 uuid
  | SessionFailed u64 string
  | AgentDeleted u64 uuid
  | SUsageRecorded u64 string usage_total u32 efficiency_stats
  | SubAgentSpawned u64 uuid uuid string string "string option"
  | SubAgentRunning u64 uuid
  | SubAgentCompleted u64 uuid string
  | SubAgentFailed u64 uuid string
  | SubAgentNotified u64 uuid
  | RunCreated u64 uuid uuid run_spec
  | StepStarted u64 uuid nat string uuid nat "nat option" "string option" string
  | StepConcluded u64 uuid nat json
  | StepFailed u64 uuid nat string
  | StepCancelled u64 uuid nat
  | SRunFinished u64 uuid json
  | RunFailed u64 uuid string
  | RunNotified u64 uuid
  | SubSessionCreated u64 uuid uuid nat seed_mode string string runtime_choice
  | SubSessionSeeded u64 uuid
  | SubSessionStatusChanged u64 uuid agent_status
  | SubSessionTurnEnded u64 uuid turn_outcome

section \<open>The components' folds\<close>

definition on_forest :: "(run_forest \<Rightarrow> run_forest) \<Rightarrow> session_state \<Rightarrow> session_state" where
  "on_forest g s = s\<lparr> ses_forest := g (ses_forest s) \<rparr>"

definition on_runtime :: "runtime_id \<Rightarrow> (runtime_record \<Rightarrow> runtime_record) \<Rightarrow> session_state \<Rightarrow> session_state" where
  "on_runtime r g s = s\<lparr> ses_runtimes := bt_update r g (ses_runtimes s) \<rparr>"

definition prov_at_or_zero :: "runtime_record \<Rightarrow> u64" where
  "prov_at_or_zero rec = (case prov_at_ms (rt_provisioning rec) of Some at \<Rightarrow> at | None \<Rightarrow> 0)"

text \<open>
  Each component folds its own events. The last branch of a fold is unreachable in the code: \<open>session_apply\<close>
  below hands a component its own events only.
\<close>

definition lifecycle_apply :: "session_event \<Rightarrow> session_state \<Rightarrow> session_state" where
  "lifecycle_apply ev s = (case ev of
     RuntimeRequested _ r owner env \<Rightarrow>
       on_forest (point_at_runtime owner (RcOn r))
         (s\<lparr> ses_runtimes := bt_insert r \<lparr> rt_env = env, rt_owner = owner, rt_provisioning = ProvNever \<rparr> (ses_runtimes s) \<rparr>)
   | ProvisioningStarted at r \<Rightarrow> on_runtime r (\<lambda>rec. rec\<lparr> rt_provisioning := ProvInFlight at \<rparr>) s
   | ProvisioningProgress _ _ _ \<Rightarrow> s
   | ProvisioningSucceeded _ r \<Rightarrow> on_runtime r (\<lambda>rec. rec\<lparr> rt_provisioning := ProvReady (prov_at_or_zero rec) \<rparr>) s
   | ProvisioningFailed _ r err final \<Rightarrow>
       (let s1 = on_runtime r (\<lambda>rec. rec\<lparr> rt_provisioning := ProvFailed (prov_at_or_zero rec) err \<rparr>) s
        in if final then s1\<lparr> ses_fatal := Some err \<rparr> else s1)
   | _ \<Rightarrow> s)"

definition turns_apply :: "session_event \<Rightarrow> session_state \<Rightarrow> session_state" where
  "turns_apply ev s = (case ev of
     STurnBegan _ a \<Rightarrow> on_forest (apply_turn_began a) s
   | SAskRecorded _ a \<Rightarrow> on_forest (apply_asked a) s
   | STurnEnded _ a \<Rightarrow> on_forest (apply_turn_idle a) s
   | STurnStopped _ a \<Rightarrow> on_forest (apply_turn_idle a) s
   | STurnInterrupted _ a \<Rightarrow> on_forest (apply_turn_idle a) s
   | STurnFailed _ a err \<Rightarrow> on_forest (apply_turn_failed a err) s
   | SessionFailed _ reason \<Rightarrow> s\<lparr> ses_fatal := Some reason \<rparr>
   | _ \<Rightarrow> s)"

definition runs_apply :: "session_event \<Rightarrow> session_state \<Rightarrow> session_state" where
  "runs_apply ev s = (case ev of
     RunCreated at i parent graph \<Rightarrow> on_forest (apply_run_created i parent (rs_workflow graph) graph at) s
   | StepStarted at run _ step agent attempt from via inp \<Rightarrow>
       on_forest (apply_step_started run step agent attempt from via inp at) s
   | StepConcluded at run index out \<Rightarrow> on_forest (apply_step_concluded run index out at) s
   | StepFailed at run index err \<Rightarrow> on_forest (apply_step_failed run index err at) s
   | StepCancelled at run index \<Rightarrow> on_forest (apply_step_cancelled run index at) s
   | SRunFinished _ run out \<Rightarrow> on_forest (apply_run_finished run out) s
   | RunFailed _ run err \<Rightarrow> on_forest (apply_run_failed run err) s
   | RunNotified _ run \<Rightarrow> on_forest (apply_run_notified run) s
   | _ \<Rightarrow> s)"

definition subs_apply :: "session_event \<Rightarrow> session_state \<Rightarrow> session_state" where
  "subs_apply ev s = (case ev of
     SubAgentSpawned at i parent title task agent_type \<Rightarrow>
       on_forest (apply_sub_spawned i parent title task agent_type at) s
   | SubAgentRunning at i \<Rightarrow> on_forest (apply_sub_running i at) s
   | SubAgentCompleted at i out \<Rightarrow> on_forest (apply_sub_completed i out at) s
   | SubAgentFailed at i err \<Rightarrow> on_forest (apply_sub_failed i err at) s
   | SubAgentNotified _ i \<Rightarrow> on_forest (apply_sub_notified i) s
   | _ \<Rightarrow> s)"

definition turn_status :: "turn_outcome \<Rightarrow> agent_status" where
  "turn_status outc = (case outc of
     TurnFailed _ \<Rightarrow> AsFailed | TurnOk \<Rightarrow> AsIdle | TurnStopped \<Rightarrow> AsIdle | TurnInterrupted \<Rightarrow> AsIdle)"

definition sub_sessions_apply :: "session_event \<Rightarrow> session_state \<Rightarrow> session_state" where
  "sub_sessions_apply ev s = (case ev of
     SubSessionCreated at i parent source_seq seed message title rt \<Rightarrow>
       on_forest (apply_sub_session_created i parent source_seq seed message title at rt) s
   | SubSessionSeeded _ i \<Rightarrow> on_forest (apply_sub_session_seeded i) s
   | SubSessionStatusChanged at i st \<Rightarrow> on_forest (apply_sub_session_status i st at) s
   | SubSessionTurnEnded at i out \<Rightarrow> on_forest (apply_sub_session_status i (turn_status out) at) s
   | _ \<Rightarrow> s)"

definition initial_choice :: "session_spec \<Rightarrow> runtime_choice" where
  "initial_choice spec = (case sc_runtime spec of Some _ \<Rightarrow> RcPending | None \<Rightarrow> RcWithout)"

definition core_apply :: "session_event \<Rightarrow> session_state \<Rightarrow> session_state" where
  "core_apply ev s = (case ev of
     AgentDeleted _ i \<Rightarrow> on_forest (apply_agent_deleted i) s
   | SUsageRecorded _ key tot ctx eff \<Rightarrow>
       s\<lparr> ses_usage := bt_insert key tot (ses_usage s),
          ses_context_tokens := bt_insert key ctx (ses_context_tokens s),
          ses_efficiency := bt_insert key eff (ses_efficiency s) \<rparr>
   | SpecRecorded at session spec \<Rightarrow>
       (on_forest (case sc_kind spec of
            AgentSession _ \<Rightarrow> apply_root_agent session at (initial_choice spec)
          | WorkflowSession run \<Rightarrow> apply_root_workflow session (rs_workflow run) run at (initial_choice spec)) s)
       \<lparr> ses_spec := Some spec \<rparr>
   | SRenamed name \<Rightarrow> on_forest (apply_main_titled name) s
   | _ \<Rightarrow> s)"

definition session_apply :: "session_state \<Rightarrow> session_event \<Rightarrow> session_state" where
  "session_apply s ev = (case ev of
     RuntimeRequested _ _ _ _ \<Rightarrow> lifecycle_apply ev s
   | ProvisioningStarted _ _ \<Rightarrow> lifecycle_apply ev s
   | ProvisioningProgress _ _ _ \<Rightarrow> lifecycle_apply ev s
   | ProvisioningSucceeded _ _ \<Rightarrow> lifecycle_apply ev s
   | ProvisioningFailed _ _ _ _ \<Rightarrow> lifecycle_apply ev s
   | STurnBegan _ _ \<Rightarrow> turns_apply ev s
   | SAskRecorded _ _ \<Rightarrow> turns_apply ev s
   | STurnEnded _ _ \<Rightarrow> turns_apply ev s
   | STurnFailed _ _ _ \<Rightarrow> turns_apply ev s
   | STurnStopped _ _ \<Rightarrow> turns_apply ev s
   | STurnInterrupted _ _ \<Rightarrow> turns_apply ev s
   | SessionFailed _ _ \<Rightarrow> turns_apply ev s
   | RunCreated _ _ _ _ \<Rightarrow> runs_apply ev s
   | StepStarted _ _ _ _ _ _ _ _ _ \<Rightarrow> runs_apply ev s
   | StepConcluded _ _ _ _ \<Rightarrow> runs_apply ev s
   | StepFailed _ _ _ _ \<Rightarrow> runs_apply ev s
   | StepCancelled _ _ _ \<Rightarrow> runs_apply ev s
   | SRunFinished _ _ _ \<Rightarrow> runs_apply ev s
   | RunFailed _ _ _ \<Rightarrow> runs_apply ev s
   | RunNotified _ _ \<Rightarrow> runs_apply ev s
   | SubAgentSpawned _ _ _ _ _ _ \<Rightarrow> subs_apply ev s
   | SubAgentRunning _ _ \<Rightarrow> subs_apply ev s
   | SubAgentCompleted _ _ _ \<Rightarrow> subs_apply ev s
   | SubAgentFailed _ _ _ \<Rightarrow> subs_apply ev s
   | SubAgentNotified _ _ \<Rightarrow> subs_apply ev s
   | SubSessionCreated _ _ _ _ _ _ _ _ \<Rightarrow> sub_sessions_apply ev s
   | SubSessionSeeded _ _ \<Rightarrow> sub_sessions_apply ev s
   | SubSessionStatusChanged _ _ _ \<Rightarrow> sub_sessions_apply ev s
   | SubSessionTurnEnded _ _ _ \<Rightarrow> sub_sessions_apply ev s
   | SUsageRecorded _ _ _ _ _ \<Rightarrow> core_apply ev s
   | AgentDeleted _ _ \<Rightarrow> core_apply ev s
   | SpecRecorded _ _ _ \<Rightarrow> core_apply ev s
   | SRenamed _ \<Rightarrow> core_apply ev s)"

definition session_folds :: "session_state \<Rightarrow> session_event list \<Rightarrow> session_state" where
  "session_folds s evs = foldl session_apply s evs"

section \<open>What is read off the state\<close>

definition runtime_of_choice :: "session_state \<Rightarrow> runtime_choice \<Rightarrow> agent_runtime" where
  "runtime_of_choice s c = (case c of
     RcOn r \<Rightarrow> (case bt_get (ses_runtimes s) r of Some rec \<Rightarrow> RunsOn r rec | None \<Rightarrow> RunsPending)
   | RcWithout \<Rightarrow> RunsWithout
   | RcPending \<Rightarrow> RunsPending
   | RcInherit \<Rightarrow> RunsPending)"

definition runtime_for :: "session_state \<Rightarrow> uuid \<Rightarrow> agent_runtime" where
  "runtime_for s a = runtime_of_choice s (runtime_of_agent (ses_forest s) a)"

definition provisioning_for :: "session_state \<Rightarrow> uuid \<Rightarrow> provisioning_state option" where
  "provisioning_for s a = (case runtime_for s a of
     RunsOn _ rec \<Rightarrow> Some (rt_provisioning rec) | RunsWithout \<Rightarrow> None | RunsPending \<Rightarrow> None)"

definition runtimes_owned_by :: "session_state \<Rightarrow> uuid \<Rightarrow> (runtime_id \<times> runtime_record) list" where
  "runtimes_owned_by s owner = filter (\<lambda>(_, rec). rt_owner rec = owner) (ses_runtimes s)"

definition root_runtime :: "session_state \<Rightarrow> runtime_record option" where
  "root_runtime s = Option.bind (root_runtime_id (ses_forest s)) (bt_get (ses_runtimes s))"

definition session_usage_total :: "session_state \<Rightarrow> usage_total" where
  "session_usage_total s = foldl usage_combine usage_total_default (map snd (ses_usage s))"

definition session_efficiency_total :: "session_state \<Rightarrow> efficiency_stats" where
  "session_efficiency_total s = foldl efficiency_combine efficiency_default (map snd (ses_efficiency s))"

record agent_stats =
  an_usage :: usage_total
  an_subtree_usage :: usage_total
  an_context_tokens :: u32
  an_efficiency :: efficiency_stats

definition banked_usage :: "session_state \<Rightarrow> string \<Rightarrow> usage_total" where
  "banked_usage s key = (case bt_get (ses_usage s) key of Some u \<Rightarrow> u | None \<Rightarrow> usage_total_default)"

definition agent_stats_of :: "session_state \<Rightarrow> uuid option \<Rightarrow> string \<Rightarrow> agent_stats" where
  "agent_stats_of s agent key =
     (let usage = banked_usage s key
      in \<lparr> an_usage = usage,
           an_subtree_usage = (case agent of
               Some a \<Rightarrow> foldl (\<lambda>acc b. usage_combine acc (banked_usage s b)) usage (descendant_agents (ses_forest s) a)
             | None \<Rightarrow> usage),
           an_context_tokens = (case bt_get (ses_context_tokens s) key of Some n \<Rightarrow> n | None \<Rightarrow> 0),
           an_efficiency = (case bt_get (ses_efficiency s) key of Some e \<Rightarrow> e | None \<Rightarrow> efficiency_default) \<rparr>)"

text \<open>The status: a terminal failure, then the session's own runtime, then the phase of its root entry.\<close>

definition root_phase :: "run_entry option \<Rightarrow> session_status" where
  "root_phase root = (case map_option en_state root of
     Some (EMain m) \<Rightarrow> (case mr_turn m of
         PhIdle \<Rightarrow> StatIdle | PhRunning \<Rightarrow> StatRunning | PhAwaitingInput \<Rightarrow> StatAwaitingInput
       | PhFailed err \<Rightarrow> StatFailed err)
   | Some (EWorkflow w) \<Rightarrow> (case rn_status (wf_run w) of
         WrPending \<Rightarrow> StatIdle | WrSuspended \<Rightarrow> StatIdle | WrRunning \<Rightarrow> StatRunning
       | WrAwaitingInput \<Rightarrow> StatAwaitingInput | WrFinished \<Rightarrow> StatFinished
       | WrFailed \<Rightarrow> StatFailed (opt_text (rn_error (wf_run w))))
   | Some (ESub _) \<Rightarrow> StatIdle
   | Some (ESubSession _) \<Rightarrow> StatIdle
   | None \<Rightarrow> StatIdle)"

definition session_status_of :: "session_state \<Rightarrow> session_status" where
  "session_status_of s = (case ses_fatal s of
     Some reason \<Rightarrow> StatUnrecoverable reason
   | None \<Rightarrow> (case map_option rt_provisioning (root_runtime s) of
       Some (ProvInFlight _) \<Rightarrow> StatProvisioning
     | Some (ProvFailed _ reason) \<Rightarrow> StatProvisioningFailed reason
     | _ \<Rightarrow> root_phase (root_entry (ses_forest s))))"

definition last_error :: "session_state \<Rightarrow> string option" where
  "last_error s = status_reason (session_status_of s)"

definition run_graph :: "session_state \<Rightarrow> run_id \<Rightarrow> run_spec option" where
  "run_graph s run = map_option wf_graph (workflow_of (ses_forest s) run)"

definition ready_on :: "agent_runtime \<Rightarrow> bool" where
  "ready_on rt = (case rt of
     RunsOn _ rec \<Rightarrow> (case rt_provisioning rec of
         ProvInFlight _ \<Rightarrow> False | ProvFailed _ _ \<Rightarrow> False | ProvNever \<Rightarrow> True | ProvReady _ \<Rightarrow> True)
   | RunsWithout \<Rightarrow> True
   | RunsPending \<Rightarrow> False)"

end
