(* ===== verification/Session_Invariant.thy ===== *)
theory Session_Invariant
  imports Session_State
begin

text \<open>
  The invariant of a session's state and its preservation by every event, given what the handlers see to
  before they journal one: that a minted id is new, that a delegated child is not too deep, that a step is
  one the graph starts. \<open>agent_of\<close> names the agent of a run's step, \<open>j\<close> is the session's id.
\<close>

section \<open>The forest of a session\<close>

definition is_main :: "entry_state \<Rightarrow> bool" where
  "is_main s = (case s of EMain _ \<Rightarrow> True | _ \<Rightarrow> False)"

definition is_workflow :: "entry_state \<Rightarrow> bool" where
  "is_workflow s = (case s of EWorkflow _ \<Rightarrow> True | _ \<Rightarrow> False)"

definition runs_ok :: "(uuid \<Rightarrow> nat \<Rightarrow> uuid) \<Rightarrow> run_forest \<Rightarrow> bool" where
  "runs_ok agent_of f \<longleftrightarrow> (\<forall>i e w. bt_get (rf_entries f) i = Some e \<longrightarrow> en_state e = EWorkflow w \<longrightarrow>
     run_inv agent_of i (wf_graph w) (wf_run w))"

text \<open>No chain of parents above a delegated child is longer than the limit.\<close>

definition shallow :: "run_forest \<Rightarrow> bool" where
  "shallow f \<longleftrightarrow> (\<forall>i e p d t. bt_get (rf_entries f) i = Some e \<longrightarrow> is_work (en_state e) \<longrightarrow> en_parent e = Some p \<longrightarrow>
     (p, t) \<in> up f ^^ d \<longrightarrow> Suc d \<le> MAX_DEPTH)"

text \<open>One root, the session's own; it alone has no parent and it alone may be a main agent.\<close>

definition rooted :: "uuid \<Rightarrow> run_forest \<Rightarrow> bool" where
  "rooted j f \<longleftrightarrow> rf_root f = (if bt_get (rf_entries f) j = None then None else Some j) \<and>
     (\<forall>i e. bt_get (rf_entries f) i = Some e \<longrightarrow> (en_parent e = None \<longleftrightarrow> i = j) \<and>
        (i = j \<longrightarrow> is_main (en_state e) \<or> is_workflow (en_state e)) \<and> (is_main (en_state e) \<longrightarrow> i = j))"

definition forest_inv :: "(uuid \<Rightarrow> nat \<Rightarrow> uuid) \<Rightarrow> uuid \<Rightarrow> run_forest \<Rightarrow> bool" where
  "forest_inv agent_of j f \<longleftrightarrow> forest_wf f \<and> runs_ok agent_of f \<and> shallow f \<and> rooted j f"

lemma forest_invD:
  assumes "forest_inv agent_of j f"
  shows "forest_wf f" "runs_ok agent_of f" "shallow f" "rooted j f"
  using assms by (simp_all add: forest_inv_def)

lemma as_workflow_iff [simp]: "as_workflow s = Some w \<longleftrightarrow> s = EWorkflow w"
  by (cases s) (auto simp: as_workflow_def)

lemma workflow_of_iff: "workflow_of f i = Some w \<longleftrightarrow> (\<exists>e. bt_get (rf_entries f) i = Some e \<and> en_state e = EWorkflow w)"
  by (auto simp: workflow_of_def bind_eq_Some_conv)

lemma runs_okD: "runs_ok agent_of f \<Longrightarrow> workflow_of f i = Some w \<Longrightarrow> run_inv agent_of i (wf_graph w) (wf_run w)"
  by (auto simp: runs_ok_def workflow_of_iff)

lemma rootedD:
  assumes "rooted j f" "bt_get (rf_entries f) i = Some e"
  shows "en_parent e = None \<longleftrightarrow> i = j" "i = j \<Longrightarrow> is_main (en_state e) \<or> is_workflow (en_state e)" "is_main (en_state e) \<Longrightarrow> i = j"
  using assms unfolding rooted_def by blast+

lemma forest_inv_default: "forest_inv agent_of j forest_default"
  using forest_wf_default
  by (simp add: forest_inv_def runs_ok_def shallow_def rooted_def forest_default_def bt_get_def)

subsection \<open>Events that change one entry in place\<close>

definition keeps_entry :: "(uuid \<Rightarrow> nat \<Rightarrow> uuid) \<Rightarrow> run_id \<Rightarrow> entry_state \<Rightarrow> entry_state \<Rightarrow> bool" where
  "keeps_entry agent_of i s s' \<longleftrightarrow> hosted_by i s' = hosted_by i s \<and> is_work s' = is_work s \<and> is_main s' = is_main s \<and>
     is_workflow s' = is_workflow s \<and>
     (\<forall>w'. s' = EWorkflow w' \<longrightarrow> (\<exists>w. s = EWorkflow w \<and>
        (run_inv agent_of i (wf_graph w) (wf_run w) \<longrightarrow> run_inv agent_of i (wf_graph w') (wf_run w'))))"

lemma on_entry_up [simp]: "up (on_entry i h f) = up f"
  by (auto simp: up_def)

lemma on_entry_inv:
  assumes inv: "forest_inv agent_of j f" and h: "\<And>s. keeps_entry agent_of i s (h s)"
  shows "forest_inv agent_of j (on_entry i h f)"
proof -
  note inv' = forest_invD [OF inv]
  have wf: "forest_wf (on_entry i h f)" by (rule on_entry_wf [OF inv'(1)]) (use h in \<open>simp add: keeps_entry_def\<close>)
  have old: "\<exists>e0. bt_get (rf_entries f) k = Some e0 \<and> en_parent e = en_parent e0 \<and> keeps_entry agent_of k (en_state e0) (en_state e)"
    if "bt_get (rf_entries (on_entry i h f)) k = Some e" for k e
    using that h by (auto simp: on_entry_get keeps_entry_def split: if_splits)
  have "runs_ok agent_of (on_entry i h f)"
    unfolding runs_ok_def
  proof (intro allI impI)
    fix k e w assume "bt_get (rf_entries (on_entry i h f)) k = Some e" "en_state e = EWorkflow w"
    then show "run_inv agent_of k (wf_graph w) (wf_run w)"
      using old inv'(2) by (fastforce simp: runs_ok_def keeps_entry_def)
  qed
  moreover have "shallow (on_entry i h f)"
    using inv'(3) old unfolding shallow_def keeps_entry_def on_entry_up by metis
  moreover have "rooted j (on_entry i h f)"
    unfolding rooted_def
  proof (intro conjI allI impI)
    show "rf_root (on_entry i h f) = (if bt_get (rf_entries (on_entry i h f)) j = None then None else Some j)"
      using inv'(4) by (auto simp: rooted_def on_entry_get)
  next
    fix k e assume "bt_get (rf_entries (on_entry i h f)) k = Some e"
    from old [OF this] obtain e0 where e0: "bt_get (rf_entries f) k = Some e0" "en_parent e = en_parent e0"
      "is_main (en_state e) = is_main (en_state e0)" "is_workflow (en_state e) = is_workflow (en_state e0)"
      by (auto simp: keeps_entry_def)
    have "(en_parent e0 = None \<longleftrightarrow> k = j) \<and> (k = j \<longrightarrow> is_main (en_state e0) \<or> is_workflow (en_state e0)) \<and>
        (is_main (en_state e0) \<longrightarrow> k = j)"
      using inv'(4) e0(1) by (simp add: rooted_def)
    then show "en_parent e = None \<longleftrightarrow> k = j" "k = j \<Longrightarrow> is_main (en_state e) \<or> is_workflow (en_state e)"
      "is_main (en_state e) \<Longrightarrow> k = j"
      using e0 by simp_all
  qed
  ultimately show ?thesis using wf by (simp add: forest_inv_def)
qed

lemma keeps_simps [simp]:
  "keeps_entry agent_of i s (case s of EMain m \<Rightarrow> EMain (gm m) | _ \<Rightarrow> s)"
  "keeps_entry agent_of i s (case s of ESub x \<Rightarrow> ESub (gs x) | _ \<Rightarrow> s)"
  "keeps_entry agent_of i s (case s of ESubSession y \<Rightarrow> ESubSession (gn y) | _ \<Rightarrow> s)"
  by (simp_all add: keeps_entry_def hosted_by_def is_work_def is_main_def is_workflow_def split: entry_state.split)

lemma keeps_workflow:
  assumes "\<And>w. map se_agent (rn_steps (wf_run (gw w))) = map se_agent (rn_steps (wf_run w))"
    and "\<And>w. run_inv agent_of i (wf_graph w) (wf_run w) \<Longrightarrow> run_inv agent_of i (wf_graph (gw w)) (wf_run (gw w))"
  shows "keeps_entry agent_of i s (case s of EWorkflow w \<Rightarrow> EWorkflow (gw w) | _ \<Rightarrow> s)"
  using assms by (simp add: keeps_entry_def hosted_by_def is_work_def is_main_def is_workflow_def split: entry_state.split)

text \<open>Everything but a start keeps a run's log what it was.\<close>

lemma run_inv_simps:
  assumes "run_inv agent_of i spec r"
  shows "run_inv agent_of i spec (run_concluded n out at r)"
    "run_inv agent_of i spec (run_failed err (run_step_failed n err at r))"
    "run_inv agent_of i spec (run_cancelled n at r)"
    "run_inv agent_of i spec (run_awaiting r)"
    "run_inv agent_of i spec (run_finished out r)"
    "run_inv agent_of i spec (run_failed err r)"
  using assms
  by (auto simp: run_inv_def intro: order_trans [OF running_steps_le(1)] order_trans [OF running_steps_le(2)]
      order_trans [OF running_steps_le(3)])

text \<open>The folds that change an entry in place.\<close>

lemma in_place_folds_inv:
  assumes inv: "forest_inv agent_of j f"
  shows "forest_inv agent_of j (main_mut i gm f)" "forest_inv agent_of j (sub_mut i gs f)"
    "forest_inv agent_of j (sub_session_mut i gn f)"
    "(\<And>w. map se_agent (rn_steps (wf_run (gw w))) = map se_agent (rn_steps (wf_run w))) \<Longrightarrow>
     (\<And>w. run_inv agent_of i (wf_graph w) (wf_run w) \<Longrightarrow> run_inv agent_of i (wf_graph (gw w)) (wf_run (gw w))) \<Longrightarrow>
       forest_inv agent_of j (workflow_mut i gw f)"
  unfolding main_mut_def sub_mut_def sub_session_mut_def workflow_mut_def
  by (rule on_entry_inv [OF inv], simp | rule on_entry_inv [OF inv], rule keeps_workflow, assumption, assumption)+

lemma apply_asked_inv: "forest_inv agent_of j f \<Longrightarrow> forest_inv agent_of j (apply_asked a f)"
  unfolding apply_asked_def
  by (auto split: option.split intro!: on_entry_inv)
    (auto simp: keeps_entry_def hosted_by_def is_work_def is_main_def is_workflow_def run_inv_simps(4) split: entry_state.split)

lemma point_at_runtime_inv: "forest_inv agent_of j f \<Longrightarrow> forest_inv agent_of j (point_at_runtime owner rt f)"
  unfolding point_at_runtime_def
  by (rule on_entry_inv)
    (auto simp: keeps_entry_def hosted_by_def is_work_def is_main_def is_workflow_def split: entry_state.split)

lemma apply_main_titled_inv: "forest_inv agent_of j f \<Longrightarrow> forest_inv agent_of j (apply_main_titled t f)"
  by (auto simp: apply_main_titled_def in_place_folds_inv split: option.split)

subsection \<open>Events that add an entry\<close>

lemma up_extend:
  assumes "unused f x" "\<And>a. parent_of f' a = (if a = x then q else parent_of f a)"
  shows "p \<noteq> x \<Longrightarrow> (p, t) \<in> up f' ^^ d \<Longrightarrow> (p, t) \<in> up f ^^ d"
proof (induction d arbitrary: p)
  case (Suc d)
  from Suc.prems(2) obtain p' where p': "parent_of f' p = Some p'" "(p', t) \<in> up f' ^^ d"
    by (auto simp only: relpow_up_Suc)
  with assms(2) Suc.prems(1) have "parent_of f p = Some p'" by simp
  moreover from this have "p' \<noteq> x" using parent_not_unused [OF assms(1)] by auto
  ultimately show ?case using Suc.IH [OF _ p'(2)] by (auto simp only: relpow_up_Suc)
qed simp

text \<open>The depth of an agent bounds every chain above it.\<close>

lemma depth_bounds_chains:
  assumes "forest_wf f" "depth_of_agent f p = Some n" "(p, t) \<in> up f ^^ d"
  shows "d \<le> n"
proof -
  obtain m u where top: "(p, u) \<in> up f ^^ m" "parent_of f u = None" "m \<le> length (rf_entries f)"
    by (rule top_exists [OF assms(1)])
  have "d \<le> m" using assms(3) top(1,2)
  proof (induction d arbitrary: p m)
    case (Suc d)
    from Suc.prems(1) obtain p' where p': "parent_of f p = Some p'" "(p', t) \<in> up f ^^ d" by (auto simp only: relpow_up_Suc)
    with Suc.prems(2,3) obtain m' where m': "m = Suc m'" by (cases m) auto
    with Suc.prems(2) p' have "(p', u) \<in> up f ^^ m'" by (auto simp only: relpow_up_Suc)
    with Suc.IH [OF p'(2) _ Suc.prems(3)] m' show ?case by simp
  qed simp
  moreover obtain k e where "owner_of_agent f p = Some (k, e)" using assms(2) by (auto simp: depth_of_agent_def)
  then have "n = m" using depth_of_agent_up [OF assms(1) _ top(1,2)] assms(2) by simp
  ultimately show ?thesis by simp
qed

definition child_ok :: "uuid \<Rightarrow> run_forest \<Rightarrow> uuid \<Rightarrow> run_entry \<Rightarrow> bool" where
  "child_ok j f i e \<longleftrightarrow> unused f i \<and> i \<noteq> j \<and> (\<exists>p. en_parent e = Some p \<and> p \<noteq> i \<and>
     (is_work (en_state e) \<longrightarrow> (\<exists>d. depth_of_agent f p = Some d \<and> d < MAX_DEPTH))) \<and> \<not> is_main (en_state e)"

lemma add_child_inv:
  assumes inv: "forest_inv agent_of j f" and ok: "child_ok j f i e"
    and f': "forest_wf f'" "rf_entries f' = bt_insert i e (rf_entries f)" "rf_root f' = rf_root f"
      "\<And>a. parent_of f' a = (if a = i then q else parent_of f a)"
    and run: "\<And>w. en_state e = EWorkflow w \<Longrightarrow> wf_run w = run_state_default"
  shows "forest_inv agent_of j f'"
proof -
  note inv' = forest_invD [OF inv]
  have get: "bt_get (rf_entries f') k = (if k = i then Some e else bt_get (rf_entries f) k)" for k
    by (simp add: f'(2) bt.get_put)
  obtain p where p: "en_parent e = Some p" "p \<noteq> i" "unused f i" "i \<noteq> j" "\<not> is_main (en_state e)"
    and deep: "is_work (en_state e) \<Longrightarrow> \<exists>d. depth_of_agent f p = Some d \<and> d < MAX_DEPTH"
    using ok by (auto simp: child_ok_def)
  have "runs_ok agent_of f'" using inv'(2) run by (auto simp: runs_ok_def get run_inv_default)
  moreover have "shallow f'"
    unfolding shallow_def
  proof (intro allI impI)
    fix k e' p' d t
    assume k: "bt_get (rf_entries f') k = Some e'" "is_work (en_state e')" "en_parent e' = Some p'" "(p', t) \<in> up f' ^^ d"
    have "p' \<noteq> i" using k(1,3) p(1-3) by (auto simp: get unused_def split: if_splits)
    then have chain: "(p', t) \<in> up f ^^ d" using up_extend [OF p(3) f'(4)] k(4) by blast
    show "Suc d \<le> MAX_DEPTH"
    proof (cases "k = i")
      case True
      with k p(1) get have "p' = p" "is_work (en_state e)" by auto
      then show ?thesis using deep depth_bounds_chains [OF inv'(1) _ chain] by fastforce
    next
      case False
      with k get have "bt_get (rf_entries f) k = Some e'" by simp
      then show ?thesis using inv'(3) k(2,3) chain unfolding shallow_def by blast
    qed
  qed
  moreover have "rooted j f'"
    using inv'(4) p by (auto simp: rooted_def get f'(3))
  ultimately show ?thesis using f'(1) by (simp add: forest_inv_def)
qed

lemma host_child_inv:
  assumes inv: "forest_inv agent_of j f" and ok: "child_ok j f i e" and hosted: "hosted_by i (en_state e) = [i]"
    and run: "\<And>w. en_state e \<noteq> EWorkflow w"
  shows "forest_inv agent_of j (host_agent i i (put_entry i e f))"
proof -
  note inv' = forest_invD [OF inv]
  have i: "unused f i" "en_parent e \<noteq> Some i" using ok by (auto simp: child_ok_def)
  have ix: "index_ok f" using inv'(1) by (simp add: forest_wf_def)
  show ?thesis
    by (rule add_child_inv [OF inv ok add_agent_wf [OF inv'(1) i hosted] _ _ host_entry_parent [OF ix i(1)]])
      (use run in \<open>auto simp: host_agent_def put_entry_def\<close>)
qed

lemma run_child_inv:
  assumes inv: "forest_inv agent_of j f" and ok: "child_ok j f i e"
    and st: "en_state e = EWorkflow w" "wf_run w = run_state_default"
  shows "forest_inv agent_of j (put_entry i e f)"
proof -
  note inv' = forest_invD [OF inv]
  have i: "unused f i" using ok by (auto simp: child_ok_def)
  have ix: "index_ok f" using inv'(1) by (simp add: forest_wf_def)
  have none: "parent_of f i = None" using i by (auto simp: unused_def parent_of_def owner_of_agent_def)
  have parent: "parent_of (put_entry i e f) a = (if a = i then None else parent_of f a)" for a
    using put_entry_parent [OF ix i] none by simp
  show ?thesis
    by (rule add_child_inv [OF inv ok add_run_wf [OF inv'(1) i] _ _ parent])
      (use st in \<open>auto simp: put_entry_def hosted_by_def run_state_default_def\<close>)
qed

text \<open>A step started: the run's entry hosts one more agent, under the run's own parent.\<close>

lemma step_started_inv:
  assumes inv: "forest_inv agent_of j f" and fresh: "unused f agent" "agent \<noteq> j"
    and w: "workflow_of f i = Some w"
    and run: "run_inv agent_of i (wf_graph w) (run_started step agent attempt from via inp at (wf_run w))"
  shows "forest_inv agent_of j (apply_step_started i step agent attempt from via inp at f)"
proof -
  let ?f = "apply_step_started i step agent attempt from via inp at f"
  note inv' = forest_invD [OF inv]
  obtain e where e: "bt_get (rf_entries f) i = Some e" "en_state e = EWorkflow w" using w by (auto simp: workflow_of_iff)
  have wf: "forest_wf ?f" by (rule apply_step_started_wf [OF inv'(1) fresh(1) e])
  have ix: "index_ok f" using inv'(1) by (simp add: forest_wf_def)
  have parent: "parent_of ?f a = (if a = agent then en_parent e else parent_of f a)" for a
    using e unused_not_hosted [OF ix fresh(1)]
    by (auto simp: parent_of_def owner_of_agent_def step_started_get split: option.splits)
  have old: "\<exists>e0. bt_get (rf_entries f) k = Some e0 \<and> en_parent e' = en_parent e0 \<and> is_work (en_state e') = is_work (en_state e0) \<and>
      is_main (en_state e') = is_main (en_state e0) \<and> is_workflow (en_state e') = is_workflow (en_state e0) \<and>
      (\<forall>w'. en_state e' = EWorkflow w' \<longrightarrow> run_inv agent_of k (wf_graph w') (wf_run w'))"
    if "bt_get (rf_entries ?f) k = Some e'" for k e'
    using that e run inv'(2)
    by (auto simp: step_started_get runs_ok_def is_work_def is_main_def is_workflow_def split: if_splits)
  have dom: "bt_get (rf_entries ?f) k = None \<longleftrightarrow> bt_get (rf_entries f) k = None" for k
    by (simp add: step_started_get e(1))
  have "runs_ok agent_of ?f" using old unfolding runs_ok_def by blast
  moreover have "shallow ?f"
    unfolding shallow_def
  proof (intro allI impI)
    fix k e' p d t
    assume k: "bt_get (rf_entries ?f) k = Some e'" "is_work (en_state e')" "en_parent e' = Some p" "(p, t) \<in> up ?f ^^ d"
    from old [OF k(1)] k(2,3) obtain e0 where e0: "bt_get (rf_entries f) k = Some e0" "en_parent e0 = Some p" "is_work (en_state e0)"
      by auto
    have "p \<noteq> agent" using e0(1,2) fresh(1) by (auto simp: unused_def)
    from up_extend [OF fresh(1) parent this k(4)] show "Suc d \<le> MAX_DEPTH"
      using inv'(3) e0 unfolding shallow_def by blast
  qed
  moreover have "rooted j ?f"
    unfolding rooted_def
  proof (intro conjI allI impI)
    show "rf_root ?f = (if bt_get (rf_entries ?f) j = None then None else Some j)"
      using inv'(4) by (simp add: rooted_def dom) (simp add: apply_step_started_def host_agent_def workflow_mut_def)
  next
    fix k e' assume "bt_get (rf_entries ?f) k = Some e'"
    from old [OF this] obtain e0 where e0: "bt_get (rf_entries f) k = Some e0" "en_parent e' = en_parent e0"
      "is_main (en_state e') = is_main (en_state e0)" "is_workflow (en_state e') = is_workflow (en_state e0)" by blast
    have "(en_parent e0 = None \<longleftrightarrow> k = j) \<and> (k = j \<longrightarrow> is_main (en_state e0) \<or> is_workflow (en_state e0)) \<and>
        (is_main (en_state e0) \<longrightarrow> k = j)"
      using inv'(4) e0(1) by (simp add: rooted_def)
    then show "en_parent e' = None \<longleftrightarrow> k = j" "k = j \<Longrightarrow> is_main (en_state e') \<or> is_workflow (en_state e')"
      "is_main (en_state e') \<Longrightarrow> k = j"
      using e0 by simp_all
  qed
  ultimately show ?thesis using wf by (simp add: forest_inv_def)
qed

subsection \<open>A deletion\<close>

lemma relpow_mono_set: "(r :: (uuid \<times> uuid) set) \<subseteq> s \<Longrightarrow> (p, t) \<in> r ^^ d \<Longrightarrow> (p, t) \<in> s ^^ d"
proof (induction d arbitrary: t)
  case (Suc d)
  from Suc.prems(2) obtain q where "(p, q) \<in> r ^^ d" "(q, t) \<in> r" by (rule relpow_Suc_E)
  with Suc show ?case by (intro relpow_Suc_I [of p q]) auto
qed simp

lemma agent_deleted_inv:
  assumes inv: "forest_inv agent_of j f"
  shows "forest_inv agent_of j (apply_agent_deleted a f)"
proof (cases "deletable f a")
  case True
  let ?f = "apply_agent_deleted a f"
  note inv' = forest_invD [OF inv]
  note get = agent_deleted_get [OF inv'(1) True]
  have "up ?f \<subseteq> up f"
    unfolding up_def parent_of_def owner_of_agent_def get(1,2) by (auto split: option.splits if_splits)
  then have chain: "(p, t) \<in> up ?f ^^ d \<Longrightarrow> (p, t) \<in> up f ^^ d" for p t d by (rule relpow_mono_set)
  have ent: "bt_get (rf_entries ?f) k = Some e \<Longrightarrow> bt_get (rf_entries f) k = Some e" for k e
    by (simp add: get(1) split: if_splits)
  have "j \<notin> removed_runs f a"
  proof
    assume "j \<in> removed_runs f a"
    then consider "j = a" | x where "j \<in> set (work_runs f x)" by (auto simp: removed_runs_def delegated_runs_def)
    then show False
    proof cases
      case 1
      with True obtain e where e: "bt_get (rf_entries f) j = Some e" "\<not> is_main (en_state e)" "\<not> is_workflow (en_state e)"
        by (auto simp: deletable_def is_main_def is_workflow_def split: option.splits entry_state.splits)
      with rootedD(2) [OF inv'(4) e(1)] show False by simp
    next
      case 2
      have "bt_wf (rf_entries f)" using inv'(1) by (simp add: forest_wf_def)
      with 2 obtain e where "bt_get (rf_entries f) j = Some e" "en_parent e = Some x" by (auto simp: work_runs_mem)
      with rootedD(1) [OF inv'(4)] show False by fastforce
    qed
  qed
  then have "rooted j ?f" using inv'(4) by (auto simp: rooted_def get(1,3))
  moreover have "shallow ?f" using inv'(3) ent chain unfolding shallow_def by blast
  moreover have "runs_ok agent_of ?f" using inv'(2) ent unfolding runs_ok_def by blast
  ultimately show ?thesis using apply_agent_deleted_wf [OF inv'(1)] by (simp add: forest_inv_def)
qed (use inv in \<open>simp add: apply_agent_deleted_def\<close>)

section \<open>The state of a session\<close>

definition runtime_ref :: "entry_state \<Rightarrow> runtime_id option" where
  "runtime_ref s = (case (case s of EMain m \<Rightarrow> mr_runtime m | EWorkflow w \<Rightarrow> wf_runtime w | ESubSession y \<Rightarrow> sn_runtime y
       | ESub _ \<Rightarrow> RcInherit) of RcOn r \<Rightarrow> Some r | _ \<Rightarrow> None)"

text \<open>Every runtime an entry says it runs on is on record, and on record as that entry's.\<close>

definition pointed :: "session_state \<Rightarrow> bool" where
  "pointed s \<longleftrightarrow> (\<forall>i e r. bt_get (rf_entries (ses_forest s)) i = Some e \<longrightarrow> runtime_ref (en_state e) = Some r \<longrightarrow>
     (\<exists>rec. bt_get (ses_runtimes s) r = Some rec \<and> rt_owner rec = i))"

lemma pointedD:
  assumes "pointed s" "bt_get (rf_entries (ses_forest s)) i = Some e" "runtime_ref (en_state e) = Some r"
  obtains rec where "bt_get (ses_runtimes s) r = Some rec" "rt_owner rec = i"
  using assms unfolding pointed_def by blast

definition session_inv :: "(uuid \<Rightarrow> nat \<Rightarrow> uuid) \<Rightarrow> uuid \<Rightarrow> session_state \<Rightarrow> bool" where
  "session_inv agent_of j s \<longleftrightarrow> forest_inv agent_of j (ses_forest s) \<and> pointed s \<and> bt_wf (ses_runtimes s) \<and>
     (case ses_spec s of
        None \<Rightarrow> ses_forest s = forest_default \<and> ses_runtimes s = []
      | Some _ \<Rightarrow> rf_root (ses_forest s) = Some j)"

lemma session_invD:
  assumes "session_inv agent_of j s"
  shows "forest_inv agent_of j (ses_forest s)" "pointed s" "bt_wf (ses_runtimes s)"
    "ses_spec s = None \<Longrightarrow> ses_forest s = forest_default \<and> ses_runtimes s = []"
    "ses_spec s \<noteq> None \<Longrightarrow> rf_root (ses_forest s) = Some j"
  using assms by (auto simp: session_inv_def split: option.splits)

lemma session_inv_default: "session_inv agent_of j session_default"
proof -
  have "pointed session_default" by (simp add: pointed_def session_default_def forest_default_def bt_get_def)
  then show ?thesis by (simp add: session_inv_def session_default_def forest_inv_default bt_wf_def)
qed

definition new_child :: "session_state \<Rightarrow> uuid \<Rightarrow> uuid \<Rightarrow> bool \<Rightarrow> bool" where
  "new_child s i p delegated \<longleftrightarrow> unused (ses_forest s) i \<and> p \<noteq> i \<and>
     (delegated \<longrightarrow> (\<exists>d. depth_of_agent (ses_forest s) p = Some d \<and> d < MAX_DEPTH))"

text \<open>What a handler has seen to when it journals an event.\<close>

definition sound_event :: "(uuid \<Rightarrow> nat \<Rightarrow> uuid) \<Rightarrow> uuid \<Rightarrow> session_state \<Rightarrow> session_event \<Rightarrow> bool" where
  "sound_event agent_of j s ev \<longleftrightarrow> (case ev of
     SpecRecorded _ k _ \<Rightarrow> k = j \<and> ses_spec s = None
   | SubAgentSpawned _ i p _ _ _ \<Rightarrow> ses_spec s \<noteq> None \<and> new_child s i p True
   | RunCreated _ i p _ \<Rightarrow> ses_spec s \<noteq> None \<and> new_child s i p True
   | SubSessionCreated _ i p _ _ _ _ rt \<Rightarrow> ses_spec s \<noteq> None \<and> new_child s i p False \<and> (\<forall>r. rt \<noteq> RcOn r)
   | StepStarted at run _ step agent attempt from via inp \<Rightarrow> ses_spec s \<noteq> None \<and> unused (ses_forest s) agent \<and>
       (\<exists>w. workflow_of (ses_forest s) run = Some w \<and>
          run_inv agent_of run (wf_graph w) (run_started step agent attempt from via inp at (wf_run w)))
   | RuntimeRequested _ r _ _ \<Rightarrow> ses_spec s \<noteq> None \<and> bt_get (ses_runtimes s) r = None
   | _ \<Rightarrow> ses_spec s \<noteq> None)"

lemma root_present: "rooted j f \<Longrightarrow> rf_root f = Some j \<Longrightarrow> \<exists>e. bt_get (rf_entries f) j = Some e"
  by (auto simp: rooted_def split: if_splits)

text \<open>A change of the forest that moves no pointer and no root.\<close>

lemma on_forest_inv:
  assumes inv: "session_inv agent_of j s" and told: "ses_spec s \<noteq> None"
    and f: "forest_inv agent_of j (h (ses_forest s))" "rf_root (h (ses_forest s)) = rf_root (ses_forest s)"
    and ptr: "\<And>i e r. bt_get (rf_entries (h (ses_forest s))) i = Some e \<Longrightarrow> runtime_ref (en_state e) = Some r \<Longrightarrow>
      \<exists>e0. bt_get (rf_entries (ses_forest s)) i = Some e0 \<and> runtime_ref (en_state e0) = Some r"
  shows "session_inv agent_of j (on_forest h s)"
proof -
  have "pointed (on_forest h s)"
    unfolding pointed_def
  proof (intro allI impI)
    fix i e r assume "bt_get (rf_entries (ses_forest (on_forest h s))) i = Some e" "runtime_ref (en_state e) = Some r"
    then obtain e0 where "bt_get (rf_entries (ses_forest s)) i = Some e0" "runtime_ref (en_state e0) = Some r"
      using ptr [of i e r] by (auto simp: on_forest_def)
    with session_invD(2) [OF inv] show "\<exists>rec. bt_get (ses_runtimes (on_forest h s)) r = Some rec \<and> rt_owner rec = i"
      by (simp add: pointed_def on_forest_def)
  qed
  then show ?thesis using session_invD [OF inv] told f by (auto simp: session_inv_def on_forest_def split: option.splits)
qed

lemma on_entry_ptr:
  assumes "\<And>s. runtime_ref (h s) = runtime_ref s"
  shows "bt_get (rf_entries (on_entry k h f)) i = Some e \<Longrightarrow> runtime_ref (en_state e) = Some r \<Longrightarrow>
    \<exists>e0. bt_get (rf_entries f) i = Some e0 \<and> runtime_ref (en_state e0) = Some r"
  using assms by (auto simp: on_entry_get split: if_splits)

lemma in_place_session_inv:
  assumes inv: "session_inv agent_of j s" and told: "ses_spec s \<noteq> None"
    and h: "\<And>st. keeps_entry agent_of i st (h st)" "\<And>st. runtime_ref (h st) = runtime_ref st"
  shows "session_inv agent_of j (on_forest (on_entry i h) s)"
  by (rule on_forest_inv [OF inv told])
    (use session_invD(1) [OF inv] h in \<open>auto intro: on_entry_inv dest: on_entry_ptr [OF h(2)]\<close>)

lemma runtime_ref_keep [simp]:
  "(\<And>m. mr_runtime (gm m) = mr_runtime m) \<Longrightarrow> runtime_ref (case s of EMain m \<Rightarrow> EMain (gm m) | _ \<Rightarrow> s) = runtime_ref s"
  "runtime_ref (case s of ESub x \<Rightarrow> ESub (gs x) | _ \<Rightarrow> s) = runtime_ref s"
  "(\<And>y. sn_runtime (gn y) = sn_runtime y) \<Longrightarrow> runtime_ref (case s of ESubSession y \<Rightarrow> ESubSession (gn y) | _ \<Rightarrow> s) = runtime_ref s"
  "(\<And>w. wf_runtime (gw w) = wf_runtime w) \<Longrightarrow> runtime_ref (case s of EWorkflow w \<Rightarrow> EWorkflow (gw w) | _ \<Rightarrow> s) = runtime_ref s"
  by (simp_all add: runtime_ref_def split: entry_state.split)

text \<open>The folds of the turns, the children and the runs that change one entry.\<close>

lemma mut_session_inv:
  assumes inv: "session_inv agent_of j s" and told: "ses_spec s \<noteq> None"
  shows "(\<And>m. mr_runtime (gm m) = mr_runtime m) \<Longrightarrow> session_inv agent_of j (on_forest (main_mut i gm) s)"
    "session_inv agent_of j (on_forest (sub_mut i gs) s)"
    "(\<And>y. sn_runtime (gn y) = sn_runtime y) \<Longrightarrow> session_inv agent_of j (on_forest (sub_session_mut i gn) s)"
    "(\<And>w. wf_runtime (gw w) = wf_runtime w) \<Longrightarrow>
     (\<And>w. map se_agent (rn_steps (wf_run (gw w))) = map se_agent (rn_steps (wf_run w))) \<Longrightarrow>
     (\<And>w. run_inv agent_of i (wf_graph w) (wf_run w) \<Longrightarrow> run_inv agent_of i (wf_graph (gw w)) (wf_run (gw w))) \<Longrightarrow>
       session_inv agent_of j (on_forest (workflow_mut i gw) s)"
  unfolding main_mut_def [abs_def] sub_mut_def [abs_def] sub_session_mut_def [abs_def] workflow_mut_def [abs_def]
  by (auto intro!: in_place_session_inv [OF inv told] keeps_workflow)

lemma asked_session_inv:
  assumes "session_inv agent_of j s" "ses_spec s \<noteq> None"
  shows "session_inv agent_of j (on_forest (apply_asked a) s)"
proof (cases "bt_get (rf_agents (ses_forest s)) a")
  case None
  then have "on_forest (apply_asked a) s = s" by (simp add: on_forest_def apply_asked_def)
  with assms show ?thesis by simp
next
  case (Some i)
  then have "on_forest (apply_asked a) s = on_forest (on_entry i (\<lambda>s. case s of
         EMain m \<Rightarrow> EMain (m\<lparr> mr_turn := PhAwaitingInput \<rparr>)
       | EWorkflow w \<Rightarrow> EWorkflow (w\<lparr> wf_run := run_awaiting (wf_run w) \<rparr>) | _ \<Rightarrow> s)) s"
    by (simp add: on_forest_def apply_asked_def)
  then show ?thesis
    by (auto intro!: in_place_session_inv [OF assms] simp: keeps_entry_def hosted_by_def is_work_def is_main_def is_workflow_def
        runtime_ref_def run_inv_simps(4) split: entry_state.split)
qed

lemma titled_session_inv:
  assumes "session_inv agent_of j s" "ses_spec s \<noteq> None"
  shows "session_inv agent_of j (on_forest (apply_main_titled t) s)"
proof -
  have "on_forest (apply_main_titled t) s = on_forest (main_mut j (\<lambda>m. m\<lparr> mr_title := Some t \<rparr>)) s"
    using session_invD(5) [OF assms] by (simp add: on_forest_def apply_main_titled_def)
  then show ?thesis using mut_session_inv(1) [OF assms] by simp
qed



lemma runtime_session_inv:
  assumes "session_inv agent_of j s" "\<And>rec. rt_owner (h rec) = rt_owner rec" "ses_spec s \<noteq> None"
  shows "session_inv agent_of j (on_runtime r h s)"
proof -
  have "pointed (on_runtime r h s)"
    unfolding pointed_def
  proof (intro allI impI)
    fix i e q assume "bt_get (rf_entries (ses_forest (on_runtime r h s))) i = Some e" "runtime_ref (en_state e) = Some q"
    then obtain rec where "bt_get (ses_runtimes s) q = Some rec" "rt_owner rec = i"
      using pointedD [OF session_invD(2) [OF assms(1)], of i e q] by (auto simp: on_runtime_def)
    then show "\<exists>rec. bt_get (ses_runtimes (on_runtime r h s)) q = Some rec \<and> rt_owner rec = i"
      using assms(2) by (cases "q = r") (auto simp: on_runtime_def bt.get_modify)
  qed
  then show ?thesis
    using session_invD [OF assms(1)] assms(3) by (auto simp: session_inv_def on_runtime_def bt.wf_modify split: option.splits)
qed

lemma requested_session_inv:
  assumes inv: "session_inv agent_of j s" and ok: "sound_event agent_of j s (RuntimeRequested at r owner env)"
  shows "session_inv agent_of j (session_apply s (RuntimeRequested at r owner env))"
proof -
  let ?s = "session_apply s (RuntimeRequested at r owner env)"
  have told: "ses_spec s \<noteq> None" and fresh: "bt_get (ses_runtimes s) r = None" using ok by (simp_all add: sound_event_def)
  have st: "ses_forest ?s = point_at_runtime owner (RcOn r) (ses_forest s)" "ses_spec ?s = ses_spec s"
    "ses_runtimes ?s = bt_insert r \<lparr> rt_env = env, rt_owner = owner, rt_provisioning = ProvNever \<rparr> (ses_runtimes s)"
    by (simp_all add: session_apply_def lifecycle_apply_def on_forest_def)
  have "pointed ?s"
    unfolding pointed_def st bt.get_put
  proof (intro allI impI)
    fix i e q
    assume i: "bt_get (rf_entries (point_at_runtime owner (RcOn r) (ses_forest s))) i = Some e" "runtime_ref (en_state e) = Some q"
    show "\<exists>rec. ((bt_get (ses_runtimes s))(r \<mapsto> \<lparr>rt_env = env, rt_owner = owner, rt_provisioning = ProvNever\<rparr>)) q = Some rec \<and> rt_owner rec = i"
    proof (cases "\<exists>e0. bt_get (rf_entries (ses_forest s)) i = Some e0 \<and> runtime_ref (en_state e0) = Some q")
      case True
      then show ?thesis using session_invD(2) [OF inv] fresh by (fastforce simp: pointed_def)
    next
      case False
      with i have "i = owner" "q = r"
        by (auto simp: point_at_runtime_def on_entry_get runtime_ref_def split: if_splits entry_state.splits)
      then show ?thesis by simp
    qed
  qed
  moreover have "rf_root (point_at_runtime owner (RcOn r) (ses_forest s)) = rf_root (ses_forest s)"
    by (simp add: point_at_runtime_def)
  ultimately show ?thesis
    using session_invD [OF inv] told st by (auto simp: session_inv_def bt.wf_put point_at_runtime_inv split: option.splits)
qed

lemma added_ptr:
  assumes "rf_entries f' = bt_insert i e (rf_entries f)" "runtime_ref (en_state e) = None"
  shows "bt_get (rf_entries f') k = Some e' \<Longrightarrow> runtime_ref (en_state e') = Some r \<Longrightarrow>
    \<exists>e0. bt_get (rf_entries f) k = Some e0 \<and> runtime_ref (en_state e0) = Some r"
  using assms by (auto simp: bt.get_put split: if_splits)

lemma new_child_ok:
  assumes inv: "session_inv agent_of j s" "ses_spec s \<noteq> None"
    and new: "new_child s i p (is_work (en_state e))" "en_parent e = Some p" "\<not> is_main (en_state e)"
  shows "child_ok j (ses_forest s) i e"
proof -
  obtain e0 where "bt_get (rf_entries (ses_forest s)) j = Some e0"
    using root_present forest_invD(4) [OF session_invD(1) [OF inv(1)]] session_invD(5) [OF inv] by blast
  then have "i \<noteq> j" using new(1) by (auto simp: new_child_def unused_def)
  then show ?thesis using new by (simp add: child_ok_def new_child_def)
qed

lemma child_session_inv:
  assumes inv: "session_inv agent_of j s" "ses_spec s \<noteq> None"
    and new: "new_child s i p (is_work (en_state e))" "en_parent e = Some p" "\<not> is_main (en_state e)"
    and h: "h = (if is_workflow (en_state e) then put_entry i e else host_agent i i \<circ> put_entry i e)"
    and st: "runtime_ref (en_state e) = None" "\<And>w. en_state e = EWorkflow w \<Longrightarrow> wf_run w = run_state_default"
  shows "session_inv agent_of j (on_forest h s)"
proof (rule on_forest_inv [OF inv])
  note ok = new_child_ok [OF inv new]
  show "forest_inv agent_of j (h (ses_forest s))"
  proof (cases "is_workflow (en_state e)")
    case True
    then obtain w where "en_state e = EWorkflow w" by (auto simp: is_workflow_def split: entry_state.splits)
    with True st(2) h show ?thesis using run_child_inv [OF session_invD(1) [OF inv(1)] ok] by simp
  next
    case False
    then have "hosted_by i (en_state e) = [i]" "\<And>w. en_state e \<noteq> EWorkflow w"
      by (auto simp: is_workflow_def hosted_by_def split: entry_state.splits)
    then show ?thesis using host_child_inv [OF session_invD(1) [OF inv(1)] ok] False h by simp
  qed
  show "rf_root (h (ses_forest s)) = rf_root (ses_forest s)" by (simp add: h put_entry_def host_agent_def)
  have "rf_entries (h (ses_forest s)) = bt_insert i e (rf_entries (ses_forest s))" by (simp add: h put_entry_def host_agent_def)
  from added_ptr [OF this st(1)]
  show "bt_get (rf_entries (h (ses_forest s))) k = Some e' \<Longrightarrow> runtime_ref (en_state e') = Some r \<Longrightarrow>
      \<exists>e0. bt_get (rf_entries (ses_forest s)) k = Some e0 \<and> runtime_ref (en_state e0) = Some r" for k e' r .
qed

lemma step_session_inv:
  assumes inv: "session_inv agent_of j s"
    and ok: "sound_event agent_of j s (StepStarted at run index step agent attempt from via inp)"
  shows "session_inv agent_of j (session_apply s (StepStarted at run index step agent attempt from via inp))"
proof -
  let ?h = "apply_step_started run step agent attempt from via inp at"
  have told: "ses_spec s \<noteq> None" and fresh: "unused (ses_forest s) agent" using ok by (simp_all add: sound_event_def)
  obtain w where w: "workflow_of (ses_forest s) run = Some w"
    "run_inv agent_of run (wf_graph w) (run_started step agent attempt from via inp at (wf_run w))"
    using ok by (auto simp: sound_event_def)
  obtain e0 where "bt_get (rf_entries (ses_forest s)) j = Some e0"
    using root_present forest_invD(4) [OF session_invD(1) [OF inv]] session_invD(5) [OF inv told] by blast
  then have "agent \<noteq> j" using fresh by (auto simp: unused_def)
  then have "forest_inv agent_of j (?h (ses_forest s))" by (rule step_started_inv [OF session_invD(1) [OF inv] fresh _ w])
  moreover have "rf_root (?h (ses_forest s)) = rf_root (ses_forest s)"
    by (simp add: apply_step_started_def host_agent_def workflow_mut_def)
  ultimately have "session_inv agent_of j (on_forest ?h s)"
  proof (rule on_forest_inv [OF inv told])
    obtain e1 where e1: "bt_get (rf_entries (ses_forest s)) run = Some e1" "en_state e1 = EWorkflow w"
      using w(1) by (auto simp: workflow_of_iff)
    show "bt_get (rf_entries (?h (ses_forest s))) i = Some e \<Longrightarrow> runtime_ref (en_state e) = Some r \<Longrightarrow>
        \<exists>e0. bt_get (rf_entries (ses_forest s)) i = Some e0 \<and> runtime_ref (en_state e0) = Some r" for i e r
      using e1 by (cases "i = run") (auto simp: step_started_get runtime_ref_def)
  qed
  then show ?thesis by (simp add: session_apply_def runs_apply_def)
qed

lemma deleted_session_inv:
  assumes inv: "session_inv agent_of j s" "ses_spec s \<noteq> None"
  shows "session_inv agent_of j (on_forest (apply_agent_deleted a) s)"
proof (rule on_forest_inv [OF inv])
  show "forest_inv agent_of j (apply_agent_deleted a (ses_forest s))" by (rule agent_deleted_inv [OF session_invD(1) [OF inv(1)]])
  have wf: "forest_wf (ses_forest s)" by (rule forest_invD(1) [OF session_invD(1) [OF inv(1)]])
  show "rf_root (apply_agent_deleted a (ses_forest s)) = rf_root (ses_forest s)"
    using agent_deleted_get(3) [OF wf] by (cases "deletable (ses_forest s) a") (simp_all add: apply_agent_deleted_def)
  show "bt_get (rf_entries (apply_agent_deleted a (ses_forest s))) i = Some e \<Longrightarrow> runtime_ref (en_state e) = Some r \<Longrightarrow>
      \<exists>e0. bt_get (rf_entries (ses_forest s)) i = Some e0 \<and> runtime_ref (en_state e0) = Some r" for i e r
    using agent_deleted_get(1) [OF wf]
    by (cases "deletable (ses_forest s) a") (auto simp: apply_agent_deleted_def split: if_splits)
qed

lemma spec_session_inv:
  assumes inv: "session_inv agent_of j s" "ses_spec s = None"
  shows "session_inv agent_of j (session_apply s (SpecRecorded at j spec))"
proof -
  have e: "ses_forest s = forest_default" "ses_runtimes s = []" using session_invD(4) [OF inv] by simp_all
  have unused: "unused forest_default j" by (simp add: unused_def forest_default_def bt_get_def)
  have no_parent: "parent_of forest_default a = None" for a
    by (simp add: parent_of_def owner_of_agent_def forest_default_def bt_get_def)
  have ix: "index_ok forest_default" using forest_wf_default by (simp add: forest_wf_def)
  have rooting: "forest_inv agent_of j (f'\<lparr> rf_root := Some j \<rparr>)"
    if f': "forest_wf f'" "rf_entries f' = [(j, e)]" "\<And>a. parent_of f' a = None" "en_parent e = None"
      "is_main (en_state e) \<or> is_workflow (en_state e)" "\<And>w. en_state e = EWorkflow w \<Longrightarrow> wf_run w = run_state_default" for f' e
  proof -
    let ?f = "f'\<lparr> rf_root := Some j \<rparr>"
    have "forest_wf ?f"
      using f'(1) by (simp add: forest_wf_def index_ok_def hosts_ok_def ranked_def parent_of_def owner_of_agent_def cong: option.case_cong)
    moreover have "runs_ok agent_of ?f" using f'(2,6) by (auto simp: runs_ok_def bt_get_def run_inv_default)
    moreover have "shallow ?f" using f'(2,4) by (auto simp: shallow_def bt_get_def split: if_splits)
    moreover have "rooted j ?f" using f'(2,4,5) by (auto simp: rooted_def bt_get_def split: if_splits)
    ultimately show ?thesis by (simp add: forest_inv_def)
  qed
  have put: "rf_entries (put_entry j x forest_default) = [(j, x)]" "rf_entries (host_agent a k f') = rf_entries f'" for x a k f'
    by (simp_all add: put_entry_def forest_default_def host_agent_def)
  have main: "forest_inv agent_of j (apply_root_agent j at c forest_default)" for c
  proof -
    let ?e = "\<lparr> en_parent = None, en_created_at_ms = at,
      en_state = EMain \<lparr> mr_turn = PhIdle, mr_title = None, mr_runtime = c \<rparr> \<rparr>"
    have "forest_wf (host_agent j j (put_entry j ?e forest_default))"
      by (rule add_agent_wf [OF forest_wf_default unused]) (simp_all add: hosted_by_def)
    then have "forest_inv agent_of j ((host_agent j j (put_entry j ?e forest_default))\<lparr> rf_root := Some j \<rparr>)"
      by (rule rooting [where e = ?e]) (simp_all add: host_entry_parent [OF ix unused] no_parent put is_main_def)
    then show ?thesis by (simp add: apply_root_agent_def)
  qed
  have run: "forest_inv agent_of j (apply_root_workflow j name graph at c forest_default)" for name graph c
  proof -
    let ?e = "\<lparr> en_parent = None, en_created_at_ms = at, en_state = EWorkflow \<lparr> wf_workflow = name, wf_graph = graph,
      wf_run = run_state_default, wf_notified = False, wf_runtime = c \<rparr> \<rparr>"
    have "forest_wf (put_entry j ?e forest_default)"
      by (rule add_run_wf [OF forest_wf_default unused]) (simp add: hosted_by_def run_state_default_def)
    then have "forest_inv agent_of j ((put_entry j ?e forest_default)\<lparr> rf_root := Some j \<rparr>)"
      by (rule rooting [where e = ?e]) (simp_all add: put_entry_parent [OF ix unused] no_parent put is_workflow_def)
    then show ?thesis by (simp add: apply_root_workflow_def)
  qed
  have "runtime_ref (EMain \<lparr> mr_turn = PhIdle, mr_title = None, mr_runtime = initial_choice spec \<rparr>) = None"
    "runtime_ref (EWorkflow \<lparr> wf_workflow = n, wf_graph = gr, wf_run = run_state_default, wf_notified = False, wf_runtime = initial_choice spec \<rparr>) = None"
    for n gr
    by (simp_all add: runtime_ref_def initial_choice_def split: option.split)
  then have "pointed (session_apply s (SpecRecorded at j spec))"
    by (auto simp: pointed_def session_apply_def core_apply_def on_forest_def e put_entry_def host_agent_def
        apply_root_agent_def apply_root_workflow_def forest_default_def bt_get_def split: session_kind.splits if_splits)
  then show ?thesis
    using main run e
    by (auto simp: session_inv_def session_apply_def core_apply_def on_forest_def apply_root_agent_def apply_root_workflow_def
        bt_wf_def split: session_kind.split)
qed

lemma childless_sels [simp]: "\<not> is_main (ESub x)" "\<not> is_main (EWorkflow w)" "\<not> is_main (ESubSession y)"
  "is_work (ESub x)" "is_work (EWorkflow w)" "\<not> is_work (ESubSession y)"
  "\<not> is_workflow (ESub x)" "is_workflow (EWorkflow w)" "\<not> is_workflow (ESubSession y)"
  by (simp_all add: is_main_def is_work_def is_workflow_def)

text \<open>The events that bring a child.\<close>

lemma spawned_session_inv:
  assumes "session_inv agent_of j s" "sound_event agent_of j s (SubAgentSpawned at i p title task ty)"
  shows "session_inv agent_of j (session_apply s (SubAgentSpawned at i p title task ty))"
proof -
  let ?e = "\<lparr> en_parent = Some p, en_created_at_ms = at,
       en_state = ESub \<lparr> su_title = title, su_task = task, su_agent_type = ty,
         su_status = SubRunning, su_output = None, su_error = None, su_notified = False,
         su_started_at_ms = at, su_ended_at_ms = 0 \<rparr> \<rparr>"
  have "session_inv agent_of j (on_forest (host_agent i i \<circ> put_entry i ?e) s)"
    by (rule child_session_inv [OF assms(1), where e = ?e and i = i and p = p])
      (use assms(2) in \<open>simp_all add: sound_event_def runtime_ref_def\<close>)
  then show ?thesis by (simp add: session_apply_def subs_apply_def on_forest_def apply_sub_spawned_def)
qed

lemma created_session_inv:
  assumes "session_inv agent_of j s" "sound_event agent_of j s (RunCreated at i p graph)"
  shows "session_inv agent_of j (session_apply s (RunCreated at i p graph))"
proof -
  let ?e = "\<lparr> en_parent = Some p, en_created_at_ms = at,
       en_state = EWorkflow \<lparr> wf_workflow = rs_workflow graph, wf_graph = graph, wf_run = run_state_default,
         wf_notified = False, wf_runtime = RcInherit \<rparr> \<rparr>"
  have "session_inv agent_of j (on_forest (put_entry i ?e) s)"
    by (rule child_session_inv [OF assms(1), where e = ?e and i = i and p = p])
      (use assms(2) in \<open>simp_all add: sound_event_def runtime_ref_def\<close>)
  then show ?thesis by (simp add: session_apply_def runs_apply_def on_forest_def apply_run_created_def)
qed

lemma branched_session_inv:
  assumes "session_inv agent_of j s" "sound_event agent_of j s (SubSessionCreated at i p n sd msg title rt)"
  shows "session_inv agent_of j (session_apply s (SubSessionCreated at i p n sd msg title rt))"
proof -
  let ?e = "\<lparr> en_parent = Some p, en_created_at_ms = at,
       en_state = ESubSession \<lparr> sn_source_seq = n, sn_seed = sd, sn_message = msg,
         sn_title = title, sn_status = AsProvisioning, sn_last_activity_ms = at, sn_runtime = rt \<rparr> \<rparr>"
  have "session_inv agent_of j (on_forest (host_agent i i \<circ> put_entry i ?e) s)"
    by (rule child_session_inv [OF assms(1), where e = ?e and i = i and p = p])
      (use assms(2) in \<open>auto simp: sound_event_def runtime_ref_def split: runtime_choice.split\<close>)
  then show ?thesis by (simp add: session_apply_def sub_sessions_apply_def on_forest_def apply_sub_session_created_def)
qed

lemma session_apply_inv:
  assumes inv: "session_inv agent_of j s" and ok: "sound_event agent_of j s ev"
  shows "session_inv agent_of j (session_apply s ev)"
proof -
  note mut = mut_session_inv [OF inv]
  show ?thesis
  proof (cases ev)
    case (SpecRecorded at k spec)
    then show ?thesis using ok spec_session_inv [OF inv] by (simp add: sound_event_def)
  next
    case SRenamed
    then show ?thesis using ok titled_session_inv [OF inv] by (simp add: sound_event_def session_apply_def core_apply_def)
  next
    case RuntimeRequested
    then show ?thesis using ok requested_session_inv [OF inv] by simp
  next
    case SubAgentSpawned
    then show ?thesis using ok spawned_session_inv [OF inv] by simp
  next
    case RunCreated
    then show ?thesis using ok created_session_inv [OF inv] by simp
  next
    case SubSessionCreated
    then show ?thesis using ok branched_session_inv [OF inv] by simp
  next
    case StepStarted
    then show ?thesis using ok step_session_inv [OF inv] by simp
  next
    case AgentDeleted
    then show ?thesis using ok deleted_session_inv [OF inv] by (simp add: sound_event_def session_apply_def core_apply_def)
  next
    case SAskRecorded
    then show ?thesis using ok asked_session_inv [OF inv] by (simp add: sound_event_def session_apply_def turns_apply_def)
  next
    case (ProvisioningFailed at r err final)
    then have "session_inv agent_of j (on_runtime r (\<lambda>rec. rec\<lparr> rt_provisioning := ProvFailed (prov_at_or_zero rec) err \<rparr>) s)"
      using ok by (auto intro!: runtime_session_inv [OF inv] simp: sound_event_def)
    then show ?thesis using ProvisioningFailed
      by (auto simp: session_apply_def lifecycle_apply_def session_inv_def pointed_def Let_def split: option.splits)
  next
    case SessionFailed
    then show ?thesis using inv by (auto simp: session_apply_def turns_apply_def session_inv_def pointed_def split: option.splits)
  next
    case SUsageRecorded
    then show ?thesis using inv by (auto simp: session_apply_def core_apply_def session_inv_def pointed_def split: option.splits)
  qed (use ok in \<open>auto simp: sound_event_def session_apply_def lifecycle_apply_def turns_apply_def runs_apply_def subs_apply_def
      sub_sessions_apply_def apply_turn_began_def [abs_def] apply_turn_idle_def [abs_def] apply_turn_failed_def [abs_def]
      apply_sub_running_def [abs_def] apply_sub_completed_def [abs_def] apply_sub_failed_def [abs_def] apply_sub_notified_def [abs_def]
      apply_sub_session_seeded_def [abs_def] apply_sub_session_status_def [abs_def] apply_step_concluded_def [abs_def]
      apply_step_failed_def [abs_def] apply_step_cancelled_def [abs_def] apply_run_finished_def [abs_def]
      apply_run_failed_def [abs_def] apply_run_notified_def [abs_def] inv run_inv_simps
      intro!: mut runtime_session_inv [OF inv]\<close>)
qed

fun sound_events :: "(uuid \<Rightarrow> nat \<Rightarrow> uuid) \<Rightarrow> uuid \<Rightarrow> session_state \<Rightarrow> session_event list \<Rightarrow> bool" where
  "sound_events agent_of j s [] = True"
| "sound_events agent_of j s (ev # evs) = (sound_event agent_of j s ev \<and> sound_events agent_of j (session_apply s ev) evs)"

lemma session_folds_simps [simp]:
  "session_folds s [] = s" "session_folds s (ev # evs) = session_folds (session_apply s ev) evs"
  "session_folds s (evs @ evs') = session_folds (session_folds s evs) evs'"
  by (simp_all add: session_folds_def)

lemma sound_events_append [simp]:
  "sound_events agent_of j s (evs @ evs') \<longleftrightarrow> sound_events agent_of j s evs \<and> sound_events agent_of j (session_folds s evs) evs'"
  by (induction evs arbitrary: s) auto

lemma session_folds_inv:
  "session_inv agent_of j s \<Longrightarrow> sound_events agent_of j s evs \<Longrightarrow> session_inv agent_of j (session_folds s evs)"
  by (induction evs arbitrary: s) (auto intro: session_apply_inv)

end
