(* ===== verification/Session_Routing.thy ===== *)
theory Session_Routing
  imports Session_State
begin

text \<open>
  Which session event reaches which agent's log (\<^verbatim>\<open>crates/server/src/sessions/lifecycle_routing.rs\<close>), read
  against the state the persisted batch folded to.
\<close>

type_synonym routed = "agent_key \<times> lifecycle_event"

definition session_wide :: "session_state \<Rightarrow> agent_key option" where
  "session_wide s =
     (if root_is_workflow (ses_forest s) then map_option KeyStep (current_root_step_agent (ses_forest s))
      else Some KeyMain)"

definition to_key :: "agent_key option \<Rightarrow> lifecycle_event \<Rightarrow> routed list" where
  "to_key k ev = (case k of Some key \<Rightarrow> [(key, ev)] | None \<Rightarrow> [])"

definition on_session :: "session_state \<Rightarrow> lifecycle_event \<Rightarrow> routed list" where
  "on_session s ev = to_key (session_wide s) ev"

definition every_agent :: "session_state \<Rightarrow> lifecycle_event \<Rightarrow> routed list" where
  "every_agent s ev = to_key (session_wide s) ev
     @ map (\<lambda>i. (KeySub i, ev)) (sub_ids (ses_forest s))
     @ map (\<lambda>i. (KeySubSession i, ev)) (sub_session_ids (ses_forest s))"

text \<open>Whose log a child's news belongs in: \<open>agent_key_of\<close> of the agent it runs under.\<close>

definition parent_key :: "session_state \<Rightarrow> uuid \<Rightarrow> agent_key option" where
  "parent_key s p = agent_key_of (ses_forest s) p"

definition terminal_subagent :: "uuid \<Rightarrow> string option \<Rightarrow> session_state \<Rightarrow> routed list" where
  "terminal_subagent i err s = (case sub_of (ses_forest s) i of
     None \<Rightarrow> []
   | Some rec \<Rightarrow>
       to_key (Option.bind (Option.bind (owner_of_agent (ses_forest s) i) (\<lambda>(_, e). en_parent e)) (parent_key s))
         (LSubAgent i (su_title rec) (case err of Some _ \<Rightarrow> ''failed'' | None \<Rightarrow> ''completed''))
       @ [(KeySub i, LTurnEnded (case err of Some e \<Rightarrow> TurnFailed e | None \<Rightarrow> TurnOk))])"

definition step_entry :: "run_id \<Rightarrow> nat \<Rightarrow> string \<Rightarrow> session_state \<Rightarrow> routed list" where
  "step_entry run index status s =
     (case Option.bind (workflow_of (ses_forest s) run) (\<lambda>w. run_get (wf_run w) index) of
        None \<Rightarrow> []
      | Some st \<Rightarrow> [(KeyStep (se_agent st), LStep (of_nat index) (se_step st) status)])"

definition last_step_entry :: "run_id \<Rightarrow> string \<Rightarrow> session_state \<Rightarrow> routed list" where
  "last_step_entry run status s = (case workflow_of (ses_forest s) run of
     None \<Rightarrow> []
   | Some w \<Rightarrow> if rn_steps (wf_run w) = [] then []
       else step_entry run (length (rn_steps (wf_run w)) - 1) status s)"

definition run_report_entry :: "run_id \<Rightarrow> string \<Rightarrow> session_state \<Rightarrow> routed list" where
  "run_report_entry run status s = (case forest_entry (ses_forest s) run of
     None \<Rightarrow> []
   | Some e \<Rightarrow> (case en_parent e of
       None \<Rightarrow> []
     | Some p \<Rightarrow> (case en_state e of
         EWorkflow w \<Rightarrow> to_key (parent_key s p) (LSubAgent run (''workflow '' @ wf_workflow w) status)
       | _ \<Rightarrow> [])))"

definition route :: "session_event \<Rightarrow> session_state \<Rightarrow> routed list" where
  "route ev s = (case ev of
     RuntimeRequested _ _ _ _ \<Rightarrow> []
   | ProvisioningStarted _ _ \<Rightarrow> on_session s (LRuntime RtAcquiring None)
   | ProvisioningProgress _ _ detail \<Rightarrow> on_session s (LRuntime RtAcquiring (Some detail))
   | ProvisioningSucceeded _ _ \<Rightarrow> on_session s (LRuntime RtReady None)
   | ProvisioningFailed _ _ err _ \<Rightarrow> on_session s (LRuntime RtFailed (Some err))
   | STurnEnded _ _ \<Rightarrow> on_session s (LTurnEnded TurnOk)
   | STurnFailed _ _ err \<Rightarrow> on_session s (LTurnEnded (TurnFailed err))
   | STurnStopped _ _ \<Rightarrow> on_session s (LTurnEnded TurnStopped)
   | STurnInterrupted _ _ \<Rightarrow> on_session s (LTurnEnded TurnInterrupted)
   | SessionFailed _ reason \<Rightarrow> every_agent s (LSessionFailed reason)
   | SubAgentSpawned _ i parent title _ _ \<Rightarrow> to_key (parent_key s parent) (LSubAgent i title ''running'')
   | SubAgentCompleted _ i _ \<Rightarrow> terminal_subagent i None s
   | SubAgentFailed _ i err \<Rightarrow> terminal_subagent i (Some err) s
   | StepStarted _ _ index step agent _ _ _ _ \<Rightarrow> [(KeyStep agent, LStep (of_nat index) step ''started'')]
   | StepConcluded _ run index _ \<Rightarrow> step_entry run index ''concluded'' s
   | StepFailed _ run index _ \<Rightarrow> step_entry run index ''failed'' s
   | StepCancelled _ run index \<Rightarrow> step_entry run index ''cancelled'' s
   | SRunFinished _ run _ \<Rightarrow> last_step_entry run ''run_finished'' s @ run_report_entry run ''completed'' s
   | RunFailed _ run _ \<Rightarrow> last_step_entry run ''run_failed'' s @ run_report_entry run ''failed'' s
   | RunCreated _ i parent graph \<Rightarrow>
       to_key (parent_key s parent) (LSubAgent i (''workflow '' @ rs_workflow graph) ''running'')
   | RunNotified _ _ \<Rightarrow> []
   | SUsageRecorded _ _ _ _ _ \<Rightarrow> []
   | SubAgentRunning _ _ \<Rightarrow> []
   | SubAgentNotified _ _ \<Rightarrow> []
   | SpecRecorded _ _ _ \<Rightarrow> []
   | SRenamed _ \<Rightarrow> []
   | SubSessionCreated _ i parent _ seed _ title _ \<Rightarrow>
       to_key (parent_key s parent) (LSubSession i (Some title) (seed_as_str seed))
   | SubSessionSeeded _ _ \<Rightarrow> []
   | SubSessionStatusChanged _ _ _ \<Rightarrow> []
   | AgentDeleted _ _ \<Rightarrow> []
   | SubSessionTurnEnded _ i outc \<Rightarrow> [(KeySubSession i, LTurnEnded outc)]
   | STurnBegan _ _ \<Rightarrow> []
   | SAskRecorded _ _ \<Rightarrow> [])"

end
