(* ===== verification/Session_Host.thy ===== *)
theory Session_Host
  imports Session_Routing
begin

text \<open>
  The session actor as a host of agents (\<^verbatim>\<open>crates/server/src/sessions/session_actor/mod.rs\<close>): its commands,
  its in-memory part, what a handler sends out, and the helpers that spawn, resolve, cancel and settle the
  agents it hosts. A handler takes the in-memory part, the folded state and a command, and returns the new
  in-memory part, what it sent out in order, and the effect for the actor runtime. The clock, fresh ids and
  the answers of other actors come in \<open>session_io\<close>; replies are tagged with the caller they answer.
\<close>

section \<open>Commands\<close>

definition MAIN_AGENT_ID :: string where "MAIN_AGENT_ID = ''main''"

datatype requested_runtime = ReqInherit | ReqWithout | ReqOwn runtime_env

record first_message =
  fm_text :: string
  fm_artifacts :: "artifact_ref list"
  fm_caller :: nat

datatype session_command =
    Provision uuid "runtime_env option"
  | NarrateProvisioning runtime_id string
  | FinishProvisioning runtime_id "string option" bool
  | PrepareOffload nat
  | DeleteSession nat
  | UserMessage "string option" string "artifact_ref list" nat
  | StopTurn string nat
  | AnswerAgent "string option" "ask_answer list" nat
  | CreateRun uuid run_spec nat
  | FinishCreateRun uuid nat "string option"
  | RunStatus uuid uuid nat
  | AdvanceRuns
  | RetryStep nat nat
  | ReadRunState nat
  | ReconcileSteps
  | SpawnSub uuid string string "string option" nat
  | FinishSpawn uuid string "string option" nat "string option"
  | SubStatus uuid "uuid option" nat
  | ReconcileSubs
  | CreateSubSession uuid seed_mode string string requested_runtime nat
  | FinishCreateSubSession uuid requested_runtime nat "string option"
  | SeededSubSession uuid
  | SummarisedSubSessions "uuid list" "string + string"
  | SeedFailedSubSession uuid string
  | ReseedInterrupted
  | ReadAgentLog "string option" read_command nat
  | RuntimeCheckouts runtime_id nat
  | ReadSnapshot nat
  | HooksRanFor agent_key "hook_record list"
  | ContinueAfterStop agent_key string
  | HaltAgent agent_key string
  | DeleteAgent uuid nat
  | SetTitle string nat
  | TitleSet string
  | CreateSession session_spec "string option" "first_message option"
  | ReportProgress agent_key string "string option"
  | AgentReported agent_outcome

section \<open>The actor\<close>

text \<open>How an agent reaches its sandbox: the provider bound to one incarnation of one runtime, none, or not yet known.\<close>

datatype agent_binding =
    BoundTo runtime_id string bool runtime_env
  | BoundWithout
  | BoundPending

record agent_plan =
  pl_key :: agent_key
  pl_settings :: agent_settings
  pl_outcomes :: "step_outcome list"
  pl_fields :: "step_field list"
  pl_interactive :: bool
  pl_agent_type :: "string option"
  pl_origin :: "(seed_mode \<times> string) option"
  pl_via :: "run_id option"

record host =
  ho_id :: uuid
  ho_spec :: "session_spec option"
  ho_live :: "agent_binding btree"

text \<open>What building a sub session's history starts from.\<close>

datatype seed = SeedFromCopy | SeedFromSummary string | SeedFromNothing

record sub_session_entry =
  ae_id :: uuid
  ae_parent :: "uuid option"
  ae_title :: string
  ae_status :: agent_status
  ae_created_at_ms :: u64
  ae_last_activity_ms :: u64
  ae_input :: string
  ae_stats :: agent_stats
  ae_model :: "string option"

datatype agent_kind = KindMain | KindSub | KindStep | KindSubSession

record agent_entry =
  ag_id :: string
  ag_parent :: "uuid option"
  ag_title :: "string option"
  ag_depth :: nat
  ag_agent_type :: "string option"
  ag_preset :: "string option"
  ag_status :: agent_status
  ag_error :: "string option"
  ag_kind :: agent_kind
  ag_input :: "string option"
  ag_output :: "string option"
  ag_stats :: agent_stats
  ag_model :: "string option"
  ag_started_at_ms :: u64
  ag_ended_at_ms :: u64
  ag_run :: "uuid option"
  ag_workflow :: "string option"

record session_snapshot =
  sp_status :: session_status
  sp_usage_total :: usage_total
  sp_efficiency_total :: efficiency_stats
  sp_agents :: "agent_entry list"
  sp_sub_sessions :: "sub_session_entry list"

datatype user_message_error = UeNotFound | UeRejected string | UeUnrecoverable string

datatype answer_value =
    AvUnit "string + unit"
  | AvBool bool
  | AvId "string + uuid"
  | AvText "string + string"
  | AvMessage "user_message_error + string"
  | AvNothingPending
  | AvRunState "run_state option"
  | AvUrls "string list option"
  | AvSnapshot session_snapshot
  | AvNoAgent

datatype session_out =
    SpawnAgent agent_plan bool agent_binding agent_params
  | TellAgent uuid agent_command
  | CancelAndWait uuid
  | StopActor uuid
  | SelfSend session_command
  | AnswerCaller nat answer_value
  | ForwardAnswer uuid "ask_answer list" nat
  | ForwardMessage uuid incoming nat
  | ForwardRead uuid read_command nat
  | CreateSubSessionFor uuid seed_mode string string nat
  | CreateRuntime runtime_id u64 runtime_env
  | HibernateRuntime runtime_id string
  | DeleteRuntime runtime_id string
  | SeedTask uuid uuid seed nat incoming
  | PublishTitle string
  | RecordAsks string "asked_question list"
  | ForgetAgentRuns
  | ForgetInbox
  | ReleaseArtifacts

record session_effect =
  sfx_events :: "session_event list"
  sfx_ack :: "(string option \<Rightarrow> session_command) option"
  sfx_stop :: bool

record session_io =
  sio_now :: u64
  sio_id :: uuid
  sio_item :: string
  sio_log_head :: "uuid \<Rightarrow> nat option"
  sio_rename :: "string \<Rightarrow> string + string"
  sio_spawns :: "uuid \<Rightarrow> bool"
  sio_reaches :: "uuid \<Rightarrow> bool"
  sio_step_agent :: "uuid \<Rightarrow> nat \<Rightarrow> uuid"
  sio_parse_uuid :: "string \<Rightarrow> uuid option"
  sio_show_json :: "json \<Rightarrow> string"

type_synonym session_handled = "host \<times> session_out list \<times> session_effect"

definition sfx_none :: session_effect where
  "sfx_none = \<lparr> sfx_events = [], sfx_ack = None, sfx_stop = False \<rparr>"

definition journal :: "session_event list \<Rightarrow> session_effect" where
  "journal evs = sfx_none\<lparr> sfx_events := evs \<rparr>"

definition stop_effect :: session_effect where
  "stop_effect = sfx_none\<lparr> sfx_stop := True \<rparr>"

definition host_new :: "uuid \<Rightarrow> host" where
  "host_new i = \<lparr> ho_id = i, ho_spec = None, ho_live = [] \<rparr>"

text \<open>The agents are kept by id; the main agent's is the session's.\<close>

definition key_id :: "host \<Rightarrow> agent_key \<Rightarrow> uuid" where
  "key_id h k = (case k of KeyMain \<Rightarrow> ho_id h | KeySub i \<Rightarrow> i | KeyStep i \<Rightarrow> i | KeySubSession i \<Rightarrow> i)"

definition resident :: "host \<Rightarrow> uuid \<Rightarrow> bool" where
  "resident h a \<longleftrightarrow> bt_get (ho_live h) a \<noteq> None"

section \<open>Where agents run\<close>

definition binding_for :: "session_state \<Rightarrow> runtime_choice \<Rightarrow> agent_binding" where
  "binding_for s c = (case runtime_of_choice s c of
     RunsOn r rec \<Rightarrow> BoundTo r
       (case prov_at_ms (rt_provisioning rec) of Some at \<Rightarrow> show_nat (unat at) | None \<Rightarrow> [])
       (case rt_provisioning rec of ProvInFlight _ \<Rightarrow> True | _ \<Rightarrow> False) (rt_env rec)
   | RunsWithout \<Rightarrow> BoundWithout
   | RunsPending \<Rightarrow> BoundPending)"

definition runtime_binding :: "session_state \<Rightarrow> uuid \<Rightarrow> agent_binding" where
  "runtime_binding s a = binding_for s (runtime_of_agent (ses_forest s) a)"

definition repoint_agent_runtimes :: "session_state \<Rightarrow> host \<Rightarrow> host" where
  "repoint_agent_runtimes s h = h\<lparr> ho_live := map (\<lambda>(a, _). (a, runtime_binding s a)) (ho_live h) \<rparr>"

definition session_runtime :: "host \<Rightarrow> session_state \<Rightarrow> agent_runtime" where
  "session_runtime h s = runtime_of_choice s (runtime_of_run (ses_forest s) (ho_id h))"

definition runtime_choice_for :: "host \<Rightarrow> session_state \<Rightarrow> agent_plan \<Rightarrow> runtime_choice" where
  "runtime_choice_for h s p =
     (let a = key_id h (pl_key p)
      in case pl_via p of
           Some run \<Rightarrow> if is_known_agent (ses_forest s) a then runtime_of_agent (ses_forest s) a
             else runtime_of_run (ses_forest s) run
         | None \<Rightarrow> runtime_of_agent (ses_forest s) a)"

section \<open>Settings\<close>

definition step_settings_of :: "run_forest \<Rightarrow> uuid \<Rightarrow> agent_settings option" where
  "step_settings_of f a = Option.bind (step_of_agent f a) (\<lambda>(run, index).
     Option.bind (workflow_of f run) (\<lambda>w. Option.bind (run_get (wf_run w) index) (\<lambda>st.
       map_option ss_settings (spec_step (wf_graph w) (se_step st)))))"

text \<open>Up to the nearest ancestor that is not a subagent; \<open>n\<close> bounds the hops.\<close>

fun settings_walk :: "agent_settings option \<Rightarrow> run_forest \<Rightarrow> nat \<Rightarrow> uuid \<Rightarrow> agent_settings option" where
  "settings_walk main f n a = (case owner_of_agent f a of
     None \<Rightarrow> None
   | Some (_, e) \<Rightarrow> (case en_state e of
       ESub _ \<Rightarrow> (case n of
           0 \<Rightarrow> None
         | Suc k \<Rightarrow> (case en_parent e of None \<Rightarrow> None | Some p \<Rightarrow> settings_walk main f k p))
     | EMain _ \<Rightarrow> main
     | ESubSession _ \<Rightarrow> main
     | EWorkflow _ \<Rightarrow> step_settings_of f a))"

declare settings_walk.simps [simp del]

definition effective_settings :: "host \<Rightarrow> session_state \<Rightarrow> agent_key \<Rightarrow> agent_settings option" where
  "effective_settings h s k =
     (let main = Option.bind (ho_spec h) spec_settings; f = ses_forest s
      in case k of
           KeyMain \<Rightarrow> main
         | KeySubSession _ \<Rightarrow> main
         | KeyStep i \<Rightarrow> step_settings_of f i
         | KeySub i \<Rightarrow> settings_walk main f (Suc (case depth_of_agent f i of Some d \<Rightarrow> d | None \<Rightarrow> 0)) i)"

definition effective_settings_of_agent :: "host \<Rightarrow> session_state \<Rightarrow> uuid \<Rightarrow> agent_settings option" where
  "effective_settings_of_agent h s a = Option.bind (agent_key_of (ses_forest s) a) (effective_settings h s)"

section \<open>Spawning and resolving\<close>

text \<open>A spawned agent is one more resident; \<open>None\<close> is the actor system refusing to start it.\<close>

type_synonym reached = "(uuid \<times> host \<times> session_out list) option"

definition plan_params :: "agent_plan \<Rightarrow> agent_params" where
  "plan_params p = \<lparr>
     ap_requires_result = (case pl_key p of KeyStep _ \<Rightarrow> True | _ \<Rightarrow> False),
     ap_interactive = True,
     ap_park_on_outstanding_work = (case pl_key p of KeySub _ \<Rightarrow> True | _ \<Rightarrow> False) \<rparr>"

definition spawn_agent :: "session_io \<Rightarrow> host \<Rightarrow> session_state \<Rightarrow> agent_plan \<Rightarrow> reached" where
  "spawn_agent i h s p =
     (let a = key_id h (pl_key p); choice = runtime_choice_for h s p; binding = binding_for s choice;
          rdy = (ready_on (runtime_of_choice s choice) \<and> ses_fatal s = None)
      in if sio_spawns i a
         then Some (a, h\<lparr> ho_live := bt_insert a binding (ho_live h) \<rparr>, [SpawnAgent p rdy binding (plan_params p)])
         else None)"

definition plain_plan :: "agent_key \<Rightarrow> agent_settings \<Rightarrow> agent_plan" where
  "plain_plan k st = \<lparr> pl_key = k, pl_settings = st, pl_outcomes = [], pl_fields = [], pl_interactive = False,
     pl_agent_type = None, pl_origin = None, pl_via = None \<rparr>"

definition spawn_main_agent :: "session_io \<Rightarrow> host \<Rightarrow> session_state \<Rightarrow> host \<times> session_out list" where
  "spawn_main_agent i h s = (case Option.bind (ho_spec h) spec_settings of
     None \<Rightarrow> (h, [])
   | Some st \<Rightarrow> (case spawn_agent i h s (plain_plan KeyMain st) of
       None \<Rightarrow> (h, []) | Some (_, h1, out) \<Rightarrow> (h1, out)))"

definition spawn_sub_agent_actor :: "session_io \<Rightarrow> host \<Rightarrow> session_state \<Rightarrow> uuid \<Rightarrow> string option \<Rightarrow> reached" where
  "spawn_sub_agent_actor i h s a agent_type = Option.bind (effective_settings h s (KeySub a)) (\<lambda>st.
     spawn_agent i h s ((plain_plan (KeySub a) st)\<lparr> pl_agent_type := agent_type \<rparr>))"

definition spawn_step_agent :: "session_io \<Rightarrow> host \<Rightarrow> session_state \<Rightarrow> run_id \<Rightarrow> uuid \<Rightarrow> string \<Rightarrow> reached" where
  "spawn_step_agent i h s run a name = Option.bind (run_graph s run) (\<lambda>g. Option.bind (spec_step g name) (\<lambda>st.
     spawn_agent i h s ((plain_plan (KeyStep a) (ss_settings st))
       \<lparr> pl_outcomes := ss_outcomes st, pl_fields := ss_fields st, pl_interactive := ss_interactive st,
         pl_via := Some run \<rparr>)))"

definition source_title :: "host \<Rightarrow> session_state \<Rightarrow> uuid \<Rightarrow> string" where
  "source_title h s parent =
     (case (if parent = ho_id h then main_title (ses_forest s)
            else map_option sn_title (sub_session_of (ses_forest s) parent)) of
        Some t \<Rightarrow> t | None \<Rightarrow> ''the session before this one'')"

definition sub_session_origin :: "host \<Rightarrow> session_state \<Rightarrow> uuid \<Rightarrow> (seed_mode \<times> string) option" where
  "sub_session_origin h s a =
     Option.bind (Option.bind (owner_of_agent (ses_forest s) a) (\<lambda>(_, e). en_parent e)) (\<lambda>parent.
       map_option (\<lambda>rec. (sn_seed rec, source_title h s parent)) (sub_session_of (ses_forest s) a))"

definition spawn_sub_session_actor :: "session_io \<Rightarrow> host \<Rightarrow> session_state \<Rightarrow> uuid \<Rightarrow> reached" where
  "spawn_sub_session_actor i h s a =
     (if resident h a then Some (a, h, [])
      else Option.bind (effective_settings h s (KeySubSession a)) (\<lambda>st.
        spawn_agent i h s ((plain_plan (KeySubSession a) st)\<lparr> pl_origin := sub_session_origin h s a \<rparr>)))"

definition resolve_step :: "session_io \<Rightarrow> host \<Rightarrow> session_state \<Rightarrow> uuid \<Rightarrow> reached" where
  "resolve_step i h s a = (case step_of_agent (ses_forest s) a of
     None \<Rightarrow> None
   | Some (run, index) \<Rightarrow>
       if resident h a then Some (a, h, [])
       else Option.bind (workflow_of (ses_forest s) run) (\<lambda>w. Option.bind (run_get (wf_run w) index) (\<lambda>st.
         spawn_step_agent i h s run a (se_step st))))"

definition main_actor :: "host \<Rightarrow> reached" where
  "main_actor h = (if resident h (ho_id h) then Some (ho_id h, h, []) else None)"

definition resolve_sub :: "session_io \<Rightarrow> host \<Rightarrow> session_state \<Rightarrow> uuid \<Rightarrow> reached" where
  "resolve_sub i h s a =
     (if resident h a then Some (a, h, [])
      else Option.bind (sub_of (ses_forest s) a) (\<lambda>rec. spawn_sub_agent_actor i h s a (su_agent_type rec)))"

definition resolve_agent ::
    "session_io \<Rightarrow> host \<Rightarrow> session_state \<Rightarrow> string option \<Rightarrow> (agent_key \<times> uuid \<times> host \<times> session_out list) option" where
  "resolve_agent i h s sel =
     (if sel = None \<or> sel = Some MAIN_AGENT_ID then
        (case current_root_step_agent (ses_forest s) of
           Some step \<Rightarrow> map_option (Pair (KeyStep step)) (resolve_step i h s step)
         | None \<Rightarrow> map_option (Pair KeyMain) (main_actor h))
      else Option.bind (Option.bind sel (sio_parse_uuid i)) (\<lambda>a.
        Option.bind (agent_key_of (ses_forest s) a) (\<lambda>k. map_option (Pair k) (case k of
            KeyStep _ \<Rightarrow> resolve_step i h s a
          | KeySubSession _ \<Rightarrow> spawn_sub_session_actor i h s a
          | KeySub _ \<Rightarrow> resolve_sub i h s a
          | KeyMain \<Rightarrow> main_actor h))))"

text \<open>The mailbox of one agent, a cold one being spawned.\<close>

definition reach :: "session_io \<Rightarrow> host \<Rightarrow> session_state \<Rightarrow> agent_key \<Rightarrow> reached" where
  "reach i h s k =
     (if resident h (key_id h k) then Some (key_id h k, h, [])
      else case k of
          KeySub a \<Rightarrow> Option.bind (sub_of (ses_forest s) a) (\<lambda>rec. spawn_sub_agent_actor i h s a (su_agent_type rec))
        | KeyStep a \<Rightarrow> resolve_step i h s a
        | KeySubSession a \<Rightarrow> if sub_session_of (ses_forest s) a = None then None else spawn_sub_session_actor i h s a
        | KeyMain \<Rightarrow> None)"

section \<open>Cancelling and stopping\<close>

definition cancel_agent :: "host \<Rightarrow> agent_key \<Rightarrow> session_out list" where
  "cancel_agent h k = (if resident h (key_id h k) then [CancelAndWait (key_id h k)] else [])"

definition cancel_in_flight :: "host \<Rightarrow> session_state \<Rightarrow> session_out list" where
  "cancel_in_flight h s =
     (if in_flight_steps (ses_forest s) = [] then cancel_agent h KeyMain
      else concat (map (\<lambda>(_, _, a). cancel_agent h (KeyStep a)) (in_flight_steps (ses_forest s))))"

definition stop_agents :: "host \<Rightarrow> host \<times> session_out list" where
  "stop_agents h = (h\<lparr> ho_live := [] \<rparr>,
     concat (map (\<lambda>(a, _). [TellAgent a (CancelRun None), TellAgent a Shutdown]) (ho_live h)))"

definition retire_agent_actor :: "uuid \<Rightarrow> host \<Rightarrow> host \<times> session_out list" where
  "retire_agent_actor a h =
     (if resident h a then (h\<lparr> ho_live := bt_remove a (ho_live h) \<rparr>, [StopActor a]) else (h, []))"

fun retire_all :: "uuid list \<Rightarrow> host \<Rightarrow> host \<times> session_out list" where
  "retire_all [] h = (h, [])"
| "retire_all (a # as) h =
     (case retire_agent_actor a h of (h1, out1) \<Rightarrow> (case retire_all as h1 of (h2, out2) \<Rightarrow> (h2, out1 @ out2)))"

end
