(* ===== verification/Session_Handlers.thy ===== *)
theory Session_Handlers
  imports Session_Host
begin

text \<open>
  The session's turn boundary and its command handlers (\<^verbatim>\<open>session_actor/{mod,lifecycle,turns,run,subagent,
  sub_session,core,hooks,reads}.rs\<close>).
\<close>

section \<open>The turn boundary\<close>

text \<open>What performing an action produced: the host, what was sent, and the events that record it.\<close>

type_synonym performed = "host \<times> session_out list \<times> session_event list"

definition deliver :: "session_io \<Rightarrow> delivery \<Rightarrow> host \<Rightarrow> session_state \<Rightarrow> performed" where
  "deliver i d h s = (case reach i h s (dv_to d) of
     None \<Rightarrow> (h, [], [])
   | Some (a, h1, out) \<Rightarrow>
       if \<not> sio_reaches i a then (h1, out, [])
       else (h1, out @ [TellAgent a (Enqueue (IncSubAgent (dv_child d) (dv_part d)) None)],
         [case map_option en_state (forest_entry (ses_forest s) (dv_child d)) of
            Some (EWorkflow _) \<Rightarrow> RunNotified (sio_now i) (dv_child d)
          | _ \<Rightarrow> SubAgentNotified (sio_now i) (dv_child d)]))"

definition start_step :: "session_io \<Rightarrow> step_start \<Rightarrow> host \<Rightarrow> session_state \<Rightarrow> performed" where
  "start_step i p h s = (case spawn_step_agent i h s (sp_run p) (sp_agent p) (sp_step p) of
     None \<Rightarrow> (h, [], [RunFailed (sio_now i) (sp_run p) (''step '' @ quoted (sp_step p) @ '' is no longer in this workflow'')])
   | Some (a, h1, out) \<Rightarrow>
       if \<not> sio_reaches i a
       then (h1, out, [RunFailed (sio_now i) (sp_run p) (''step '' @ quoted (sp_step p) @ '' could not be started'')])
       else (h1, out @ [TellAgent a (Enqueue (IncUser (''step:'' @ show_nat (sp_index p) @ '':'' @ show_nat (sp_attempt p))
                          (sp_input p) []) None)],
         [StepStarted (sio_now i) (sp_run p) (sp_index p) (sp_step p) (sp_agent p) (sp_attempt p) (sp_from p)
            (sp_via p) (sp_input p)]))"

definition perform_action :: "session_io \<Rightarrow> agent_action \<Rightarrow> host \<Rightarrow> session_state \<Rightarrow> performed" where
  "perform_action i act h s = (case act of
     DeliverResult d \<Rightarrow> deliver i d h s
   | StartStep p \<Rightarrow> start_step i p h s
   | FinishRun run out \<Rightarrow> (h, [], [SRunFinished (sio_now i) run out])
   | FailRun run err \<Rightarrow> (h, [], [RunFailed (sio_now i) run err]))"

text \<open>What every component wants started: subagent wakes first, then the runs. Turns want nothing.\<close>

definition run_actions :: "session_io \<Rightarrow> session_state \<Rightarrow> agent_action list" where
  "run_actions i s = concat (map (\<lambda>(run, w). step_actions (sio_step_agent i) (sio_show_json i) run (wf_graph w) (wf_run w))
     (workflows (ses_forest s)))"

definition next_actions :: "session_io \<Rightarrow> host \<Rightarrow> session_state \<Rightarrow> agent_action list" where
  "next_actions i h s =
     (if \<not> ready_on (session_runtime h s) then []
      else owed_deliveries (sio_show_json i) (ses_forest s) @ run_actions i s)"

text \<open>One round: each action sees the state the previous one produced.\<close>

fun perform_all :: "session_io \<Rightarrow> agent_action list \<Rightarrow> host \<Rightarrow> session_state \<Rightarrow> host \<times> session_state \<times> session_out list \<times> session_event list" where
  "perform_all i [] h s = (h, s, [], [])"
| "perform_all i (act # acts) h s =
     (case perform_action i act h s of (h1, out1, evs1) \<Rightarrow>
       (case perform_all i acts h1 (session_folds s evs1) of (h2, s2, out2, evs2) \<Rightarrow>
          (h2, s2, out1 @ out2, evs1 @ evs2)))"

fun flush_rounds :: "session_io \<Rightarrow> nat \<Rightarrow> host \<Rightarrow> session_state \<Rightarrow> host \<times> session_state \<times> session_out list \<times> session_event list" where
  "flush_rounds i 0 h s = (h, s, [], [])"
| "flush_rounds i (Suc n) h s =
     (case perform_all i (next_actions i h s) h s of (h1, s1, out1, evs1) \<Rightarrow>
        if evs1 = [] then (h1, s1, out1, [])
        else (case flush_rounds i n h1 s1 of (h2, s2, out2, evs2) \<Rightarrow> (h2, s2, out1 @ out2, evs1 @ evs2)))"

definition FLUSH_ROUNDS :: nat where "FLUSH_ROUNDS = 8"

definition flush_then_drain :: "session_io \<Rightarrow> host \<Rightarrow> session_state \<Rightarrow> performed" where
  "flush_then_drain i h s = (case flush_rounds i FLUSH_ROUNDS h s of (h1, _, out, evs) \<Rightarrow> (h1, out, evs))"

definition persist_and_advance :: "session_io \<Rightarrow> session_event list \<Rightarrow> host \<Rightarrow> session_state \<Rightarrow> session_handled" where
  "persist_and_advance i evs h s =
     (case flush_then_drain i h (session_folds s evs) of (h1, out, evs2) \<Rightarrow> (h1, out, journal (evs @ evs2)))"

definition before :: "session_out list \<Rightarrow> session_handled \<Rightarrow> session_handled" where
  "before out r = (case r of (h, out2, fx) \<Rightarrow> (h, out @ out2, fx))"

definition answer :: "host \<Rightarrow> nat \<Rightarrow> answer_value \<Rightarrow> session_handled" where
  "answer h caller v = (h, [AnswerCaller caller v], sfx_none)"

definition quiet :: "host \<Rightarrow> session_handled" where
  "quiet h = (h, [], sfx_none)"

section \<open>The sandbox\<close>

definition runtime_request ::
    "session_io \<Rightarrow> host \<Rightarrow> session_state \<Rightarrow> uuid \<Rightarrow> runtime_env option \<Rightarrow> (runtime_id \<times> runtime_env \<times> bool) option" where
  "runtime_request i h s owner env = (case runtimes_owned_by s owner of
     (r, rec) # _ \<Rightarrow> (case rt_provisioning rec of ProvReady _ \<Rightarrow> None | _ \<Rightarrow> Some (r, rt_env rec, False))
   | [] \<Rightarrow> (case env of
       Some e \<Rightarrow> Some (sio_id i, e, True)
     | None \<Rightarrow> if owner = ho_id h then map_option (\<lambda>e. (sio_id i, e, True)) (Option.bind (ho_spec h) sc_runtime)
         else None))"

definition provision :: "session_io \<Rightarrow> uuid \<Rightarrow> runtime_env option \<Rightarrow> host \<Rightarrow> session_state \<Rightarrow> session_handled" where
  "provision i owner env h s =
     (if ses_fatal s \<noteq> None then quiet h
      else case runtime_request i h s owner env of
          None \<Rightarrow> quiet h
        | Some (r, e, requested) \<Rightarrow>
            (let evs = (if requested then [RuntimeRequested (sio_now i) r owner e] else [])
                   @ [ProvisioningStarted (sio_now i) r]
             in (repoint_agent_runtimes (session_folds s evs) h, [CreateRuntime r (sio_now i) e], journal evs)))"

definition narrate_provisioning :: "session_io \<Rightarrow> runtime_id \<Rightarrow> string \<Rightarrow> host \<Rightarrow> session_state \<Rightarrow> session_handled" where
  "narrate_provisioning i r detail h s = (case map_option rt_provisioning (bt_get (ses_runtimes s) r) of
     Some (ProvInFlight _) \<Rightarrow> (h, [], journal [ProvisioningProgress (sio_now i) r detail])
   | _ \<Rightarrow> quiet h)"

definition finish_provisioning ::
    "session_io \<Rightarrow> runtime_id \<Rightarrow> string option \<Rightarrow> bool \<Rightarrow> host \<Rightarrow> session_state \<Rightarrow> session_handled" where
  "finish_provisioning i r err final h s =
     (let ev = (case err of None \<Rightarrow> ProvisioningSucceeded (sio_now i) r
                  | Some e \<Rightarrow> ProvisioningFailed (sio_now i) r e final);
          s1 = session_apply s ev
      in case flush_then_drain i (repoint_agent_runtimes s1 h) s1 of
           (h1, out, evs2) \<Rightarrow> (h1, out, journal (ev # evs2)))"

text \<open>Whether any component has work in flight.\<close>

definition session_busy :: "session_state \<Rightarrow> bool" where
  "session_busy s \<longleftrightarrow>
     list_ex (\<lambda>(_, rec). case rt_provisioning rec of ProvInFlight _ \<Rightarrow> True | _ \<Rightarrow> False) (ses_runtimes s) \<or>
     main_turn (ses_forest s) = Some PhRunning \<or>
     has_step_in_flight (ses_forest s) \<or>
     has_active_subs (ses_forest s) \<or>
     has_seeding_sub_sessions (ses_forest s) \<or> list_ex (\<lambda>(_, rec). sn_status rec = AsRunning) (sub_sessions (ses_forest s))"

definition prepare_offload :: "nat \<Rightarrow> host \<Rightarrow> session_state \<Rightarrow> session_handled" where
  "prepare_offload caller h s =
     (if session_busy s then answer h caller (AvBool False)
      else (case stop_agents h of (h1, out) \<Rightarrow>
        (h1, out @ map (\<lambda>(r, rec). HibernateRuntime r (re_vendor (rt_env rec))) (ses_runtimes s)
           @ [AnswerCaller caller (AvBool True)], stop_effect)))"

definition delete_session :: "nat \<Rightarrow> host \<Rightarrow> session_state \<Rightarrow> session_handled" where
  "delete_session caller h s = (case stop_agents h of (h1, out) \<Rightarrow>
     (h1, cancel_in_flight h s @ out @ map (\<lambda>(r, rec). DeleteRuntime r (re_vendor (rt_env rec))) (ses_runtimes s)
        @ [ForgetAgentRuns, ForgetInbox, ReleaseArtifacts, AnswerCaller caller (AvUnit (Inr ()))], stop_effect))"

section \<open>Stopping\<close>

definition stop_target :: "session_io \<Rightarrow> session_state \<Rightarrow> string \<Rightarrow> agent_key option" where
  "stop_target i s sel =
     (if sel = MAIN_AGENT_ID then
        (case current_root_step_agent (ses_forest s) of Some step \<Rightarrow> Some (KeyStep step) | None \<Rightarrow> Some KeyMain)
      else Option.bind (sio_parse_uuid i sel) (agent_key_of (ses_forest s)))"

text \<open>What to journal for stopping an agent; \<open>None\<close> if it is not working.\<close>

definition stop_boundary :: "session_io \<Rightarrow> session_state \<Rightarrow> agent_key \<Rightarrow> session_event option" where
  "stop_boundary i s k = (case k of
     KeyMain \<Rightarrow> (case rf_root (ses_forest s) of
         None \<Rightarrow> None
       | Some a \<Rightarrow> if main_turn (ses_forest s) = Some PhRunning then Some (STurnStopped (sio_now i) a) else None)
   | KeyStep a \<Rightarrow> Option.bind (step_of_agent (ses_forest s) a) (\<lambda>(run, index).
       Option.bind (workflow_of (ses_forest s) run) (\<lambda>w.
         if run_current (wf_run w) = Some index then Some (StepCancelled (sio_now i) run index) else None))
   | KeySubSession a \<Rightarrow> Option.bind (sub_session_of (ses_forest s) a) (\<lambda>rec.
       if sn_status rec = AsRunning then Some (SubSessionTurnEnded (sio_now i) a TurnStopped) else None)
   | KeySub a \<Rightarrow> Option.bind (sub_of (ses_forest s) a) (\<lambda>rec.
       if su_status rec = SubRunning then Some (SubAgentFailed (sio_now i) a STOPPED_ERROR) else None))"

text \<open>Everything delegated under an agent: its running subagents and live runs, at every level.\<close>

definition cancel_entry :: "session_io \<Rightarrow> host \<Rightarrow> run_id \<Rightarrow> entry_state \<Rightarrow> session_out list \<times> session_event list" where
  "cancel_entry i h r st = (case st of
     ESub rec \<Rightarrow>
       if su_status rec = SubRunning
       then (cancel_agent h (KeySub r), [SubAgentFailed (sio_now i) r STOPPED_ERROR]) else ([], [])
   | EWorkflow w \<Rightarrow>
       if is_terminal (rn_status (wf_run w)) then ([], [])
       else (case run_current (wf_run w) of
           None \<Rightarrow> ([], [RunFailed (sio_now i) r STOPPED_ERROR])
         | Some index \<Rightarrow>
             ((case run_get (wf_run w) index of Some st \<Rightarrow> cancel_agent h (KeyStep (se_agent st)) | None \<Rightarrow> []),
              [StepCancelled (sio_now i) r index, RunFailed (sio_now i) r STOPPED_ERROR]))
   | ESubSession _ \<Rightarrow> ([], [])
   | EMain _ \<Rightarrow> ([], []))"

definition cancel_descendants :: "session_io \<Rightarrow> host \<Rightarrow> session_state \<Rightarrow> uuid \<Rightarrow> session_out list \<times> session_event list" where
  "cancel_descendants i h s a =
     (let cancelled = map (\<lambda>r. case forest_entry (ses_forest s) r of
            None \<Rightarrow> ([], []) | Some e \<Rightarrow> cancel_entry i h r (en_state e)) (descendant_entries (ses_forest s) a)
      in (concat (map fst cancelled), concat (map snd cancelled)))"

definition stop_turn :: "session_io \<Rightarrow> string \<Rightarrow> nat \<Rightarrow> host \<Rightarrow> session_state \<Rightarrow> session_handled" where
  "stop_turn i sel caller h s = (case stop_target i s sel of
     None \<Rightarrow> answer h caller (AvUnit (Inl (''no such agent: '' @ sel)))
   | Some k \<Rightarrow> (case stop_boundary i s k of
       None \<Rightarrow> answer h caller (AvUnit (Inr ()))
     | Some stopped \<Rightarrow>
         (let (out, evs) = (case k of
                KeySub a \<Rightarrow> cancel_descendants i h s a
              | KeyStep a \<Rightarrow> cancel_descendants i h s a
              | KeyMain \<Rightarrow> ([], [])
              | KeySubSession _ \<Rightarrow> ([], []))
          in before (cancel_agent h k @ [AnswerCaller caller (AvUnit (Inr ()))] @ out)
               (persist_and_advance i (evs @ [stopped]) h s))))"

section \<open>Messages\<close>

datatype builtin_command = CmdCompact | CmdFork | CmdSummaryFork

definition builtin :: "string \<Rightarrow> builtin_command option" where
  "builtin name =
     (if name = ''compact'' then Some CmdCompact else if name = ''fork'' then Some CmdFork
      else if name = ''summary-n-fork'' then Some CmdSummaryFork else None)"

text \<open>
  The token after the sigil and the rest. The code accepts a name of alphanumeric characters, dashes and
  underscores only; each built-in is such a name, so looking the token up answers as the code does.
\<close>

function name_token :: "string \<Rightarrow> string" where
  "name_token s = (if s = [] \<or> ws_front s \<noteq> 0 then [] else hd s # name_token (tl s))"
  by auto
termination by (relation "measure length") auto

declare name_token.simps [simp del]

definition builtin_invocation :: "string \<Rightarrow> (builtin_command \<times> string) option" where
  "builtin_invocation text = (case text of
     [] \<Rightarrow> None
   | c # rest \<Rightarrow>
       if c \<noteq> CHR ''/'' then None
       else (let name = name_token rest
             in map_option (\<lambda>b. (b, trim_start (drop (length name) rest))) (builtin name)))"

definition sub_session_request :: "string \<Rightarrow> (seed_mode \<times> string) option" where
  "sub_session_request text = (case builtin_invocation text of
     Some (CmdFork, args) \<Rightarrow> Some (SeedCopy, trim args)
   | Some (CmdSummaryFork, args) \<Rightarrow> Some (SeedSummary, trim args)
   | _ \<Rightarrow> None)"

definition TITLE_MAX_CHARS :: nat where "TITLE_MAX_CHARS = 60"

definition first_line :: "string \<Rightarrow> string" where
  "first_line text = takeWhile (\<lambda>c. c \<noteq> nl) text"

definition derive_title :: "string \<Rightarrow> string option" where
  "derive_title text =
     (let line = trim (first_line text); chars = utf8_chars line
      in if line = [] then None
         else if length chars \<le> TITLE_MAX_CHARS then Some line
         else Some (trim_end (concat (take TITLE_MAX_CHARS chars)) @ [CHR 0xE2, CHR 0x80, CHR 0xA6]))"

text \<open>A rename is asked of the supervisor; the title is this session's once the supervisor has recorded it.\<close>

definition rename_main_agent :: "session_io \<Rightarrow> string \<Rightarrow> session_out list \<times> (string + string)" where
  "rename_main_agent i title = (case sio_rename i title of
     Inl err \<Rightarrow> ([], Inl err)
   | Inr _ \<Rightarrow> ([PublishTitle title], Inr title))"

definition title_from_first_message :: "session_io \<Rightarrow> session_state \<Rightarrow> string \<Rightarrow> session_out list \<times> session_event list" where
  "title_from_first_message i s text =
     (if main_title (ses_forest s) \<noteq> None then ([], [])
      else case derive_title text of
          None \<Rightarrow> ([], [])
        | Some title \<Rightarrow> (case rename_main_agent i title of
            (out, Inr name) \<Rightarrow> (out, [SRenamed name]) | (out, Inl _) \<Rightarrow> (out, [])))"

definition message_item :: "session_io \<Rightarrow> string \<Rightarrow> artifact_ref list \<Rightarrow> incoming" where
  "message_item i text artifacts = (case builtin_invocation (trim text) of
     Some (CmdCompact, args) \<Rightarrow> IncCompact (sio_item i) (if trim args = [] then None else Some (trim args))
   | _ \<Rightarrow> IncUser (sio_item i) text artifacts)"

definition user_message ::
    "session_io \<Rightarrow> string option \<Rightarrow> string \<Rightarrow> artifact_ref list \<Rightarrow> nat \<Rightarrow> host \<Rightarrow> session_state \<Rightarrow> session_handled" where
  "user_message i sel text artifacts caller h s =
     (case ses_fatal s of
        Some reason \<Rightarrow> answer h caller (AvMessage (Inl (UeUnrecoverable reason)))
      | None \<Rightarrow>
          if Option.bind (ho_spec h) spec_workflow_run \<noteq> None \<and> (sel = None \<or> sel = Some MAIN_AGENT_ID)
          then answer h caller (AvMessage (Inl (UeRejected
                 ''this session is a workflow run; name a step agent to message it'')))
          else case resolve_agent i h s sel of
              None \<Rightarrow> answer h caller (AvMessage (Inl UeNotFound))
            | Some (k, a, h1, out) \<Rightarrow> (case sub_session_request (trim text) of
                Some (sd, msg) \<Rightarrow>
                  (h1, out @ [CreateSubSessionFor (key_id h k) sd msg
                     (case derive_title msg of Some t \<Rightarrow> t | None \<Rightarrow> ''Sub session'') caller], sfx_none)
              | None \<Rightarrow>
                  (case title_from_first_message i s text of (tout, titled) \<Rightarrow>
                     before (out @ tout @ [ForwardMessage a (message_item i text artifacts) caller]
                        @ (case provisioning_for s (ho_id h) of
                             Some (ProvFailed _ _) \<Rightarrow> [SelfSend (Provision (ho_id h) None)] | _ \<Rightarrow> []))
                       (persist_and_advance i titled h1 s))))"

definition answer_agent ::
    "session_io \<Rightarrow> string option \<Rightarrow> ask_answer list \<Rightarrow> nat \<Rightarrow> host \<Rightarrow> session_state \<Rightarrow> session_handled" where
  "answer_agent i sel answers caller h s = (case resolve_agent i h s sel of
     None \<Rightarrow> answer h caller AvNothingPending
   | Some (_, a, h1, out) \<Rightarrow> (h1, out @ [ForwardAnswer a answers caller], sfx_none))"

end
