(* ===== verification/Session_Boundary.thy ===== *)
theory Session_Boundary
  imports Session_Invariant Session_Handlers
begin

text \<open>
  The turn boundary: the events a flush journals, that they keep the session's invariant, and that a flush
  is over long before its rounds are. The agent of a run's next step is a name nothing else has.
\<close>

section \<open>The names of steps\<close>

definition steps_of :: "run_forest \<Rightarrow> run_id \<Rightarrow> nat" where
  "steps_of f run = (case workflow_of f run of Some w \<Rightarrow> length (rn_steps (wf_run w)) | None \<Rightarrow> 0)"

text \<open>An id no step's agent will ever be given.\<close>

definition minted :: "(uuid \<Rightarrow> nat \<Rightarrow> uuid) \<Rightarrow> uuid \<Rightarrow> bool" where
  "minted agent_of i \<longleftrightarrow> (\<forall>run n. agent_of run n \<noteq> i)"

definition names_fresh :: "(uuid \<Rightarrow> nat \<Rightarrow> uuid) \<Rightarrow> run_forest \<Rightarrow> bool" where
  "names_fresh agent_of f \<longleftrightarrow> (\<forall>run n run' n'. agent_of run n = agent_of run' n' \<longrightarrow> run = run' \<and> n = n') \<and>
     (\<forall>run n. steps_of f run \<le> n \<longrightarrow> unused f (agent_of run n)) \<and>
     (\<forall>i e. bt_get (rf_entries f) i = Some e \<longrightarrow> minted agent_of i \<and>
        (\<forall>p. en_parent e = Some p \<longrightarrow> is_work (en_state e) \<or> minted agent_of p))"

lemma names_freshD:
  "names_fresh agent_of f \<Longrightarrow> steps_of f run \<le> n \<Longrightarrow> unused f (agent_of run n)"
  "names_fresh agent_of f \<Longrightarrow> agent_of run n = agent_of run' n' \<Longrightarrow> run = run' \<and> n = n'"
  "names_fresh agent_of f \<Longrightarrow> bt_get (rf_entries f) i = Some e \<Longrightarrow> minted agent_of i"
  "names_fresh agent_of f \<Longrightarrow> bt_get (rf_entries f) i = Some e \<Longrightarrow> en_parent e = Some p \<Longrightarrow> \<not> is_work (en_state e) \<Longrightarrow> minted agent_of p"
  unfolding names_fresh_def by blast+

lemma names_freshI:
  assumes "\<And>run n run' n'. agent_of run n = agent_of run' n' \<Longrightarrow> run = run' \<and> n = n'"
    and "\<And>run n. steps_of f run \<le> n \<Longrightarrow> unused f (agent_of run n)"
    and "\<And>i e. bt_get (rf_entries f) i = Some e \<Longrightarrow> minted agent_of i"
    and "\<And>i e p. bt_get (rf_entries f) i = Some e \<Longrightarrow> en_parent e = Some p \<Longrightarrow> \<not> is_work (en_state e) \<Longrightarrow> minted agent_of p"
  shows "names_fresh agent_of f"
  using assms unfolding names_fresh_def by blast

lemma unused_on_entry:
  assumes "\<And>st. hosted_by i (h st) = hosted_by i st"
  shows "unused (on_entry i h f) a \<longleftrightarrow> unused f a"
  using assms unfolding unused_def on_entry_get on_entry_sels by (auto split: if_splits)

lemma steps_of_on_entry:
  assumes "\<And>st. keeps_entry agent_of i st (h st)"
  shows "steps_of (on_entry i h f) run = steps_of f run"
proof -
  have "length (hosted_by i (h st)) = length (hosted_by i st)" "is_workflow (h st) = is_workflow st" for st
    using assms [of st] by (simp_all add: keeps_entry_def)
  moreover have "(case as_workflow st of Some w \<Rightarrow> length (rn_steps (wf_run w)) | None \<Rightarrow> 0) =
      (if is_workflow st then length (hosted_by i st) else 0)" for st
    by (cases st) (simp_all add: as_workflow_def hosted_by_def is_workflow_def)
  ultimately have "(case as_workflow (h st) of Some w \<Rightarrow> length (rn_steps (wf_run w)) | None \<Rightarrow> 0) =
      (case as_workflow st of Some w \<Rightarrow> length (rn_steps (wf_run w)) | None \<Rightarrow> 0)" for st
    by simp
  then show ?thesis
    by (cases "bt_get (rf_entries f) run") (auto simp: steps_of_def workflow_of_def on_entry_get)
qed

lemma names_fresh_on_entry:
  assumes "names_fresh agent_of f" "\<And>st. keeps_entry agent_of i st (h st)"
  shows "names_fresh agent_of (on_entry i h f)"
proof (rule names_freshI)
  have keep: "hosted_by i (h st) = hosted_by i st" "is_work (h st) = is_work st" for st
    using assms(2) by (simp_all add: keeps_entry_def)
  fix run n assume "steps_of (on_entry i h f) run \<le> n"
  then show "unused (on_entry i h f) (agent_of run n)"
    using names_freshD(1) [OF assms(1)] by (simp add: steps_of_on_entry [OF assms(2)] unused_on_entry keep)
next
  have keep: "is_work (h st) = is_work st" for st
    using assms(2) by (simp add: keeps_entry_def)
  fix k e assume e: "bt_get (rf_entries (on_entry i h f)) k = Some e"
  then obtain e0 where e0: "bt_get (rf_entries f) k = Some e0" "en_parent e0 = en_parent e" "is_work (en_state e0) = is_work (en_state e)"
    using keep by (auto simp: on_entry_get split: if_splits)
  show "minted agent_of k" using names_freshD(3) [OF assms(1) e0(1)] .
  show "en_parent e = Some p \<Longrightarrow> \<not> is_work (en_state e) \<Longrightarrow> minted agent_of p" for p
    using names_freshD(4) [OF assms(1) e0(1)] e0(2,3) by simp
qed (rule names_freshD(2) [OF assms(1)])

text \<open>An event that brings no one and takes no one.\<close>

definition settling :: "session_event \<Rightarrow> bool" where
  "settling ev \<longleftrightarrow> (case ev of SpecRecorded _ _ _ \<Rightarrow> False | SubAgentSpawned _ _ _ _ _ _ \<Rightarrow> False | RunCreated _ _ _ _ \<Rightarrow> False
     | SubSessionCreated _ _ _ _ _ _ _ _ \<Rightarrow> False | StepStarted _ _ _ _ _ _ _ _ _ \<Rightarrow> False | AgentDeleted _ _ \<Rightarrow> False | _ \<Rightarrow> True)"

lemma settling_forest:
  assumes "settling ev"
  obtains "ses_forest (session_apply s ev) = ses_forest s"
  | i h where "ses_forest (session_apply s ev) = on_entry i h (ses_forest s)" "\<And>st. keeps_entry agent_of i st (h st)"
proof -
  have mut: "\<exists>i h. main_mut k gm (ses_forest s) = on_entry i h (ses_forest s) \<and> (\<forall>st. keeps_entry agent_of i st (h st))"
    "\<exists>i h. sub_mut k gs (ses_forest s) = on_entry i h (ses_forest s) \<and> (\<forall>st. keeps_entry agent_of i st (h st))"
    "\<exists>i h. sub_session_mut k gn (ses_forest s) = on_entry i h (ses_forest s) \<and> (\<forall>st. keeps_entry agent_of i st (h st))" for k gm gs gn
    unfolding main_mut_def sub_mut_def sub_session_mut_def
    by (rule exI, rule exI, rule conjI [OF refl], rule allI, rule keeps_simps)+
  have run: "\<exists>i h. workflow_mut k gw (ses_forest s) = on_entry i h (ses_forest s) \<and> (\<forall>st. keeps_entry agent_of i st (h st))"
    if "\<And>w. map se_agent (rn_steps (wf_run (gw w))) = map se_agent (rn_steps (wf_run w))"
      "\<And>w. run_inv agent_of k (wf_graph w) (wf_run w) \<Longrightarrow> run_inv agent_of k (wf_graph (gw w)) (wf_run (gw w))" for k gw
    unfolding workflow_mut_def using keeps_workflow [OF that] by blast
  have asked: "apply_asked a (ses_forest s) = ses_forest s \<or>
      (\<exists>i h. apply_asked a (ses_forest s) = on_entry i h (ses_forest s) \<and> (\<forall>st. keeps_entry agent_of i st (h st)))" for a
  proof (cases "bt_get (rf_agents (ses_forest s)) a")
    case (Some i)
    then show ?thesis
      by (intro disjI2 exI [of _ i] exI conjI) (simp add: apply_asked_def,
        auto simp: keeps_entry_def hosted_by_def is_work_def is_main_def is_workflow_def run_inv_simps(4) split: entry_state.split)
  qed (simp add: apply_asked_def)
  have point: "\<exists>i h. point_at_runtime k rt (ses_forest s) = on_entry i h (ses_forest s) \<and> (\<forall>st. keeps_entry agent_of i st (h st))" for k rt
    unfolding point_at_runtime_def
    by (rule exI, rule exI, rule conjI [OF refl])
      (auto simp: keeps_entry_def hosted_by_def is_work_def is_main_def is_workflow_def split: entry_state.split)
  have title: "apply_main_titled t (ses_forest s) = ses_forest s \<or>
      (\<exists>i h. apply_main_titled t (ses_forest s) = on_entry i h (ses_forest s) \<and> (\<forall>st. keeps_entry agent_of i st (h st)))" for t
    using mut(1) by (simp add: apply_main_titled_def split: option.split)
  have "ses_forest (session_apply s ev) = ses_forest s \<or>
      (\<exists>i h. ses_forest (session_apply s ev) = on_entry i h (ses_forest s) \<and> (\<forall>st. keeps_entry agent_of i st (h st)))"
    using assms asked point title
    by (cases ev) (auto simp: settling_def session_apply_def lifecycle_apply_def turns_apply_def runs_apply_def subs_apply_def
      sub_sessions_apply_def core_apply_def on_forest_def on_runtime_def Let_def
      apply_turn_began_def apply_turn_idle_def apply_turn_failed_def apply_sub_running_def apply_sub_completed_def
      apply_sub_failed_def apply_sub_notified_def apply_sub_session_seeded_def apply_sub_session_status_def
      apply_step_concluded_def apply_step_failed_def apply_step_cancelled_def apply_run_finished_def
      apply_run_failed_def apply_run_notified_def run_inv_simps intro!: mut run disjI2)
  then show ?thesis using that by blast
qed

lemma settling_names:
  assumes "settling ev" "names_fresh agent_of (ses_forest s)"
  shows "names_fresh agent_of (ses_forest (session_apply s ev))"
  by (rule settling_forest [OF assms(1), where s = s and agent_of = agent_of])
    (use names_fresh_on_entry [OF assms(2)] assms(2) in auto)

lemma session_apply_told: "ses_spec s \<noteq> None \<Longrightarrow> ses_spec (session_apply s ev) \<noteq> None"
  by (cases ev) (simp_all add: session_apply_def lifecycle_apply_def turns_apply_def runs_apply_def subs_apply_def
    sub_sessions_apply_def core_apply_def on_forest_def on_runtime_def Let_def)

lemma step_started_names:
  assumes ok: "names_fresh agent_of f" "forest_wf f" and w: "workflow_of f run = Some w"
    and agent: "agent = agent_of run (length (rn_steps (wf_run w)))"
  shows "names_fresh agent_of (apply_step_started run step agent attempt from via inp at f)"
proof (rule names_freshI)
  let ?f = "apply_step_started run step agent attempt from via inp at f"
  obtain e where e: "bt_get (rf_entries f) run = Some e" "en_state e = EWorkflow w" using w by (auto simp: workflow_of_iff)
  have steps: "steps_of ?f r = steps_of f r + (if r = run then 1 else 0)" for r
    using e by (auto simp: steps_of_def workflow_of_def step_started_get as_workflow_def)
  fix r n assume n: "steps_of ?f r \<le> n"
  then have "unused f (agent_of r n)" using names_freshD(1) [OF ok(1)] steps by simp
  moreover have "agent_of r n \<noteq> agent"
    using names_freshD(2) [OF ok(1), of r n run] n steps [of r] w agent by (auto simp: steps_of_def split: if_splits)
  moreover from calculation(1) e have "agent_of r n \<notin> se_agent ` set (rn_steps (wf_run w))" "agent_of r n \<noteq> run"
    by (fastforce simp: unused_def hosted_by_def)+
  ultimately show "unused ?f (agent_of r n)"
    using e by (auto simp: unused_def step_started_get hosted_by_def split: if_splits)
next
  obtain e where e: "bt_get (rf_entries f) run = Some e" "en_state e = EWorkflow w" using w by (auto simp: workflow_of_iff)
  fix k e' assume "bt_get (rf_entries (apply_step_started run step agent attempt from via inp at f)) k = Some e'"
  then obtain e0 where e0: "bt_get (rf_entries f) k = Some e0" "en_parent e0 = en_parent e'" "is_work (en_state e0) = is_work (en_state e')"
    using e by (auto simp: step_started_get is_work_def split: if_splits)
  show "minted agent_of k" using names_freshD(3) [OF ok(1) e0(1)] .
  show "en_parent e' = Some p \<Longrightarrow> \<not> is_work (en_state e') \<Longrightarrow> minted agent_of p" for p
    using names_freshD(4) [OF ok(1) e0(1)] e0(2,3) by simp
qed (rule names_freshD(2) [OF ok(1)])

section \<open>What an action journals\<close>

text \<open>The graph and the log of a run, which is all its driver looks at.\<close>

definition run_log :: "run_forest \<Rightarrow> run_id \<Rightarrow> (run_spec \<times> run_state) option" where
  "run_log f r = map_option (\<lambda>w. (wf_graph w, wf_run w)) (workflow_of f r)"

definition log_step :: "run_id \<Rightarrow> (run_state \<Rightarrow> run_state) \<Rightarrow> run_forest \<Rightarrow> run_id \<Rightarrow> (run_spec \<times> run_state) option" where
  "log_step k g f = (run_log f)(k := map_option (apsnd g) (run_log f k))"

lemma run_log_sub_mut: "run_log (sub_mut k gs f) = run_log f"
proof
  fix r
  show "run_log (sub_mut k gs f) r = run_log f r"
    by (cases "bt_get (rf_entries f) k")
      (auto simp: run_log_def sub_mut_def workflow_of_def on_entry_get as_workflow_def split: entry_state.split)
qed

lemma run_log_workflow_mut:
  assumes "\<And>w. wf_graph (gw w) = wf_graph w" "\<And>w. wf_run (gw w) = g (wf_run w)"
  shows "run_log (workflow_mut k gw f) = log_step k g f"
proof
  fix r
  show "run_log (workflow_mut k gw f) r = log_step k g f r"
    using assms by (cases "bt_get (rf_entries f) k")
      (auto simp: run_log_def log_step_def workflow_mut_def workflow_of_def on_entry_get as_workflow_def split: entry_state.split)
qed

lemma run_log_host [simp]: "run_log (host_agent a k f) = run_log f"
  by (simp add: fun_eq_iff run_log_def workflow_of_def host_agent_def)

lemma log_step_id [simp]: "log_step k (\<lambda>r. r) f = run_log f"
  by (cases "run_log f k") (auto simp: log_step_def fun_eq_iff)

lemma run_log_events:
  "run_log (ses_forest (session_apply s (SubAgentNotified at k))) = run_log (ses_forest s)"
  "run_log (ses_forest (session_apply s (RunNotified at k))) = run_log (ses_forest s)"
  "run_log (ses_forest (session_apply s (SRunFinished at k out))) = log_step k (run_finished out) (ses_forest s)"
  "run_log (ses_forest (session_apply s (RunFailed at k err))) = log_step k (run_failed err) (ses_forest s)"
  "run_log (ses_forest (session_apply s (StepStarted at k index step agent attempt from via inp))) =
     log_step k (run_started step agent attempt from via inp at) (ses_forest s)"
  by (simp_all add: session_apply_def subs_apply_def runs_apply_def on_forest_def apply_sub_notified_def apply_run_notified_def
      apply_run_finished_def apply_run_failed_def apply_step_started_def run_log_sub_mut run_log_workflow_mut
      run_log_workflow_mut [where g = "\<lambda>r. r"])

definition act_run :: "agent_action \<Rightarrow> run_id option" where
  "act_run a = (case a of StartStep p \<Rightarrow> Some (sp_run p) | FinishRun r _ \<Rightarrow> Some r | FailRun r _ \<Rightarrow> Some r | DeliverResult _ \<Rightarrow> None)"

lemma step_actions_run: "a \<in> set (step_actions agent_of show_json run spec r) \<Longrightarrow> act_run a = Some run"
  by (auto simp: step_actions_def act_run_def start_action_def Let_def split: if_splits option.splits prod.splits)

text \<open>An action the driver asks for on the present log.\<close>

definition enabled :: "session_io \<Rightarrow> run_forest \<Rightarrow> agent_action \<Rightarrow> bool" where
  "enabled i f a \<longleftrightarrow> (case act_run a of None \<Rightarrow> True
     | Some k \<Rightarrow> (\<exists>spec r. run_log f k = Some (spec, r) \<and> a \<in> set (step_actions (sio_step_agent i) (sio_show_json i) k spec r)))"

definition quiescent :: "session_io \<Rightarrow> run_forest \<Rightarrow> run_id \<Rightarrow> bool" where
  "quiescent i f k \<longleftrightarrow> (\<forall>spec r. run_log f k = Some (spec, r) \<longrightarrow> step_actions (sio_step_agent i) (sio_show_json i) k spec r = [])"

lemma no_step_actions:
  "step_actions agent_of show_json run spec (run_finished out r) = []"
  "step_actions agent_of show_json run spec (run_failed err r) = []"
  "step_actions agent_of show_json run spec (run_started step agent attempt from via inp at r) = []"
proof -
  have "run_current (run_started step agent attempt from via inp at r) \<noteq> None" by (simp add: run_current_None)
  then show "step_actions agent_of show_json run spec (run_started step agent attempt from via inp at r) = []"
    by (simp add: step_actions_def)
qed (simp_all add: step_actions_def is_terminal_def run_finished_def run_failed_def)

text \<open>One event per action, none only for a delivery nobody could be handed.\<close>

lemma perform_action_events:
  assumes "perform_action i a h s = (h', out, evs)"
  shows "(\<exists>d. a = DeliverResult d \<and> (evs = [] \<or> evs = [SubAgentNotified (sio_now i) (dv_child d)] \<or> evs = [RunNotified (sio_now i) (dv_child d)])) \<or>
    (\<exists>p. a = StartStep p \<and> (evs = [StepStarted (sio_now i) (sp_run p) (sp_index p) (sp_step p) (sp_agent p) (sp_attempt p) (sp_from p) (sp_via p) (sp_input p)]
       \<or> (\<exists>err. evs = [RunFailed (sio_now i) (sp_run p) err]))) \<or>
    (\<exists>r out. a = FinishRun r out \<and> evs = [SRunFinished (sio_now i) r out]) \<or>
    (\<exists>r err. a = FailRun r err \<and> evs = [RunFailed (sio_now i) r err])"
  using assms by (cases a) (auto simp: perform_action_def deliver_def start_step_def split: option.splits if_splits entry_state.splits)

text \<open>What the actions of a boundary rest on: the invariant, the names, and that the session has been told what it is.\<close>

definition boundary_ok :: "(uuid \<Rightarrow> nat \<Rightarrow> uuid) \<Rightarrow> uuid \<Rightarrow> session_state \<Rightarrow> bool" where
  "boundary_ok agent_of j s \<longleftrightarrow> session_inv agent_of j s \<and> names_fresh agent_of (ses_forest s) \<and> ses_spec s \<noteq> None"

lemma settling_ok: "ses_spec s \<noteq> None \<Longrightarrow> settling ev \<Longrightarrow>
    (\<forall>at r owner env. ev \<noteq> RuntimeRequested at r owner env) \<Longrightarrow> sound_event agent_of j s ev"
  by (cases ev) (auto simp: settling_def sound_event_def)

lemma boundary_ok_apply:
  assumes "boundary_ok agent_of j s" "settling ev" "sound_event agent_of j s ev"
  shows "boundary_ok agent_of j (session_apply s ev)"
  using assms session_apply_told [of s ev] by (simp add: boundary_ok_def session_apply_inv settling_names)

lemma started_ok:
  assumes ok: "boundary_ok (sio_step_agent i) j s" and en: "enabled i (ses_forest s) (StartStep p)"
  shows "sound_event (sio_step_agent i) j s (StepStarted at (sp_run p) (sp_index p) (sp_step p) (sp_agent p) (sp_attempt p) (sp_from p) (sp_via p) (sp_input p))"
    "boundary_ok (sio_step_agent i) j (session_apply s (StepStarted at (sp_run p) (sp_index p) (sp_step p) (sp_agent p) (sp_attempt p) (sp_from p) (sp_via p) (sp_input p)))"
proof -
  let ?g = "sio_step_agent i" and ?ev = "StepStarted at (sp_run p) (sp_index p) (sp_step p) (sp_agent p) (sp_attempt p) (sp_from p) (sp_via p) (sp_input p)"
  from en obtain w where w: "workflow_of (ses_forest s) (sp_run p) = Some w"
    "StartStep p \<in> set (step_actions ?g (sio_show_json i) (sp_run p) (wf_graph w) (wf_run w))"
    by (auto simp: enabled_def act_run_def run_log_def)
  have b: "session_inv ?g j s" "names_fresh ?g (ses_forest s)" "ses_spec s \<noteq> None" using ok by (simp_all add: boundary_ok_def)
  have inv: "forest_inv ?g j (ses_forest s)" by (rule session_invD(1) [OF b(1)])
  have agent: "sp_agent p = ?g (sp_run p) (length (rn_steps (wf_run w)))" using step_actions_start(4) [OF w(2)] .
  have "unused (ses_forest s) (sp_agent p)" using names_freshD(1) [OF b(2), of "sp_run p"] agent w(1) by (simp add: steps_of_def)
  moreover have "run_inv ?g (sp_run p) (wf_graph w) (perform at (StartStep p) (wf_run w))"
    by (rule perform_run_inv [OF runs_okD [OF forest_invD(2) [OF inv] w(1)] w(2)])
  ultimately show 1: "sound_event ?g j s ?ev" using b(3) w(1) by (simp add: sound_event_def perform_def)
  have "ses_forest (session_apply s ?ev) = apply_step_started (sp_run p) (sp_step p) (sp_agent p) (sp_attempt p) (sp_from p) (sp_via p) (sp_input p) at (ses_forest s)"
    by (simp add: session_apply_def runs_apply_def on_forest_def)
  with step_started_names [OF b(2) forest_invD(1) [OF inv] w(1) agent] session_apply_inv [OF b(1) 1] session_apply_told [OF b(3)]
  show "boundary_ok ?g j (session_apply s ?ev)" by (simp add: boundary_ok_def)
qed

lemma perform_action_ok:
  assumes ok: "boundary_ok (sio_step_agent i) j s" and en: "enabled i (ses_forest s) a"
    and act: "perform_action i a h s = (h', out, evs)"
  shows "sound_events (sio_step_agent i) j s evs \<and> boundary_ok (sio_step_agent i) j (session_folds s evs)"
proof -
  have told: "ses_spec s \<noteq> None" using ok by (simp add: boundary_ok_def)
  have one: "sound_events (sio_step_agent i) j s [ev] \<and> boundary_ok (sio_step_agent i) j (session_folds s [ev])"
    if "settling ev" "\<forall>at r owner env. ev \<noteq> RuntimeRequested at r owner env" for ev
    using settling_ok [OF told that, of "sio_step_agent i" j] boundary_ok_apply [OF ok that(1)] by simp
  from perform_action_events [OF act] show ?thesis
  proof (elim disjE exE conjE)
    fix p assume "a = StartStep p" "evs = [StepStarted (sio_now i) (sp_run p) (sp_index p) (sp_step p) (sp_agent p) (sp_attempt p) (sp_from p) (sp_via p) (sp_input p)]"
    then show ?thesis using started_ok [OF ok, of p "sio_now i"] en by simp
  qed (use one ok in \<open>auto simp: settling_def\<close>)
qed

section \<open>A round\<close>

lemma perform_action_log:
  assumes "perform_action i a h s = (h', out, evs)" "enabled i (ses_forest s) a"
  shows "act_run a \<noteq> Some k \<Longrightarrow> run_log (ses_forest (session_folds s evs)) k = run_log (ses_forest s) k"
    and "act_run a = Some k \<Longrightarrow> quiescent i (ses_forest (session_folds s evs)) k"
  using perform_action_events [OF assms(1)] assms(2)
  by (auto simp: act_run_def run_log_events log_step_def quiescent_def no_step_actions enabled_def)

lemma perform_all_ok:
  assumes "boundary_ok (sio_step_agent i) j s" "\<And>a. a \<in> set acts \<Longrightarrow> enabled i (ses_forest s) a"
    "distinct (List.map_filter act_run acts)" "perform_all i acts h s = (h', s', out, evs)"
  shows "sound_events (sio_step_agent i) j s evs \<and> boundary_ok (sio_step_agent i) j s' \<and> s' = session_folds s evs \<and>
    (\<forall>k. k \<in> set (List.map_filter act_run acts) \<longrightarrow> quiescent i (ses_forest s') k) \<and>
    (\<forall>k. k \<notin> set (List.map_filter act_run acts) \<longrightarrow> run_log (ses_forest s') k = run_log (ses_forest s) k)"
  using assms
proof (induction acts arbitrary: h s h' s' out evs)
  case Nil
  then show ?case by (simp add: map_filter_simps)
next
  case (Cons a acts)
  obtain h1 out1 evs1 where a: "perform_action i a h s = (h1, out1, evs1)" by (metis prod_cases3)
  obtain h2 s2 out2 evs2 where rest: "perform_all i acts h1 (session_folds s evs1) = (h2, s2, out2, evs2)" by (metis prod_cases4)
  have res: "s' = s2" "evs = evs1 @ evs2" using Cons.prems(4) a rest by simp_all
  have en: "enabled i (ses_forest s) a" using Cons.prems(2) by simp
  note ok1 = perform_action_ok [OF Cons.prems(1) en a]
  note log1 = perform_action_log [OF a en]
  have keys: "List.map_filter act_run (a # acts) = (case act_run a of Some k \<Rightarrow> k # List.map_filter act_run acts | None \<Rightarrow> List.map_filter act_run acts)"
    by (simp add: map_filter_simps split: option.split)
  have other: "act_run a \<noteq> Some k" if "b \<in> set acts" "act_run b = Some k" for b k
    using that Cons.prems(3) unfolding keys by (auto simp: set_map_filter split: option.splits)
  have "enabled i (ses_forest (session_folds s evs1)) b" if "b \<in> set acts" for b
    using Cons.prems(2) [of b] that other [OF that] log1(1) unfolding enabled_def by (auto split: option.splits)
  moreover have "distinct (List.map_filter act_run acts)" using Cons.prems(3) unfolding keys by (auto split: option.splits)
  ultimately have IH: "sound_events (sio_step_agent i) j (session_folds s evs1) evs2 \<and> boundary_ok (sio_step_agent i) j s2 \<and>
      s2 = session_folds (session_folds s evs1) evs2 \<and>
      (\<forall>k. k \<in> set (List.map_filter act_run acts) \<longrightarrow> quiescent i (ses_forest s2) k) \<and>
      (\<forall>k. k \<notin> set (List.map_filter act_run acts) \<longrightarrow> run_log (ses_forest s2) k = run_log (ses_forest (session_folds s evs1)) k)"
    using Cons.IH [OF _ _ _ rest] ok1 by blast
  have first: "quiescent i (ses_forest s2) k" if "act_run a = Some k" for k
  proof -
    have "k \<notin> set (List.map_filter act_run acts)" using that Cons.prems(3) unfolding keys by simp
    then have "run_log (ses_forest s2) k = run_log (ses_forest (session_folds s evs1)) k" using IH by blast
    then show ?thesis using log1(2) [OF that] unfolding quiescent_def by metis
  qed
  show ?case
    using IH ok1 first log1(1) unfolding res keys by (auto split: option.split)
qed

lemma workflows_mem: "bt_wf (rf_entries f) \<Longrightarrow> (k, w) \<in> set (workflows f) \<longleftrightarrow> workflow_of f k = Some w"
  unfolding workflows_def entries_of_def workflow_of_iff
  using mem_map_filter_keys [of k w "\<lambda>_ e. as_workflow (en_state e)" "rf_entries f"] by (simp add: bt_get_iff)

lemma workflows_distinct: "bt_wf (rf_entries f) \<Longrightarrow> distinct (map fst (workflows f))"
  unfolding workflows_def entries_of_def by (rule distinct_map_filter_keys [OF bt_wf_distinct])

lemma owed_no_run: "List.map_filter act_run (owed_deliveries show_json f) = []"
  by (auto simp: List.map_filter_def owed_deliveries_def filter_empty_conv act_run_def)

lemma run_actions_runs:
  assumes "distinct (map fst ws)"
  shows "distinct (List.map_filter act_run (concat (map (\<lambda>(run, w). step_actions g sh run (wf_graph w) (wf_run w)) ws)))"
  using assms
proof (induction ws)
  case (Cons x ws)
  obtain run w where x: "x = (run, w)" by (cases x)
  let ?acts = "step_actions g sh run (wf_graph w) (wf_run w)"
  let ?rest = "concat (map (\<lambda>(run, w). step_actions g sh run (wf_graph w) (wf_run w)) ws)"
  have "set (List.map_filter act_run ?rest) \<subseteq> fst ` set ws"
    by (force simp: set_map_filter dest: step_actions_run)
  moreover have "set (List.map_filter act_run ?acts) \<subseteq> {run}"
    by (auto simp: set_map_filter dest: step_actions_run)
  moreover have "distinct (List.map_filter act_run ?acts)"
    using step_actions_one [of g sh run "wf_graph w" "wf_run w"]
    by (cases ?acts) (auto simp: map_filter_simps split: option.split)
  ultimately show ?case using Cons x by (auto simp: map_filter_append)
qed (simp add: map_filter_simps)

lemma next_actions_ok:
  assumes "forest_wf (ses_forest s)"
  shows "a \<in> set (next_actions i h s) \<Longrightarrow> enabled i (ses_forest s) a" "distinct (List.map_filter act_run (next_actions i h s))"
proof -
  have wf: "bt_wf (rf_entries (ses_forest s))" using assms by (simp add: forest_wf_def)
  show "distinct (List.map_filter act_run (next_actions i h s))"
    using run_actions_runs [OF workflows_distinct [OF wf]]
    by (simp add: next_actions_def run_actions_def map_filter_append owed_no_run map_filter_simps)
  assume a: "a \<in> set (next_actions i h s)"
  show "enabled i (ses_forest s) a"
  proof (cases "a \<in> set (run_actions i s)")
    case True
    then obtain run w where w: "(run, w) \<in> set (workflows (ses_forest s))"
      "a \<in> set (step_actions (sio_step_agent i) (sio_show_json i) run (wf_graph w) (wf_run w))"
      by (auto simp: run_actions_def)
    then show ?thesis using step_actions_run [OF w(2)] by (simp add: enabled_def run_log_def workflows_mem [OF wf])
  next
    case False
    then have "act_run a = None" using a owed_no_run [of "sio_show_json i" "ses_forest s"]
      by (cases "act_run a") (auto simp: next_actions_def List.map_filter_def filter_empty_conv split: if_splits)
    then show ?thesis by (simp add: enabled_def)
  qed
qed

text \<open>After one round of a session that is ready no run has anything left to start.\<close>

lemma round_ok:
  assumes ok: "boundary_ok (sio_step_agent i) j s" and p: "perform_all i (next_actions i h s) h s = (h', s', out, evs)"
  shows "sound_events (sio_step_agent i) j s evs" "boundary_ok (sio_step_agent i) j s'" "s' = session_folds s evs"
    "ready_on (session_runtime h s) \<Longrightarrow> run_actions i s' = []"
proof -
  have wf: "forest_wf (ses_forest s)" using ok session_invD(1) forest_invD(1) unfolding boundary_ok_def by blast
  note all = perform_all_ok [OF ok next_actions_ok(1) [OF wf, where h = h] next_actions_ok(2) [OF wf] p]
  show res: "sound_events (sio_step_agent i) j s evs" "boundary_ok (sio_step_agent i) j s'" "s' = session_folds s evs"
    using all by blast+
  have wf': "bt_wf (rf_entries (ses_forest s'))"
    using res(2) session_invD(1) forest_invD(1) unfolding boundary_ok_def forest_wf_def by blast
  assume ready: "ready_on (session_runtime h s)"
  have q: "quiescent i (ses_forest s') k" for k
  proof (cases "k \<in> set (List.map_filter act_run (next_actions i h s))")
    case True
    then show ?thesis using all by blast
  next
    case False
    have "step_actions (sio_step_agent i) (sio_show_json i) k (wf_graph w) (wf_run w) = []" if w: "workflow_of (ses_forest s) k = Some w" for w
    proof (rule ccontr)
      assume "step_actions (sio_step_agent i) (sio_show_json i) k (wf_graph w) (wf_run w) \<noteq> []"
      then obtain a where a: "a \<in> set (step_actions (sio_step_agent i) (sio_show_json i) k (wf_graph w) (wf_run w))"
        using list.set_sel(1) by blast
      have "(k, w) \<in> set (workflows (ses_forest s))" using w wf by (simp add: workflows_mem forest_wf_def)
      then have "a \<in> set (next_actions i h s)" using a ready by (force simp: next_actions_def run_actions_def)
      then show False using False step_actions_run [OF a] by (force simp: set_map_filter)
    qed
    moreover have "run_log (ses_forest s') k = run_log (ses_forest s) k" using all False by blast
    ultimately show ?thesis by (auto simp: quiescent_def run_log_def)
  qed
  then show "run_actions i s' = []"
    by (auto simp: run_actions_def quiescent_def run_log_def workflows_mem [OF wf'])
qed

lemma flush_ok:
  assumes "boundary_ok (sio_step_agent i) j s" "flush_rounds i n h s = (h', s', out, evs)"
  shows "sound_events (sio_step_agent i) j s evs \<and> boundary_ok (sio_step_agent i) j s' \<and> s' = session_folds s evs"
  using assms
proof (induction n arbitrary: h s h' s' out evs)
  case (Suc n)
  obtain h1 s1 out1 evs1 where one: "perform_all i (next_actions i h s) h s = (h1, s1, out1, evs1)" by (metis prod_cases4)
  note r = round_ok [OF Suc.prems(1) one]
  show ?case
  proof (cases "evs1 = []")
    case True
    then show ?thesis using Suc.prems one r by simp
  next
    case False
    obtain h2 s2 out2 evs2 where two: "flush_rounds i n h1 s1 = (h2, s2, out2, evs2)" by (metis prod_cases4)
    then have "s' = s2" "evs = evs1 @ evs2" using Suc.prems(2) one False by simp_all
    moreover have "sound_events (sio_step_agent i) j s (evs1 @ evs2)" "s2 = session_folds s (evs1 @ evs2)"
      using Suc.IH [OF r(2) two] r(1,3) by simp_all
    ultimately show ?thesis using Suc.IH [OF r(2) two] by blast
  qed
qed simp

end
