(* ===== verification/Session_Flush.thy ===== *)
theory Session_Flush
  imports Session_Boundary
begin

text \<open>
  A flush runs dry: what a boundary can start it starts within three rounds, and what is left after it are
  reports whose reader cannot be reached. The code's cap of eight rounds never cuts a flush off.
\<close>

section \<open>What a delivery changes\<close>

text \<open>A forest without the marks of what has been reported.\<close>

definition unflag :: "entry_state \<Rightarrow> entry_state" where
  "unflag st = (case st of ESub r \<Rightarrow> ESub (r\<lparr> su_notified := False \<rparr>) | EWorkflow w \<Rightarrow> EWorkflow (w\<lparr> wf_notified := False \<rparr>)
     | _ \<Rightarrow> st)"

definition unflag_entry :: "run_entry \<Rightarrow> run_entry" where
  "unflag_entry e = e\<lparr> en_state := unflag (en_state e) \<rparr>"

definition unflagged :: "run_forest \<Rightarrow> run_forest" where
  "unflagged f = f\<lparr> rf_entries := map (\<lambda>(k, e). (k, unflag_entry e)) (rf_entries f) \<rparr>"

lemma unflag_entry_sels [simp]: "en_parent (unflag_entry e) = en_parent e" "en_state (unflag_entry e) = unflag (en_state e)"
  by (simp_all add: unflag_entry_def)

lemma unflagged_on_entry: "(\<And>st. unflag (g st) = unflag st) \<Longrightarrow> unflagged (on_entry k g f) = unflagged f"
  by (simp add: unflagged_def on_entry_def bt_update_def unflag_entry_def case_prod_unfold)

lemma unflagged_notified [simp]:
  "unflagged (apply_sub_notified k f) = unflagged f" "unflagged (apply_run_notified k f) = unflagged f"
  unfolding apply_sub_notified_def sub_mut_def apply_run_notified_def workflow_mut_def
  by (rule unflagged_on_entry, simp add: unflag_def split: entry_state.split)+

lemma unflagged_sels [simp]:
  "rf_agents (unflagged f) = rf_agents f" "rf_root (unflagged f) = rf_root f" "length (rf_entries (unflagged f)) = length (rf_entries f)"
  "bt_get (rf_entries (unflagged f)) k = map_option unflag_entry (bt_get (rf_entries f) k)"
  by (simp_all add: unflagged_def bt_get_def map_of_map)

lemma unflagged_owner [simp]: "owner_of_agent (unflagged f) a = map_option (apsnd unflag_entry) (owner_of_agent f a)"
  by (simp add: owner_of_agent_def option.map_comp comp_def split: option.split)

lemma unflagged_depth_walk [simp]: "depth_walk (unflagged f) n p = depth_walk f n p"
  by (induction f n p rule: depth_walk.induct) (simp_all split: option.split)

lemma unflagged_depth [simp]: "depth_of_agent (unflagged f) a = depth_of_agent f a"
  by (cases "owner_of_agent f a") (auto simp: depth_of_agent_def depth_of_entry_def)

lemma unflagged_workflow [simp]: "workflow_of (unflagged f) r = map_option (\<lambda>w. w\<lparr> wf_notified := False \<rparr>) (workflow_of f r)"
  by (cases "bt_get (rf_entries f) r") (auto simp: workflow_of_def as_workflow_def unflag_def split: entry_state.split)

lemma unflagged_step [simp]: "step_of_agent (unflagged f) a = step_of_agent f a"
  by (cases "owner_of_agent f a") (auto simp: step_of_agent_def unflag_def split: entry_state.split)

lemma unflagged_sub [simp]: "sub_of (unflagged f) a = map_option (\<lambda>r. r\<lparr> su_notified := False \<rparr>) (sub_of f a)"
  by (cases "bt_get (rf_entries f) a") (auto simp: sub_of_def as_sub_def unflag_def split: entry_state.split)

lemma unflagged_sub_session [simp]: "sub_session_of (unflagged f) a = sub_session_of f a"
  by (cases "bt_get (rf_entries f) a") (auto simp: sub_session_of_def as_sub_session_def unflag_def split: entry_state.split)

lemma unflagged_key [simp]: "agent_key_of (unflagged f) a = agent_key_of f a"
  by (cases "owner_of_agent f a") (auto simp: agent_key_of_def unflag_def split: entry_state.split)

lemma unflagged_step_settings [simp]: "step_settings_of (unflagged f) a = step_settings_of f a"
  by (cases "step_of_agent f a"; cases "workflow_of f (fst (the (step_of_agent f a)))")
    (auto simp: step_settings_of_def)

lemma unflagged_settings_walk [simp]: "settings_walk m (unflagged f) n a = settings_walk m f n a"
proof (induction m f n a rule: settings_walk.induct)
  case (1 m f n a)
  show ?case
  proof (cases "owner_of_agent f a")
    case (Some x)
    then obtain r e where x: "owner_of_agent f a = Some (r, e)" by (cases x) auto
    with 1 show ?thesis
      by (subst (1 2) settings_walk.simps) (auto simp: unflag_def split: entry_state.split nat.split option.split)
  qed (simp add: settings_walk.simps)
qed

section \<open>Who can be reached\<close>

text \<open>A cold agent can be started; nothing of the answer hangs on who is resident.\<close>

definition spawnable :: "session_io \<Rightarrow> host \<Rightarrow> session_state \<Rightarrow> agent_key \<Rightarrow> bool" where
  "spawnable i h s k \<longleftrightarrow> reach i (h\<lparr> ho_live := [] \<rparr>) s k \<noteq> None"

definition takes :: "session_io \<Rightarrow> host \<Rightarrow> session_state \<Rightarrow> agent_key \<Rightarrow> bool" where
  "takes i h s k \<longleftrightarrow> (resident h (key_id h k) \<or> spawnable i h s k) \<and> sio_reaches i (key_id h k)"

lemma resident_none [simp]: "\<not> resident (h\<lparr> ho_live := [] \<rparr>) a"
  by (simp add: resident_def bt_get_def)

lemma key_id_live [simp]: "key_id (h\<lparr> ho_live := l \<rparr>) k = key_id h k"
  by (simp add: key_id_def split: agent_key.split)

lemma effective_settings_live [simp]: "effective_settings (h\<lparr> ho_live := l \<rparr>) s k = effective_settings h s k"
  by (simp add: effective_settings_def split: agent_key.split)

lemma spawn_agent_None [simp]: "spawn_agent i h s p = None \<longleftrightarrow> \<not> sio_spawns i (key_id h (pl_key p))"
  by (simp add: spawn_agent_def Let_def)

text \<open>Reaching an agent leaves it resident and the others as they were.\<close>

definition joined :: "uuid \<Rightarrow> host \<Rightarrow> host \<Rightarrow> bool" where
  "joined a h h' \<longleftrightarrow> ho_id h' = ho_id h \<and> ho_spec h' = ho_spec h \<and> (\<forall>b. resident h' b \<longleftrightarrow> b = a \<or> resident h b)"

lemma spawn_agent_joined: "spawn_agent i h s p = Some (a, h', out) \<Longrightarrow> a = key_id h (pl_key p) \<and> joined a h h'"
  by (auto simp: spawn_agent_def Let_def joined_def resident_def bt_get_insert split: if_splits)

lemma plain_plan_key [simp]: "pl_key (plain_plan k st) = k"
  by (simp add: plain_plan_def)

lemma joined_self: "resident h a \<Longrightarrow> joined a h h"
  by (auto simp: joined_def)

lemma reach_joined: "reach i h s k = Some (a, h', out) \<Longrightarrow> a = key_id h k \<and> joined a h h'"
  by (cases k) (auto simp: reach_def joined_self resolve_step_def spawn_step_agent_def spawn_sub_agent_actor_def
    spawn_sub_session_actor_def bind_eq_Some_conv key_id_def split: if_splits option.splits dest!: spawn_agent_joined)

lemma spawn_sub_None: "spawn_sub_agent_actor i h s a t = None \<longleftrightarrow> effective_settings h s (KeySub a) = None \<or> \<not> sio_spawns i a"
  by (cases "effective_settings h s (KeySub a)") (simp_all add: spawn_sub_agent_actor_def key_id_def)

lemma spawn_sub_session_None: "spawn_sub_session_actor i h s a = None \<longleftrightarrow>
    \<not> resident h a \<and> (effective_settings h s (KeySubSession a) = None \<or> \<not> sio_spawns i a)"
  by (cases "effective_settings h s (KeySubSession a)") (simp_all add: spawn_sub_session_actor_def key_id_def)

lemma spawn_step_None: "spawn_step_agent i h s run a name = None \<longleftrightarrow>
    Option.bind (run_graph s run) (\<lambda>g. spec_step g name) = None \<or> \<not> sio_spawns i a"
  by (cases "run_graph s run"; cases "spec_step (the (run_graph s run)) name") (simp_all add: spawn_step_agent_def key_id_def)

lemma resolve_step_None: "resolve_step i h s a = None \<longleftrightarrow> (case step_of_agent (ses_forest s) a of None \<Rightarrow> True
    | Some (run, n) \<Rightarrow> \<not> resident h a \<and> (\<not> sio_spawns i a \<or> Option.bind (workflow_of (ses_forest s) run) (\<lambda>w.
        Option.bind (run_get (wf_run w) n) (\<lambda>st. spec_step (wf_graph w) (se_step st))) = None))"
  by (auto simp: resolve_step_def spawn_step_None run_graph_def bind_eq_None_conv bind_eq_Some_conv split: option.split)

lemma reach_eq_None: "reach i h s k = None \<longleftrightarrow> \<not> resident h (key_id h k) \<and> (case k of
     KeyMain \<Rightarrow> True
   | KeySub a \<Rightarrow> sub_of (ses_forest s) a = None \<or> effective_settings h s k = None \<or> \<not> sio_spawns i a
   | KeyStep a \<Rightarrow> resolve_step i (h\<lparr> ho_live := [] \<rparr>) s a = None
   | KeySubSession a \<Rightarrow> sub_session_of (ses_forest s) a = None \<or> effective_settings h s k = None \<or> \<not> sio_spawns i a)"
  by (cases k)
    (auto simp: reach_def key_id_def spawn_sub_None spawn_sub_session_None resolve_step_None bind_eq_None_conv bind_eq_Some_conv
      split: option.split)

lemma reach_None: "reach i h s k = None \<longleftrightarrow> \<not> resident h (key_id h k) \<and> \<not> spawnable i h s k"
  unfolding spawnable_def reach_eq_None by (simp split: agent_key.split)

text \<open>The marks say nothing about who can be started.\<close>

lemma effective_settings_unflagged:
  "effective_settings h (s\<lparr> ses_forest := unflagged f \<rparr>) k = effective_settings h (s\<lparr> ses_forest := f \<rparr>) k"
  by (simp add: effective_settings_def Let_def split: agent_key.split)

lemma resolve_step_unflagged:
  "resolve_step i h (s\<lparr> ses_forest := unflagged f \<rparr>) a = None \<longleftrightarrow> resolve_step i h (s\<lparr> ses_forest := f \<rparr>) a = None"
proof (cases "step_of_agent f a")
  case (Some x)
  then show ?thesis by (cases x; cases "workflow_of f (fst x)") (simp_all add: resolve_step_None)
qed (simp add: resolve_step_None)

lemma spawnable_unflagged:
  "spawnable i h (s\<lparr> ses_forest := unflagged f \<rparr>) k \<longleftrightarrow> spawnable i h (s\<lparr> ses_forest := f \<rparr>) k"
  by (cases k) (simp_all add: spawnable_def reach_eq_None effective_settings_unflagged resolve_step_unflagged)

lemma spawnable_cong:
  assumes "unflagged (ses_forest s') = unflagged (ses_forest s)" "ho_id h' = ho_id h" "ho_spec h' = ho_spec h"
  shows "spawnable i h' s' k \<longleftrightarrow> spawnable i h s k"
proof -
  have "h'\<lparr> ho_live := [] \<rparr> = h\<lparr> ho_live := [] \<rparr>" using assms by simp
  then have host: "spawnable i h' s' k \<longleftrightarrow> spawnable i h s' k" by (simp add: spawnable_def)
  have "effective_settings h (s'\<lparr> ses_forest := f \<rparr>) k = effective_settings h (s\<lparr> ses_forest := f \<rparr>) k" for f
    by (simp add: effective_settings_def split: agent_key.split)
  then have "spawnable i h (s'\<lparr> ses_forest := f \<rparr>) k \<longleftrightarrow> spawnable i h (s\<lparr> ses_forest := f \<rparr>) k" for f
    by (cases k) (simp_all add: spawnable_def reach_eq_None resolve_step_None split: option.split)
  then show ?thesis
    using spawnable_unflagged [of i h "ses_forest s'" s' k] spawnable_unflagged [of i h "ses_forest s" s k] assms(1) host by simp
qed

section \<open>A round of deliveries\<close>

text \<open>The key names the agent its host keeps under the same id.\<close>

definition named :: "host \<Rightarrow> run_forest \<Rightarrow> agent_key \<Rightarrow> bool" where
  "named h f k \<longleftrightarrow> agent_key_of f (key_id h k) = Some k"

lemma agent_key_id:
  assumes inv: "forest_inv g (ho_id h) f" and k: "agent_key_of f a = Some k"
  shows "key_id h k = a"
proof -
  obtain r e where o: "owner_of_agent f a = Some (r, e)"
    and k': "k = (case en_state e of EMain _ \<Rightarrow> KeyMain | ESub _ \<Rightarrow> KeySub a | EWorkflow _ \<Rightarrow> KeyStep a | ESubSession _ \<Rightarrow> KeySubSession a)"
    using k by (auto simp: agent_key_of_def)
  have ix: "index_ok f" using forest_invD(1) [OF inv] by (simp add: forest_wf_def)
  show ?thesis
  proof (cases "en_state e")
    case (EMain m)
    from o have e: "bt_get (rf_agents f) a = Some r" "bt_get (rf_entries f) r = Some e" by (simp_all add: owner_of_agent_iff)
    then have "a \<in> set (hosted_by r (en_state e))" using index_okD [OF ix e(1)] by fastforce
    then have "a = r" using EMain by (simp add: hosted_by_def)
    moreover have "r = ho_id h" using rootedD(3) [OF forest_invD(4) [OF inv] e(2)] EMain by (simp add: is_main_def)
    ultimately show ?thesis using k' EMain by (simp add: key_id_def)
  qed (use k' in \<open>simp_all add: key_id_def\<close>)
qed

lemma owed_named: "forest_inv g (ho_id h) f \<Longrightarrow> DeliverResult d \<in> set (owed_deliveries sh f) \<Longrightarrow> named h f (dv_to d)"
  by (auto simp: owed_deliveries_def set_map_filter named_def agent_key_id)

lemma owed_deliver: "a \<in> set (owed_deliveries sh f) \<Longrightarrow> \<exists>d. a = DeliverResult d"
  by (auto simp: owed_deliveries_def set_map_filter)

text \<open>Nothing of the entry is left to report.\<close>

definition reported :: "run_forest \<Rightarrow> run_id \<Rightarrow> bool" where
  "reported f c \<longleftrightarrow> (case map_option en_state (bt_get (rf_entries f) c) of
     Some (ESub r) \<Rightarrow> su_notified r | Some (EWorkflow w) \<Rightarrow> wf_notified w | _ \<Rightarrow> True)"

definition told_event :: "session_io \<Rightarrow> session_state \<Rightarrow> run_id \<Rightarrow> session_event" where
  "told_event i s c = (case map_option en_state (forest_entry (ses_forest s) c) of
     Some (EWorkflow _) \<Rightarrow> RunNotified (sio_now i) c | _ \<Rightarrow> SubAgentNotified (sio_now i) c)"

lemma told_event_forest:
  "ses_forest (session_apply s (told_event i s c)) = apply_sub_notified c (ses_forest s) \<or>
   ses_forest (session_apply s (told_event i s c)) = apply_run_notified c (ses_forest s)"
  by (auto simp: told_event_def session_apply_def subs_apply_def runs_apply_def on_forest_def split: option.split entry_state.split)

lemma told_event_reported:
  "reported (ses_forest (session_apply s (told_event i s c))) b \<longleftrightarrow> b = c \<or> reported (ses_forest s) b"
proof (cases "bt_get (rf_entries (ses_forest s)) c")
  case None
  then show ?thesis
    by (auto simp: told_event_def forest_entry_def session_apply_def subs_apply_def on_forest_def reported_def
      apply_sub_notified_def sub_mut_def on_entry_get)
next
  case (Some e)
  then show ?thesis
    by (cases "en_state e")
      (auto simp: told_event_def forest_entry_def session_apply_def subs_apply_def runs_apply_def on_forest_def reported_def
        apply_sub_notified_def sub_mut_def apply_run_notified_def workflow_mut_def on_entry_get)
qed

text \<open>What a delivery leaves as it was.\<close>

definition steady :: "session_io \<Rightarrow> host \<Rightarrow> session_state \<Rightarrow> host \<Rightarrow> session_state \<Rightarrow> bool" where
  "steady i h s h' s' \<longleftrightarrow> ho_id h' = ho_id h \<and> ho_spec h' = ho_spec h \<and> unflagged (ses_forest s') = unflagged (ses_forest s) \<and>
     (\<forall>k. named h (ses_forest s) k \<longrightarrow> takes i h' s' k = takes i h s k) \<and>
     (\<forall>c. reported (ses_forest s) c \<longrightarrow> reported (ses_forest s') c)"

lemma steadyD:
  assumes "steady i h s h' s'"
  shows "ho_id h' = ho_id h" "ho_spec h' = ho_spec h" "unflagged (ses_forest s') = unflagged (ses_forest s)"
    "named h (ses_forest s) k \<Longrightarrow> takes i h' s' k = takes i h s k" "reported (ses_forest s) c \<Longrightarrow> reported (ses_forest s') c"
  using assms unfolding steady_def by blast+

lemma key_id_cong: "ho_id h' = ho_id h \<Longrightarrow> key_id h' k = key_id h k"
  by (simp add: key_id_def split: agent_key.split)

lemma agent_key_cong: "unflagged f' = unflagged f \<Longrightarrow> agent_key_of f' a = agent_key_of f a"
  using unflagged_key [of f' a] unflagged_key [of f a] by simp

lemma steady_named: "steady i h s h' s' \<Longrightarrow> named h' (ses_forest s') k \<longleftrightarrow> named h (ses_forest s) k"
  using key_id_cong [OF steadyD(1)] agent_key_cong [OF steadyD(3)] unfolding named_def by metis

lemma steady_refl: "steady i h s h s"
  by (simp add: steady_def)

lemma steady_trans: "steady i h s h1 s1 \<Longrightarrow> steady i h1 s1 h2 s2 \<Longrightarrow> steady i h s h2 s2"
  using steady_named [of i h s h1 s1] unfolding steady_def by auto

lemma deliver_cases:
  assumes "deliver i d h s = (h', out, evs)"
  shows "evs = (if takes i h s (dv_to d) then [told_event i s (dv_child d)] else [])"
    and "h' = h \<or> joined (key_id h (dv_to d)) h h' \<and> (resident h (key_id h (dv_to d)) \<or> spawnable i h s (dv_to d))"
proof -
  show "evs = (if takes i h s (dv_to d) then [told_event i s (dv_child d)] else [])"
    using assms reach_None [of i h s "dv_to d"] reach_joined [of i h s "dv_to d"]
    by (auto simp: deliver_def takes_def told_event_def split: option.splits if_splits prod.splits)
  show "h' = h \<or> joined (key_id h (dv_to d)) h h' \<and> (resident h (key_id h (dv_to d)) \<or> spawnable i h s (dv_to d))"
    using assms reach_None [of i h s "dv_to d"] reach_joined [of i h s "dv_to d"]
    by (auto simp: deliver_def split: option.splits if_splits prod.splits)
qed

lemma deliver_steady:
  assumes k: "named h (ses_forest s) (dv_to d)" and d: "deliver i d h s = (h', out, evs)"
  shows "steady i h s h' (session_folds s evs)"
    and "takes i h s (dv_to d) \<Longrightarrow> reported (ses_forest (session_folds s evs)) (dv_child d)"
proof -
  note evs = deliver_cases(1) [OF d]
  have flags: "unflagged (ses_forest (session_folds s evs)) = unflagged (ses_forest s)"
    using told_event_forest [of s i "dv_child d"] by (auto simp: evs)
  have host: "ho_id h' = ho_id h" "ho_spec h' = ho_spec h" using deliver_cases(2) [OF d] by (auto simp: joined_def)
  have "takes i h' (session_folds s evs) k' = takes i h s k'" if n: "named h (ses_forest s) k'" for k'
  proof -
    have sp: "spawnable i h' (session_folds s evs) k' = spawnable i h s k'" by (rule spawnable_cong [OF flags host])
    have id: "key_id h' k' = key_id h k'" by (rule key_id_cong [OF host(1)])
    have "key_id h k' = key_id h (dv_to d) \<Longrightarrow> k' = dv_to d" using k n by (simp add: named_def)
    then show ?thesis using deliver_cases(2) [OF d] unfolding takes_def sp id joined_def by metis
  qed
  then show "steady i h s h' (session_folds s evs)"
    using flags host told_event_reported [of s i "dv_child d"] by (auto simp: steady_def evs)
  show "takes i h s (dv_to d) \<Longrightarrow> reported (ses_forest (session_folds s evs)) (dv_child d)"
    using told_event_reported [of s i "dv_child d"] by (simp add: evs)
qed

lemma perform_deliveries:
  assumes "\<And>a. a \<in> set acts \<Longrightarrow> \<exists>d. a = DeliverResult d \<and> named h (ses_forest s) (dv_to d)"
    "perform_all i acts h s = (h', s', out, evs)"
  shows "steady i h s h' s' \<and> (evs = [] \<longleftrightarrow> (\<forall>d. DeliverResult d \<in> set acts \<longrightarrow> \<not> takes i h s (dv_to d))) \<and>
    (\<forall>d. DeliverResult d \<in> set acts \<longrightarrow> takes i h s (dv_to d) \<longrightarrow> reported (ses_forest s') (dv_child d))"
  using assms
proof (induction acts arbitrary: h s h' s' out evs)
  case (Cons a acts)
  obtain d where a: "a = DeliverResult d" "named h (ses_forest s) (dv_to d)" using Cons.prems(1) [of a] by auto
  obtain h1 out1 evs1 where one: "deliver i d h s = (h1, out1, evs1)" by (metis prod_cases3)
  obtain h2 s2 out2 evs2 where rest: "perform_all i acts h1 (session_folds s evs1) = (h2, s2, out2, evs2)" by (metis prod_cases4)
  have res: "h' = h2" "s' = s2" "evs = evs1 @ evs2" using Cons.prems(2) a one rest by (simp_all add: perform_action_def)
  note st = deliver_steady [OF a(2) one]
  have nm: "\<exists>d. b = DeliverResult d \<and> named h (ses_forest s) (dv_to d)" if "b \<in> set acts" for b using Cons.prems(1) [of b] that by simp
  then have "\<exists>d. b = DeliverResult d \<and> named h1 (ses_forest (session_folds s evs1)) (dv_to d)" if "b \<in> set acts" for b
    using that steady_named [OF st(1)] by metis
  note IH = Cons.IH [OF this rest]
  have same: "takes i h1 (session_folds s evs1) (dv_to b) = takes i h s (dv_to b)" if "DeliverResult b \<in> set acts" for b
    using nm [OF that] steadyD(4) [OF st(1)] by auto
  have "steady i h s h' s'" using steady_trans [OF st(1)] IH unfolding res by blast
  moreover have "evs = [] \<longleftrightarrow> (\<forall>b. DeliverResult b \<in> set (a # acts) \<longrightarrow> \<not> takes i h s (dv_to b))"
    using IH same deliver_cases(1) [OF one] unfolding res a(1) by auto
  moreover have "reported (ses_forest s') (dv_child b)" if "DeliverResult b \<in> set (a # acts)" "takes i h s (dv_to b)" for b
    using that IH same st(2) steadyD(5) unfolding res a(1) by (auto split: if_splits)
  ultimately show ?case by blast
qed (simp add: steady_refl)

section \<open>Running dry\<close>

lemma mem_unflagged:
  assumes "unflagged f' = unflagged f" "(c, e') \<in> set (rf_entries f')"
  shows "\<exists>e. (c, e) \<in> set (rf_entries f) \<and> unflag_entry e = unflag_entry e'"
proof -
  have "(c, unflag_entry e') \<in> set (rf_entries (unflagged f'))" using assms(2) by (auto simp: unflagged_def)
  then show ?thesis unfolding assms(1) by (auto simp: unflagged_def)
qed

lemma owed_part_iff: "owed_part sh c e \<noteq> None \<longleftrightarrow> (case en_state e of
    ESub r \<Rightarrow> su_status r \<noteq> SubRunning \<and> \<not> su_notified r | EWorkflow w \<Rightarrow> is_terminal (rn_status (wf_run w)) \<and> \<not> wf_notified w
  | _ \<Rightarrow> False)"
  by (auto simp: owed_part_def split: entry_state.split)

lemma owed_iff: "d \<in> set (owed sh f) \<longleftrightarrow>
    (\<exists>e. (od_child d, e) \<in> set (rf_entries f) \<and> en_parent e = Some (od_to d) \<and> owed_part sh (od_child d) e = Some (od_part d))"
  by (cases d) (force simp: owed_def set_map_filter split: option.splits)

lemma owed_deliveries_iff: "DeliverResult x \<in> set (owed_deliveries sh f) \<longleftrightarrow>
    (\<exists>d \<in> set (owed sh f). agent_key_of f (od_to d) = Some (dv_to x) \<and> dv_child x = od_child d \<and> dv_part x = od_part d)"
  by (cases x) (force simp: owed_deliveries_def set_map_filter)

lemma owed_deliveriesD:
  assumes "DeliverResult x \<in> set (owed_deliveries sh f)"
  obtains e p where "(dv_child x, e) \<in> set (rf_entries f)" "en_parent e = Some p" "owed_part sh (dv_child x) e \<noteq> None"
    "agent_key_of f p = Some (dv_to x)"
  using assms by (auto simp: owed_deliveries_iff owed_iff)

lemma owed_deliveriesI:
  assumes "(c, e) \<in> set (rf_entries f)" "en_parent e = Some p" "owed_part sh c e \<noteq> None" "agent_key_of f p = Some k"
  obtains x where "DeliverResult x \<in> set (owed_deliveries sh f)" "dv_to x = k" "dv_child x = c"
proof -
  obtain part where part: "owed_part sh c e = Some part" using assms(3) by blast
  then have "\<lparr> od_child = c, od_to = p, od_part = part \<rparr> \<in> set (owed sh f)" using assms(1,2) by (auto simp: owed_iff)
  then have "DeliverResult \<lparr> dv_to = k, dv_child = c, dv_part = part \<rparr> \<in> set (owed_deliveries sh f)"
    using assms(4) by (force simp: owed_deliveries_iff)
  then show ?thesis using that by fastforce
qed

lemma owed_not_reported:
  assumes "bt_wf (rf_entries f)" "DeliverResult d \<in> set (owed_deliveries sh f)"
  shows "\<not> reported f (dv_child d)"
proof -
  obtain e p where e: "(dv_child d, e) \<in> set (rf_entries f)" "owed_part sh (dv_child d) e \<noteq> None"
    using assms(2) by (rule owed_deliveriesD)
  then have "bt_get (rf_entries f) (dv_child d) = Some e" using assms(1) by (simp add: bt_get_iff)
  with e(2) show ?thesis unfolding owed_part_iff by (simp add: reported_def split: entry_state.splits)
qed

lemma unflag_owed:
  assumes "unflag st = unflag st'"
  shows "(case st of ESub r \<Rightarrow> su_status r \<noteq> SubRunning | EWorkflow w \<Rightarrow> is_terminal (rn_status (wf_run w)) | _ \<Rightarrow> False) =
    (case st' of ESub r \<Rightarrow> su_status r \<noteq> SubRunning | EWorkflow w \<Rightarrow> is_terminal (rn_status (wf_run w)) | _ \<Rightarrow> False)"
proof -
  have "(case unflag x of ESub r \<Rightarrow> su_status r \<noteq> SubRunning | EWorkflow w \<Rightarrow> is_terminal (rn_status (wf_run w)) | _ \<Rightarrow> False) =
    (case x of ESub r \<Rightarrow> su_status r \<noteq> SubRunning | EWorkflow w \<Rightarrow> is_terminal (rn_status (wf_run w)) | _ \<Rightarrow> False)" for x
    by (simp add: unflag_def split: entry_state.split)
  then show ?thesis using assms by metis
qed

text \<open>A round of deliveries brings no report that was not owed before.\<close>

lemma owed_before:
  assumes flags: "unflagged f' = unflagged f" and wf: "bt_wf (rf_entries f)" and un: "\<not> reported f (dv_child d)"
    and d: "DeliverResult d \<in> set (owed_deliveries sh f')"
  obtains d0 where "DeliverResult d0 \<in> set (owed_deliveries sh f)" "dv_to d0 = dv_to d" "dv_child d0 = dv_child d"
proof -
  obtain e' p where e': "(dv_child d, e') \<in> set (rf_entries f')" "en_parent e' = Some p" "owed_part sh (dv_child d) e' \<noteq> None"
    "agent_key_of f' p = Some (dv_to d)"
    using d by (rule owed_deliveriesD)
  obtain e where e: "(dv_child d, e) \<in> set (rf_entries f)" "unflag_entry e = unflag_entry e'" using mem_unflagged [OF flags e'(1)] by blast
  have same: "en_parent e = en_parent e'" "unflag (en_state e) = unflag (en_state e')"
    using arg_cong [OF e(2), of en_parent] arg_cong [OF e(2), of en_state] by simp_all
  have "bt_get (rf_entries f) (dv_child d) = Some e" using e(1) wf by (simp add: bt_get_iff)
  then have "owed_part sh (dv_child d) e \<noteq> None"
    using e'(3) un unflag_owed [OF same(2)] unfolding owed_part_iff reported_def by (simp split: entry_state.splits)
  moreover have "en_parent e = Some p" "agent_key_of f p = Some (dv_to d)"
    using e'(2,4) same(1) agent_key_cong [OF flags] by simp_all
  ultimately show ?thesis using e(1) that by (blast elim: owed_deliveriesI)
qed

text \<open>All that is left are reports for agents that cannot be reached.\<close>

definition dry :: "session_io \<Rightarrow> host \<Rightarrow> session_state \<Rightarrow> bool" where
  "dry i h s \<longleftrightarrow> (\<forall>a \<in> set (next_actions i h s). \<exists>d. a = DeliverResult d \<and> \<not> takes i h s (dv_to d))"

lemma next_actions_cong: "ho_id h' = ho_id h \<Longrightarrow> next_actions i h' s = next_actions i h s"
  by (simp add: next_actions_def session_runtime_def)

lemma next_deliveries:
  assumes "forest_inv g (ho_id h) (ses_forest s)" "DeliverResult d \<in> set (next_actions i h s)"
  shows "named h (ses_forest s) (dv_to d)"
proof -
  have "DeliverResult d \<notin> set (run_actions i s)"
    by (auto simp: run_actions_def act_run_def dest: step_actions_run)
  then show ?thesis using assms owed_named by (auto simp: next_actions_def split: if_splits)
qed

lemma dry_round:
  assumes inv: "forest_inv g (ho_id h) (ses_forest s)" and "dry i h s"
    and p: "perform_all i (next_actions i h s) h s = (h', s', out, evs)" and s: "s' = session_folds s evs"
  shows "evs = [] \<and> s' = s \<and> dry i h' s"
proof -
  have "\<exists>d. a = DeliverResult d \<and> named h (ses_forest s) (dv_to d)" if "a \<in> set (next_actions i h s)" for a
  proof -
    obtain d where "a = DeliverResult d" using assms(2) \<open>a \<in> set (next_actions i h s)\<close> unfolding dry_def by blast
    with that next_deliveries [OF inv, of d i] show ?thesis by simp
  qed
  note r = perform_deliveries [OF this p]
  then have evs: "evs = []" using assms(2) unfolding dry_def by auto
  then have "s' = s" using s by simp
  moreover have st: "steady i h s h' s" using r evs s by simp
  moreover have "dry i h' s"
    unfolding dry_def next_actions_cong [OF steadyD(1) [OF st]]
  proof
    fix a assume a: "a \<in> set (next_actions i h s)"
    with assms(2) obtain d where "a = DeliverResult d" "\<not> takes i h s (dv_to d)" unfolding dry_def by blast
    with a next_deliveries [OF inv] steadyD(4) [OF st] show "\<exists>d. a = DeliverResult d \<and> \<not> takes i h' s (dv_to d)" by auto
  qed
  ultimately show ?thesis using evs by blast
qed

text \<open>A round that starts with no run to drive leaves nothing for another.\<close>

lemma second_round_dry:
  assumes ok: "boundary_ok (sio_step_agent i) (ho_id h) s" and idle: "ready_on (session_runtime h s) \<Longrightarrow> run_actions i s = []"
    and p: "perform_all i (next_actions i h s) h s = (h', s', out, evs)"
  shows "dry i h' s'"
proof (cases "ready_on (session_runtime h s)")
  case False
  then have "next_actions i h s = []" by (simp add: next_actions_def)
  with p have "h' = h" "s' = s" by simp_all
  with \<open>next_actions i h s = []\<close> show ?thesis by (simp add: dry_def)
next
  case True
  have inv: "forest_inv (sio_step_agent i) (ho_id h) (ses_forest s)" using ok session_invD(1) unfolding boundary_ok_def by blast
  have wf: "bt_wf (rf_entries (ses_forest s))" using forest_invD(1) [OF inv] by (simp add: forest_wf_def)
  have acts: "next_actions i h s = owed_deliveries (sio_show_json i) (ses_forest s)" using True idle by (simp add: next_actions_def)
  note r = round_ok [OF ok p]
  have wf': "bt_wf (rf_entries (ses_forest s'))"
    using r(2) session_invD(1) forest_invD(1) unfolding boundary_ok_def forest_wf_def by blast
  have "\<exists>d. a = DeliverResult d \<and> named h (ses_forest s) (dv_to d)" if "a \<in> set (next_actions i h s)" for a
  proof -
    obtain d where "a = DeliverResult d" using \<open>a \<in> set (next_actions i h s)\<close> owed_deliver unfolding acts by blast
    with that next_deliveries [OF inv, of d i] show ?thesis by simp
  qed
  note st = perform_deliveries [OF this p]
  have "\<exists>d. a = DeliverResult d \<and> \<not> takes i h' s' (dv_to d)" if a: "a \<in> set (next_actions i h' s')" for a
  proof -
    have "a \<in> set (owed_deliveries (sio_show_json i) (ses_forest s'))"
      using a r(4) [OF True] by (simp add: next_actions_def split: if_splits)
    then obtain d where d: "a = DeliverResult d" "DeliverResult d \<in> set (owed_deliveries (sio_show_json i) (ses_forest s'))"
      using owed_deliver by blast
    have un: "\<not> reported (ses_forest s') (dv_child d)" by (rule owed_not_reported [OF wf' d(2)])
    have steady: "steady i h s h' s'" using st by blast
    have "\<not> reported (ses_forest s) (dv_child d)" using un steadyD(5) [OF steady] by blast
    then obtain d0 where d0: "DeliverResult d0 \<in> set (next_actions i h s)" "dv_to d0 = dv_to d" "dv_child d0 = dv_child d"
      using owed_before [OF steadyD(3) [OF steady] wf _ d(2)] unfolding acts by blast
    then have "\<not> takes i h s (dv_to d)" using st un by metis
    moreover have "takes i h' s' (dv_to d) = takes i h s (dv_to d)"
      using steadyD(4) [OF steady] next_deliveries [OF inv d0(1)] d0(2) by simp
    ultimately show ?thesis using d(1) by blast
  qed
  then show ?thesis unfolding dry_def by blast
qed

text \<open>A round that journals nothing had only reports for agents that cannot be reached.\<close>

lemma perform_action_host: "perform_action i a h s = (h', out, evs) \<Longrightarrow> ho_id h' = ho_id h \<and> ho_spec h' = ho_spec h"
  by (auto simp: perform_action_def deliver_def start_step_def spawn_step_agent_def bind_eq_Some_conv joined_def
    split: agent_action.splits option.splits if_splits dest!: reach_joined spawn_agent_joined)

lemma perform_all_host: "perform_all i acts h s = (h', s', out, evs) \<Longrightarrow> ho_id h' = ho_id h \<and> ho_spec h' = ho_spec h"
proof (induction acts arbitrary: h s h' s' out evs)
  case (Cons a acts)
  obtain h1 out1 evs1 where one: "perform_action i a h s = (h1, out1, evs1)" by (metis prod_cases3)
  obtain h2 s2 out2 evs2 where rest: "perform_all i acts h1 (session_folds s evs1) = (h2, s2, out2, evs2)" by (metis prod_cases4)
  show ?case using Cons.prems Cons.IH [OF rest] perform_action_host [OF one] one rest by simp
qed simp

lemma perform_all_silent: "perform_all i acts h s = (h', s', out, []) \<Longrightarrow> a \<in> set acts \<Longrightarrow> \<exists>d. a = DeliverResult d"
proof (induction acts arbitrary: h s h' s' out)
  case (Cons b acts)
  obtain h1 out1 evs1 where one: "perform_action i b h s = (h1, out1, evs1)" by (metis prod_cases3)
  obtain h2 s2 out2 evs2 where rest: "perform_all i acts h1 (session_folds s evs1) = (h2, s2, out2, evs2)" by (metis prod_cases4)
  have "evs1 = []" "evs2 = []" using Cons.prems(1) one rest by simp_all
  then show ?case using Cons.prems(2) perform_action_events [OF one] Cons.IH rest by auto
qed simp

lemma silent_round_dry:
  assumes inv: "forest_inv g (ho_id h) (ses_forest s)" and p: "perform_all i (next_actions i h s) h s = (h', s', out, [])"
  shows "dry i h s"
  unfolding dry_def
proof
  fix a assume a: "a \<in> set (next_actions i h s)"
  have nm: "\<exists>d. b = DeliverResult d \<and> named h (ses_forest s) (dv_to d)" if b: "b \<in> set (next_actions i h s)" for b
  proof -
    obtain d where "b = DeliverResult d" using perform_all_silent [OF p b] by blast
    with b next_deliveries [OF inv, of d i] show ?thesis by simp
  qed
  obtain d where d: "a = DeliverResult d" using perform_all_silent [OF p a] by blast
  then have "\<not> takes i h s (dv_to d)" using perform_deliveries [OF nm p] a by blast
  with d show "\<exists>d. a = DeliverResult d \<and> \<not> takes i h s (dv_to d)" by blast
qed

text \<open>Three rounds are all a flush takes.\<close>

lemma flush_three:
  assumes ok: "boundary_ok (sio_step_agent i) (ho_id h) s"
  obtains h' s' out evs where "\<And>n. flush_rounds i (Suc (Suc (Suc n))) h s = (h', s', out, evs)" "dry i h' s'"
    "s' = session_folds s evs"
proof -
  have invs: "boundary_ok (sio_step_agent i) j x \<Longrightarrow> forest_inv (sio_step_agent i) j (ses_forest x)" for j x
    unfolding boundary_ok_def by (blast dest: session_invD(1))
  obtain h1 s1 out1 evs1 where one: "perform_all i (next_actions i h s) h s = (h1, s1, out1, evs1)" by (metis prod_cases4)
  note r1 = round_ok [OF ok one]
  have id1: "ho_id h1 = ho_id h" using perform_all_host [OF one] ..
  have ok1: "boundary_ok (sio_step_agent i) (ho_id h1) s1" using r1(2) id1 by simp
  show ?thesis
  proof (cases "evs1 = []")
    case True
    then have "dry i h s" using silent_round_dry [OF invs [OF ok]] one by simp
    with dry_round [OF invs [OF ok] this one r1(3)] have "dry i h1 s1" "s1 = s" by auto
    with True one r1(3) that [of h1 s1 out1 "[]"] show ?thesis by simp
  next
    case False
    have "ready_on (session_runtime h s)"
    proof (rule ccontr)
      assume "\<not> ready_on (session_runtime h s)"
      then have "next_actions i h s = []" by (simp add: next_actions_def)
      with one False show False by simp
    qed
    then have idle: "run_actions i s1 = []" by (rule r1(4))
    obtain h2 s2 out2 evs2 where two: "perform_all i (next_actions i h1 s1) h1 s1 = (h2, s2, out2, evs2)" by (metis prod_cases4)
    note r2 = round_ok [OF ok1 two]
    have dry2: "dry i h2 s2" by (rule second_round_dry [OF ok1 idle two])
    have id2: "ho_id h2 = ho_id h1" using perform_all_host [OF two] ..
    show ?thesis
    proof (cases "evs2 = []")
      case True
      with False one two r1(3) r2(3) dry2 that [of h2 s2 "out1 @ out2" evs1] show ?thesis by simp
    next
      case ne: False
      obtain h3 s3 out3 evs3 where three: "perform_all i (next_actions i h2 s2) h2 s2 = (h3, s3, out3, evs3)" by (metis prod_cases4)
      have ok2: "boundary_ok (sio_step_agent i) (ho_id h2) s2" using r2(2) id2 by simp
      note r3 = round_ok [OF ok2 three]
      from dry_round [OF invs [OF ok2] dry2 three r3(3)] have "evs3 = []" "s3 = s2" "dry i h3 s2" by auto
      with False ne one two three r1(3) r2(3) that [of h3 s2 "out1 @ out2 @ out3" "evs1 @ evs2"] show ?thesis by simp
    qed
  qed
qed

lemma flush_enough:
  assumes "boundary_ok (sio_step_agent i) (ho_id h) s" "3 \<le> n" "3 \<le> m"
  shows "flush_rounds i n h s = flush_rounds i m h s"
proof -
  obtain k l where "n = Suc (Suc (Suc k))" "m = Suc (Suc (Suc l))"
    using assms(2,3) by (metis Suc_le_D numeral_3_eq_3 Suc_le_mono)
  then show ?thesis using flush_three [OF assms(1)] by metis
qed

end
