(* ===== verification/Session_Actor.thy ===== *)
theory Session_Actor
  imports Session_Handlers
begin

text \<open>
  The session actor's remaining handlers and its dispatch: workflow runs, subagents, sub sessions, the
  session's bookkeeping, plugin hooks, the outcomes agents report, reads, and recovery
  (\<^verbatim>\<open>session_actor/{run,subagent,sub_session,core,hooks,reads,mod}.rs\<close>).
\<close>

section \<open>Workflow runs\<close>

definition create_run :: "session_io \<Rightarrow> uuid \<Rightarrow> run_spec \<Rightarrow> nat \<Rightarrow> host \<Rightarrow> session_state \<Rightarrow> session_handled" where
  "create_run i parent graph caller h s = (case depth_of_agent (ses_forest s) parent of
     None \<Rightarrow> answer h caller (AvId (Inl ''caller is not a known agent''))
   | Some d \<Rightarrow>
       if d \<ge> MAX_DEPTH then answer h caller (AvId (Inl (''max delegation depth '' @ show_nat MAX_DEPTH @ '' reached'')))
       else if live_run_count (ses_forest s) \<ge> MAX_LIVE_RUNS
       then answer h caller (AvId (Inl (show_nat MAX_LIVE_RUNS @ '' workflow runs already live in this session'')))
       else (h, [], (journal [RunCreated (sio_now i) (sio_id i) parent graph])
               \<lparr> sfx_ack := Some (FinishCreateRun (sio_id i) caller) \<rparr>))"

definition finish_create_run ::
    "session_io \<Rightarrow> uuid \<Rightarrow> nat \<Rightarrow> string option \<Rightarrow> host \<Rightarrow> session_state \<Rightarrow> session_handled" where
  "finish_create_run i run caller failed h s = (case failed of
     Some e \<Rightarrow> answer h caller (AvId (Inl (''persist workflow run: '' @ e)))
   | None \<Rightarrow> (case flush_then_drain i h s of
       (h1, out, evs) \<Rightarrow> (h1, AnswerCaller caller (AvId (Inr run)) # out, journal evs)))"

definition run_visible :: "session_state \<Rightarrow> uuid \<Rightarrow> run_id \<Rightarrow> bool" where
  "run_visible s caller run = (case Option.bind (forest_entry (ses_forest s) run) en_parent of
     None \<Rightarrow> False | Some p \<Rightarrow> p = caller \<or> descends_from (ses_forest s) p caller)"

definition run_status :: "session_io \<Rightarrow> uuid \<Rightarrow> run_id \<Rightarrow> nat \<Rightarrow> host \<Rightarrow> session_state \<Rightarrow> session_handled" where
  "run_status i asker run caller h s = answer h caller (AvText
     (case (if run_visible s asker run then render_run (sio_show_json i) (ses_forest s) run else None) of
        Some t \<Rightarrow> Inr t | None \<Rightarrow> Inl (''no such workflow run: '' @ run)))"

definition advance_runs :: "session_io \<Rightarrow> host \<Rightarrow> session_state \<Rightarrow> session_handled" where
  "advance_runs i h s = (case flush_then_drain i h s of (h1, out, evs) \<Rightarrow> (h1, out, journal evs))"

text \<open>What a retry stops first: the step in flight and all that works under it. Then the step it starts.\<close>

definition retry_stop :: "session_io \<Rightarrow> host \<Rightarrow> session_state \<Rightarrow> run_id \<Rightarrow> run_state \<Rightarrow> session_out list \<times> session_event list" where
  "retry_stop i h s run r = (case run_current r of
     None \<Rightarrow> ([], [])
   | Some c \<Rightarrow>
       (let (out1, evs1) = (case run_get r c of
              None \<Rightarrow> ([], [])
            | Some st \<Rightarrow> (let (out2, evs2) = cancel_descendants i h s (se_agent st)
                in (cancel_agent h (KeyStep (se_agent st)) @ out2, evs2)))
        in (out1, evs1 @ [StepCancelled (sio_now i) run c])))"

definition retry_start :: "session_io \<Rightarrow> run_id \<Rightarrow> step_run \<Rightarrow> session_state \<Rightarrow> step_start" where
  "retry_start i run target s =
     (let (n, attempt) = (case workflow_of (ses_forest s) run of
            Some w \<Rightarrow> (length (rn_steps (wf_run w)), attempts_of (wf_run w) (se_step target) + 1)
          | None \<Rightarrow> (0, 1))
      in \<lparr> sp_run = run, sp_index = n, sp_step = se_step target, sp_agent = sio_step_agent i run n, sp_attempt = attempt,
           sp_from = se_from target, sp_via = se_via target, sp_input = se_input target \<rparr>)"

definition retry_step :: "session_io \<Rightarrow> nat \<Rightarrow> nat \<Rightarrow> host \<Rightarrow> session_state \<Rightarrow> session_handled" where
  "retry_step i index caller h s = (case root_workflow (ses_forest s) of
     None \<Rightarrow> answer h caller (AvUnit (Inl ''this session is not a workflow run''))
   | Some (run, w) \<Rightarrow> (case run_get (wf_run w) index of
       None \<Rightarrow> answer h caller (AvUnit (Inl (''no step execution at index '' @ show_nat index)))
     | Some target \<Rightarrow> (case retry_stop i h s run (wf_run w) of
         (out, evs) \<Rightarrow> (case start_step i (retry_start i run target (session_folds s evs)) h (session_folds s evs) of
           (h2, out2, evs2) \<Rightarrow> (h2, out @ [AnswerCaller caller (AvUnit (Inr ()))] @ out2, journal (evs @ evs2))))))"

definition reconcile_steps :: "session_io \<Rightarrow> host \<Rightarrow> session_state \<Rightarrow> session_handled" where
  "reconcile_steps i h s = (h, [], journal
     (map (\<lambda>(run, index, _). StepCancelled (sio_now i) run index) (in_flight_steps (ses_forest s))))"

section \<open>Subagents\<close>

definition spawn_sub ::
    "session_io \<Rightarrow> uuid \<Rightarrow> string \<Rightarrow> string \<Rightarrow> string option \<Rightarrow> nat \<Rightarrow> host \<Rightarrow> session_state \<Rightarrow> session_handled" where
  "spawn_sub i spawner title task agent_type caller h s = (case depth_of_agent (ses_forest s) spawner of
     None \<Rightarrow> answer h caller (AvId (Inl ''caller is not a known agent''))
   | Some d \<Rightarrow>
       if d \<ge> MAX_DEPTH then answer h caller (AvId (Inl (''max subagent depth '' @ show_nat MAX_DEPTH @ '' reached'')))
       else (case effective_settings_of_agent h s spawner of
           None \<Rightarrow> answer h caller (AvId (Inl ''caller is not a known agent''))
         | Some st \<Rightarrow>
             if active_sub_count (ses_forest s) \<ge> unat (max_subagents st)
             then answer h caller (AvId (Inl (show_nat (unat (max_subagents st)) @ '' subagents already active'')))
             else (h, [], (journal [SubAgentSpawned (sio_now i) (sio_id i) spawner title task agent_type])
                     \<lparr> sfx_ack := Some (FinishSpawn (sio_id i) task agent_type caller) \<rparr>)))"

definition finish_spawn ::
    "session_io \<Rightarrow> uuid \<Rightarrow> string \<Rightarrow> string option \<Rightarrow> nat \<Rightarrow> string option \<Rightarrow> host \<Rightarrow> session_state \<Rightarrow> session_handled" where
  "finish_spawn i a task agent_type caller failed h s = (case failed of
     Some e \<Rightarrow> answer h caller (AvId (Inl (''persist subagent: '' @ e)))
   | None \<Rightarrow> (case spawn_sub_agent_actor i h s a agent_type of
       None \<Rightarrow> answer h caller (AvId (Inl ''could not start the subagent''))
     | Some (_, h1, out) \<Rightarrow>
         (h1, out @ [TellAgent a (Enqueue (IncUser (''task:'' @ a) task []) None), AnswerCaller caller (AvId (Inr a))], sfx_none)))"

definition sub_status_reply :: "uuid \<Rightarrow> uuid option \<Rightarrow> session_state \<Rightarrow> string + string" where
  "sub_status_reply asker which s = (case which of
     Some i \<Rightarrow> (case (if descends_from (ses_forest s) i asker then render_sub (ses_forest s) i else None) of
         Some t \<Rightarrow> Inr t | None \<Rightarrow> Inl (''no such subagent: '' @ i))
   | None \<Rightarrow> Inr (render_sub_tree (ses_forest s) asker))"

definition reconcile_subs :: "session_io \<Rightarrow> host \<Rightarrow> session_state \<Rightarrow> session_handled" where
  "reconcile_subs i h s = (h, [], journal
     (map (\<lambda>a. SubAgentFailed (sio_now i) a INTERRUPTED_ERROR) (interrupted_subs (ses_forest s))))"

section \<open>Sub sessions\<close>

definition branchable :: "uuid \<Rightarrow> session_state \<Rightarrow> uuid \<Rightarrow> string \<Rightarrow> string option" where
  "branchable main s parent msg =
     (if trim msg = [] then Some ''a sub session needs a message saying what it should do''
      else if root_is_workflow (ses_forest s) then Some ''a workflow run cannot be branched''
      else if parent \<noteq> main \<and> sub_session_of (ses_forest s) parent = None then Some ''only a session can be branched''
      else None)"

definition sub_session_source :: "session_io \<Rightarrow> host \<Rightarrow> session_state \<Rightarrow> uuid \<Rightarrow> reached" where
  "sub_session_source i h s parent =
     (if parent = ho_id h then main_actor h else spawn_sub_session_actor i h s parent)"

definition requested_choice :: "requested_runtime \<Rightarrow> runtime_choice" where
  "requested_choice env = (case env of ReqOwn _ \<Rightarrow> RcPending | ReqWithout \<Rightarrow> RcWithout | ReqInherit \<Rightarrow> RcInherit)"

definition create_sub_session ::
    "session_io \<Rightarrow> uuid \<Rightarrow> seed_mode \<Rightarrow> string \<Rightarrow> string \<Rightarrow> requested_runtime \<Rightarrow> nat \<Rightarrow> host \<Rightarrow> session_state \<Rightarrow> session_handled" where
  "create_sub_session i parent sd msg title env caller h s = (case branchable (ho_id h) s parent msg of
     Some why \<Rightarrow> answer h caller (AvId (Inl why))
   | None \<Rightarrow> (case sub_session_source i h s parent of
       None \<Rightarrow> answer h caller (AvId (Inl ''the session to branch is not available''))
     | Some (source, h1, out) \<Rightarrow> (case sio_log_head i source of
         None \<Rightarrow> (h1, out @ [AnswerCaller caller (AvId (Inl ''the session to branch is not available''))], sfx_none)
       | Some source_seq \<Rightarrow>
           (h1, out, (journal [SubSessionCreated (sio_now i) (sio_id i) parent source_seq sd msg title (requested_choice env)])
              \<lparr> sfx_ack := Some (FinishCreateSubSession (sio_id i) env caller) \<rparr>))))"

text \<open>Building a sub session's history, off the mailbox, from what its record says.\<close>

definition seed_with :: "session_io \<Rightarrow> uuid \<Rightarrow> seed \<Rightarrow> host \<Rightarrow> session_state \<Rightarrow> host \<times> session_out list" where
  "seed_with i a sd h s =
     (case (Option.bind (owner_of_agent (ses_forest s) a) (\<lambda>(_, e). en_parent e), sub_session_of (ses_forest s) a) of
        (Some parent, Some rec) \<Rightarrow> (case sub_session_source i h s parent of
            None \<Rightarrow> (h, [])
          | Some (source, h1, out) \<Rightarrow>
              (h1, out @ (if resident h1 a
                 then [SeedTask source a sd (sn_source_seq rec) (IncUser (''sub_session-message:'' @ a) (sn_message rec) [])]
                 else [])))
      | _ \<Rightarrow> (h, []))"

definition start_seeding :: "session_io \<Rightarrow> uuid \<Rightarrow> host \<Rightarrow> session_state \<Rightarrow> host \<times> session_out list" where
  "start_seeding i a h s =
     (case (Option.bind (owner_of_agent (ses_forest s) a) (\<lambda>(_, e). en_parent e), sub_session_of (ses_forest s) a) of
        (Some parent, Some rec) \<Rightarrow> (case sn_seed rec of
            SeedCopy \<Rightarrow> seed_with i a SeedFromCopy h s
          | SeedFresh \<Rightarrow> seed_with i a SeedFromNothing h s
          | SeedSummary \<Rightarrow> (case sub_session_source i h s parent of
              None \<Rightarrow> (h, [])
            | Some (source, h1, out) \<Rightarrow>
                (h1, out @ [TellAgent source (Enqueue (IncSubSession (''sub_session-summarise:'' @ a) a) None)])))
      | _ \<Rightarrow> (h, []))"

definition finish_create_sub_session ::
    "session_io \<Rightarrow> uuid \<Rightarrow> requested_runtime \<Rightarrow> nat \<Rightarrow> string option \<Rightarrow> host \<Rightarrow> session_state \<Rightarrow> session_handled" where
  "finish_create_sub_session i a env caller failed h s = (case failed of
     Some e \<Rightarrow> answer h caller (AvId (Inl (''persist the sub session: '' @ e)))
   | None \<Rightarrow> (case spawn_sub_session_actor i h s a of
       None \<Rightarrow> answer h caller (AvId (Inl ''could not start the sub session''))
     | Some (_, h1, out1) \<Rightarrow> (case start_seeding i a h1 s of
         (h2, out2) \<Rightarrow>
           (h2, out1 @ (case env of ReqOwn e \<Rightarrow> [SelfSend (Provision a (Some e))] | _ \<Rightarrow> []) @ out2
              @ [AnswerCaller caller (AvId (Inr a))], sfx_none))))"

fun summarised :: "session_io \<Rightarrow> uuid list \<Rightarrow> string + string \<Rightarrow> host \<Rightarrow> session_state \<Rightarrow> host \<times> session_out list" where
  "summarised i [] r h s = (h, [])"
| "summarised i (a # as) r h s =
     (if sub_session_of (ses_forest s) a = None then summarised i as r h s
      else case (case r of Inr summary \<Rightarrow> seed_with i a (SeedFromSummary summary) h s
                   | Inl err \<Rightarrow> (h, [SelfSend (SeedFailedSubSession a err)])) of
          (h1, out1) \<Rightarrow> (case summarised i as r h1 s of (h2, out2) \<Rightarrow> (h2, out1 @ out2)))"

fun reseed :: "session_io \<Rightarrow> uuid list \<Rightarrow> host \<Rightarrow> session_state \<Rightarrow> host \<times> session_out list" where
  "reseed i [] h s = (h, [])"
| "reseed i (a # as) h s = (case spawn_sub_session_actor i h s a of
     None \<Rightarrow> reseed i as h s
   | Some (_, h1, out1) \<Rightarrow> (case start_seeding i a h1 s of
       (h2, out2) \<Rightarrow> (case reseed i as h2 s of (h3, out3) \<Rightarrow> (h3, out1 @ out2 @ out3))))"

definition seeded_sub_session :: "session_io \<Rightarrow> uuid \<Rightarrow> host \<Rightarrow> session_state \<Rightarrow> session_handled" where
  "seeded_sub_session i a h s =
     (if sub_session_of (ses_forest s) a = None then quiet h
      else persist_and_advance i [SubSessionSeeded (sio_now i) a] h s)"

definition seed_failed_sub_session :: "session_io \<Rightarrow> uuid \<Rightarrow> host \<Rightarrow> session_state \<Rightarrow> session_handled" where
  "seed_failed_sub_session i a h s =
     (if sub_session_of (ses_forest s) a = None then quiet h
      else (h, [], journal [SubSessionStatusChanged (sio_now i) a AsFailed]))"

section \<open>What agents report\<close>

datatype turn_end =
    EndConcluded json
  | EndAsked
  | EndFailed string bool
  | EndParked
  | EndInterrupted

datatype not_an_end =
    NeStarted
  | NeUsage usage_total u32 efficiency_stats
  | NeSeedSummary "uuid list" "string + string"

definition split_outcome :: "agent_outcome \<Rightarrow> (uuid \<times> not_an_end) + (uuid \<times> turn_end)" where
  "split_outcome outc = (case outc of
     Concluded a out \<Rightarrow> Inr (a, EndConcluded out)
   | Asked a _ \<Rightarrow> Inr (a, EndAsked)
   | OutParked a \<Rightarrow> Inr (a, EndParked)
   | Interrupted a \<Rightarrow> Inr (a, EndInterrupted)
   | OutFailed a err _ final \<Rightarrow> Inr (a, EndFailed err final)
   | UsageRecorded a tot ctx eff \<Rightarrow> Inl (a, NeUsage tot ctx eff)
   | Started a \<Rightarrow> Inl (a, NeStarted)
   | OutSeedSummary a ids r \<Rightarrow> Inl (a, NeSeedSummary ids r))"

definition PARKED_ERROR :: string where
  "PARKED_ERROR = ''agent parked; timers are not supported in sessions''"

definition main_outcome :: "session_io \<Rightarrow> turn_end \<Rightarrow> host \<Rightarrow> session_state \<Rightarrow> session_handled" where
  "main_outcome i e h s =
     (let a = ho_id h; at = sio_now i
      in case e of
           EndConcluded _ \<Rightarrow> persist_and_advance i [STurnEnded at a] h s
         | EndAsked \<Rightarrow> persist_and_advance i [SAskRecorded at a] h s
         | EndInterrupted \<Rightarrow>
             if main_turn (ses_forest s) = Some PhRunning then persist_and_advance i [STurnInterrupted at a] h s
             else quiet h
         | EndFailed err final \<Rightarrow>
             if final then persist_and_advance i [SessionFailed at err] h s
             else persist_and_advance i [STurnFailed at a err] h s
         | EndParked \<Rightarrow> persist_and_advance i [STurnFailed at a PARKED_ERROR] h s)"

definition on_step_outcome :: "session_io \<Rightarrow> run_id \<Rightarrow> nat \<Rightarrow> uuid \<Rightarrow> turn_end \<Rightarrow> host \<Rightarrow> session_state \<Rightarrow> session_handled" where
  "on_step_outcome i run index a e h s =
     (let at = sio_now i
      in case e of
           EndConcluded out \<Rightarrow> persist_and_advance i [StepConcluded at run index out] h s
         | EndAsked \<Rightarrow> (h, [], journal [SAskRecorded at a])
         | EndFailed err _ \<Rightarrow> persist_and_advance i [StepFailed at run index err] h s
         | EndParked \<Rightarrow> (h, [], journal [])
         | EndInterrupted \<Rightarrow> quiet h)"

definition sub_outcome :: "session_io \<Rightarrow> uuid \<Rightarrow> turn_end \<Rightarrow> host \<Rightarrow> session_state \<Rightarrow> session_handled" where
  "sub_outcome i a e h s =
     (let at = sio_now i
      in if sub_of (ses_forest s) a = None then quiet h
         else case e of
             EndConcluded out \<Rightarrow> persist_and_advance i
               [SubAgentCompleted at a (case out of JString t \<Rightarrow> t | _ \<Rightarrow> sio_show_json i out)] h s
           | EndFailed err _ \<Rightarrow> persist_and_advance i [SubAgentFailed at a err] h s
           | EndAsked \<Rightarrow> persist_and_advance i [SubAgentFailed at a ''subagent asked the user; not supported''] h s
           | EndParked \<Rightarrow> persist_and_advance i [] h s
           | EndInterrupted \<Rightarrow> quiet h)"

definition sub_session_outcome :: "session_io \<Rightarrow> uuid \<Rightarrow> turn_end \<Rightarrow> host \<Rightarrow> session_state \<Rightarrow> session_handled" where
  "sub_session_outcome i a e h s =
     (let at = sio_now i; ends = (\<lambda>outc. persist_and_advance i [SubSessionTurnEnded at a outc] h s)
      in case e of
           EndConcluded _ \<Rightarrow> ends TurnOk
         | EndAsked \<Rightarrow> persist_and_advance i [SubSessionStatusChanged at a AsAwaitingInput] h s
         | EndFailed err final \<Rightarrow>
             if final then persist_and_advance i [SessionFailed at err] h s else ends (TurnFailed err)
         | EndParked \<Rightarrow> ends (TurnFailed PARKED_ERROR)
         | EndInterrupted \<Rightarrow>
             if map_option sn_status (sub_session_of (ses_forest s) a) = Some AsRunning then ends TurnInterrupted
             else quiet h)"

definition agent_started :: "session_io \<Rightarrow> uuid \<Rightarrow> host \<Rightarrow> session_state \<Rightarrow> session_handled" where
  "agent_started i a h s = (case agent_key_of (ses_forest s) a of
     Some KeyMain \<Rightarrow> (h, [], journal [STurnBegan (sio_now i) a])
   | Some (KeySub _) \<Rightarrow> (h, [], journal [SubAgentRunning (sio_now i) a])
   | Some (KeySubSession _) \<Rightarrow> (h, [], journal [SubSessionStatusChanged (sio_now i) a AsRunning])
   | _ \<Rightarrow> quiet h)"

definition agent_selector :: "host \<Rightarrow> uuid \<Rightarrow> string" where
  "agent_selector h a = (if a = ho_id h then MAIN_AGENT_ID else a)"

text \<open>The questions are read off the outcome before it is split; only one with a call id can be answered.\<close>

definition asked_rows :: "host \<Rightarrow> agent_key option \<Rightarrow> agent_outcome \<Rightarrow> session_out list" where
  "asked_rows h k outc = (case outc of
     Asked a asks \<Rightarrow>
       (let rows = filter (\<lambda>q. aq_call_id q \<noteq> None) asks
        in if (case k of Some (KeySub _) \<Rightarrow> True | _ \<Rightarrow> False) \<or> rows = [] then []
           else [RecordAsks (agent_selector h a) rows])
   | _ \<Rightarrow> [])"

definition agent_reported :: "session_io \<Rightarrow> agent_outcome \<Rightarrow> host \<Rightarrow> session_state \<Rightarrow> session_handled" where
  "agent_reported i outc h s = (case split_outcome outc of
     Inl (a, NeUsage tot ctx eff) \<Rightarrow>
       (h, [], journal [SUsageRecorded (sio_now i) (agent_selector h a) tot ctx eff])
   | Inl (a, NeStarted) \<Rightarrow> agent_started i a h s
   | Inl (_, NeSeedSummary ids r) \<Rightarrow> (case summarised i ids r h s of (h1, out) \<Rightarrow> (h1, out, sfx_none))
   | Inr (a, e) \<Rightarrow>
       (let k = agent_key_of (ses_forest s) a
        in before (asked_rows h k outc)
             (case k of
                Some KeyMain \<Rightarrow> main_outcome i e h s
              | Some (KeyStep _) \<Rightarrow> (case step_of_agent (ses_forest s) a of
                  Some (run, index) \<Rightarrow> on_step_outcome i run index a e h s | None \<Rightarrow> quiet h)
              | Some (KeySubSession _) \<Rightarrow> sub_session_outcome i a e h s
              | Some (KeySub _) \<Rightarrow> sub_outcome i a e h s
              | None \<Rightarrow> quiet h)))"

section \<open>Hooks\<close>

definition is_working :: "session_state \<Rightarrow> agent_key \<Rightarrow> bool" where
  "is_working s k = (case k of
     KeyMain \<Rightarrow> main_turn (ses_forest s) = Some PhRunning
   | KeySub a \<Rightarrow> map_option su_status (sub_of (ses_forest s) a) = Some SubRunning
   | KeyStep a \<Rightarrow> (case step_of_agent (ses_forest s) a of
       None \<Rightarrow> False
     | Some (run, index) \<Rightarrow> (case workflow_of (ses_forest s) run of
         None \<Rightarrow> False | Some w \<Rightarrow> run_current (wf_run w) = Some index))
   | KeySubSession a \<Rightarrow> map_option sn_status (sub_session_of (ses_forest s) a) = Some AsRunning)"

definition halt_agent :: "session_io \<Rightarrow> agent_key \<Rightarrow> string \<Rightarrow> host \<Rightarrow> session_state \<Rightarrow> session_handled" where
  "halt_agent i k reason h s =
     (if resident h (key_id h k) \<and> is_working s k
      then before (cancel_agent h k) (agent_reported i (OutFailed (key_id h k) reason False False) h s)
      else quiet h)"

definition tell_resident :: "host \<Rightarrow> agent_key \<Rightarrow> agent_command \<Rightarrow> session_handled" where
  "tell_resident h k cmd = (h, if resident h (key_id h k) then [TellAgent (key_id h k) cmd] else [], sfx_none)"

section \<open>Bookkeeping\<close>

definition delete_agent :: "session_io \<Rightarrow> uuid \<Rightarrow> nat \<Rightarrow> host \<Rightarrow> session_state \<Rightarrow> session_handled" where
  "delete_agent i a caller h s =
     (if sub_of (ses_forest s) a = None \<and> sub_session_of (ses_forest s) a = None
      then answer h caller (AvUnit (Inl (if a = ho_id h then ''the main agent is the session; delete the session instead''
             else ''no such subagent or sub session: '' @ a)))
      else (case retire_all (descendant_agents (ses_forest s) a @ [a]) h of
          (h1, out) \<Rightarrow> (h1, out @ [AnswerCaller caller (AvUnit (Inr ()))], journal [AgentDeleted (sio_now i) a])))"

definition normalize_session_title :: "string \<Rightarrow> string + string" where
  "normalize_session_title inp =
     (let title = trim inp
      in if title = [] then Inl ''session title must not be empty''
         else if list_ex (\<lambda>c. c = nl \<or> c = CHR 0x0D) title then Inl ''session title must be a single line''
         else if length (utf8_chars title) > TITLE_MAX_CHARS
         then Inl (''session title must be at most '' @ show_nat TITLE_MAX_CHARS @ '' characters'')
         else Inr title)"

definition set_title :: "session_io \<Rightarrow> string \<Rightarrow> nat \<Rightarrow> host \<Rightarrow> session_state \<Rightarrow> session_handled" where
  "set_title i title caller h s =
     (case (case normalize_session_title title of Inl e \<Rightarrow> ([], Inl e) | Inr t \<Rightarrow> rename_main_agent i t) of
        (out, r) \<Rightarrow> (h, out @ [AnswerCaller caller (AvText r)],
          (case r of Inr name \<Rightarrow> journal [SRenamed name] | Inl _ \<Rightarrow> sfx_none)))"

text \<open>What each component sends itself at load, in the components' order.\<close>

definition lifecycle_on_load :: "session_state \<Rightarrow> session_command option" where
  "lifecycle_on_load s =
     (if ses_fatal s \<noteq> None then None
      else map_option (\<lambda>(_, rec). Provision (rt_owner rec) None)
        (find (\<lambda>(_, rec). case rt_provisioning rec of ProvInFlight _ \<Rightarrow> True | ProvFailed _ _ \<Rightarrow> True | _ \<Rightarrow> False)
           (ses_runtimes s)))"

definition subs_on_load :: "session_state \<Rightarrow> session_command option" where
  "subs_on_load s = (if interrupted_subs (ses_forest s) = [] then None else Some ReconcileSubs)"

definition runs_on_load :: "session_state \<Rightarrow> session_command option" where
  "runs_on_load s =
     (if has_step_in_flight (ses_forest s) then Some ReconcileSteps
      else if list_ex (\<lambda>(_, w). rn_status (wf_run w) = WrPending) (workflows (ses_forest s)) then Some AdvanceRuns
      else None)"

definition sub_sessions_on_load :: "session_state \<Rightarrow> session_command option" where
  "sub_sessions_on_load s = (if has_seeding_sub_sessions (ses_forest s) then Some ReseedInterrupted else None)"

definition repairs :: "session_state \<Rightarrow> session_command list" where
  "repairs s = List.map_filter id [lifecycle_on_load s, subs_on_load s, runs_on_load s, sub_sessions_on_load s]"

definition adopt :: "session_io \<Rightarrow> session_spec \<Rightarrow> host \<Rightarrow> session_state \<Rightarrow> host \<times> session_out list" where
  "adopt i spec h s =
     (let h1 = h\<lparr> ho_spec := Some spec \<rparr>
      in case (case sc_kind spec of WorkflowSession _ \<Rightarrow> (h1, []) | AgentSession _ \<Rightarrow> spawn_main_agent i h1 s) of
           (h2, out) \<Rightarrow> (h2, out @ map SelfSend (repairs s)))"

definition on_recovery :: "session_io \<Rightarrow> host \<Rightarrow> session_state \<Rightarrow> host \<times> session_out list" where
  "on_recovery i h s = (case ses_spec s of None \<Rightarrow> (h, []) | Some spec \<Rightarrow> adopt i spec h s)"

definition create_session ::
    "session_io \<Rightarrow> session_spec \<Rightarrow> string option \<Rightarrow> first_message option \<Rightarrow> host \<Rightarrow> session_state \<Rightarrow> session_handled" where
  "create_session i spec name msg h s =
     (let creating = (ses_spec s = None);
          sends = (if creating then [SelfSend (Provision (ho_id h) None)] else [])
            @ (case msg of
                 Some m \<Rightarrow> [SelfSend (UserMessage None (fm_text m) (fm_artifacts m) (fm_caller m))] | None \<Rightarrow> [])
      in if \<not> creating then (h, sends, sfx_none)
         else
           (let evs = SpecRecorded (sio_now i) (ho_id h) spec # (case name of Some n \<Rightarrow> [SRenamed n] | None \<Rightarrow> []);
                s1 = session_folds s evs
            in case (case ses_spec s1 of Some sp \<Rightarrow> adopt i sp h s1 | None \<Rightarrow> (h, [])) of
                 (h1, out) \<Rightarrow> (h1, sends @ out, journal evs)))"

section \<open>Rosters\<close>

definition settings_of :: "session_io \<Rightarrow> host \<Rightarrow> session_state \<Rightarrow> string \<Rightarrow> agent_settings option" where
  "settings_of i h s sel = Option.bind
     (if sel = MAIN_AGENT_ID then Some KeyMain
      else Option.bind (sio_parse_uuid i sel) (agent_key_of (ses_forest s))) (effective_settings h s)"

definition source_preset :: "agent_source \<Rightarrow> string option" where
  "source_preset src = (case src of AdHoc \<Rightarrow> None | Preset n \<Rightarrow> Some n)"

definition preset_of :: "session_io \<Rightarrow> host \<Rightarrow> session_state \<Rightarrow> string \<Rightarrow> string option" where
  "preset_of i h s sel = Option.bind (settings_of i h s sel) (\<lambda>st. source_preset (as_source st))"

definition model_of :: "session_io \<Rightarrow> host \<Rightarrow> session_state \<Rightarrow> string \<Rightarrow> string option" where
  "model_of i h s sel = map_option as_model (settings_of i h s sel)"

definition main_entry :: "uuid \<Rightarrow> session_state \<Rightarrow> string option \<Rightarrow> agent_entry" where
  "main_entry session s model = \<lparr> ag_id = MAIN_AGENT_ID, ag_parent = None, ag_title = main_title (ses_forest s),
     ag_depth = 0, ag_agent_type = None, ag_preset = None,
     ag_status = (case session_status_of s of
         StatProvisioning \<Rightarrow> AsProvisioning | StatRunning \<Rightarrow> AsRunning | StatAwaitingInput \<Rightarrow> AsAwaitingInput
       | StatFailed _ \<Rightarrow> AsFailed | StatProvisioningFailed _ \<Rightarrow> AsFailed | StatUnrecoverable _ \<Rightarrow> AsFailed
       | StatIdle \<Rightarrow> AsIdle | StatFinished \<Rightarrow> AsIdle),
     ag_error = status_reason (session_status_of s), ag_kind = KindMain, ag_input = None, ag_output = None,
     ag_stats = agent_stats_of s (Some session) MAIN_AGENT_ID, ag_model = model, ag_started_at_ms = 0,
     ag_ended_at_ms = 0, ag_run = None, ag_workflow = None \<rparr>"

definition hosted_parent :: "run_forest \<Rightarrow> uuid option \<Rightarrow> uuid option" where
  "hosted_parent f p = Option.bind p (\<lambda>a. if is_hosted_agent f a then Some a else None)"

definition step_entry_of :: "session_io \<Rightarrow> run_id \<Rightarrow> workflow_run \<Rightarrow> step_run \<Rightarrow> session_state \<Rightarrow> string option \<Rightarrow> agent_entry" where
  "step_entry_of i run w st s model = \<lparr> ag_id = se_agent st,
     ag_parent = hosted_parent (ses_forest s) (Option.bind (forest_entry (ses_forest s) run) en_parent),
     ag_title = Some (se_step st), ag_depth = 0, ag_agent_type = None, ag_preset = None,
     ag_status = (case se_status st of
         StRunning \<Rightarrow> AsRunning | StConcluded \<Rightarrow> AsCompleted | StFailed \<Rightarrow> AsFailed | StCancelled \<Rightarrow> AsCancelled),
     ag_error = se_error st, ag_kind = KindStep, ag_input = None,
     ag_output = map_option (output_as_input (sio_show_json i)) (se_output st),
     ag_stats = agent_stats_of s (Some (se_agent st)) (se_agent st), ag_model = model,
     ag_started_at_ms = se_started_at_ms st,
     ag_ended_at_ms = (case se_ended_at_ms st of Some t \<Rightarrow> t | None \<Rightarrow> 0),
     ag_run = Some run, ag_workflow = Some (wf_workflow w) \<rparr>"

definition sub_entry_of :: "uuid \<Rightarrow> session_state \<Rightarrow> sub_run \<Rightarrow> string option \<Rightarrow> agent_entry" where
  "sub_entry_of a s rec model = \<lparr> ag_id = a,
     ag_parent = hosted_parent (ses_forest s) (Option.bind (owner_of_agent (ses_forest s) a) (\<lambda>(_, e). en_parent e)),
     ag_title = Some (su_title rec),
     ag_depth = (case depth_of_agent (ses_forest s) a of Some d \<Rightarrow> d | None \<Rightarrow> 0),
     ag_agent_type = su_agent_type rec, ag_preset = None,
     ag_status = (case su_status rec of
         SubRunning \<Rightarrow> AsRunning | SubCompleted \<Rightarrow> AsCompleted | SubFailed \<Rightarrow> AsFailed),
     ag_error = su_error rec, ag_kind = KindSub, ag_input = Some (su_task rec), ag_output = su_output rec,
     ag_stats = agent_stats_of s (Some a) a, ag_model = model, ag_started_at_ms = su_started_at_ms rec,
     ag_ended_at_ms = su_ended_at_ms rec, ag_run = None, ag_workflow = None \<rparr>"

definition sub_session_entry_of :: "uuid \<Rightarrow> session_state \<Rightarrow> sub_session_run \<Rightarrow> string option \<Rightarrow> sub_session_entry" where
  "sub_session_entry_of a s rec model =
     (let owner = map_option snd (owner_of_agent (ses_forest s) a)
      in \<lparr> ae_id = a,
           ae_parent = Option.bind (Option.bind owner en_parent)
             (\<lambda>p. if sub_session_of (ses_forest s) p = None then None else Some p),
           ae_title = sn_title rec, ae_status = sn_status rec,
           ae_created_at_ms = (case owner of Some e \<Rightarrow> en_created_at_ms e | None \<Rightarrow> 0),
           ae_last_activity_ms = sn_last_activity_ms rec, ae_input = sn_message rec,
           ae_stats = agent_stats_of s (Some a) a, ae_model = model \<rparr>)"

definition agent_roster :: "session_io \<Rightarrow> host \<Rightarrow> session_state \<Rightarrow> agent_entry list" where
  "agent_roster i h s =
     (let f = ses_forest s;
          mains = (if root_is_workflow f then [] else [main_entry (ho_id h) s (model_of i h s MAIN_AGENT_ID)]);
          steps = concat (map (\<lambda>(run, w). map (\<lambda>st. step_entry_of i run w st s (model_of i h s (se_agent st)))
                    (rn_steps (wf_run w))) (workflows f));
          subagents = List.map_filter (\<lambda>a. map_option (\<lambda>rec. sub_entry_of a s rec (model_of i h s a)) (sub_of f a)) (sub_ids f)
      in map (\<lambda>e. e\<lparr> ag_preset := preset_of i h s (ag_id e) \<rparr>) (mains @ steps @ subagents))"

definition sub_session_roster :: "session_io \<Rightarrow> host \<Rightarrow> session_state \<Rightarrow> sub_session_entry list" where
  "sub_session_roster i h s = List.map_filter (\<lambda>a. map_option (\<lambda>rec. sub_session_entry_of a s rec (model_of i h s a))
     (sub_session_of (ses_forest s) a)) (sub_session_ids (ses_forest s))"

definition runtime_checkouts :: "runtime_id \<Rightarrow> session_state \<Rightarrow> string list option" where
  "runtime_checkouts r s = map_option (\<lambda>rec. List.map_filter (\<lambda>(_, uses, args).
       if uses = ''git_checkout'' then map_option snd (find (\<lambda>(k, _). k = ''url'') args) else None)
     (re_provision (rt_env rec))) (bt_get (ses_runtimes s) r)"

definition session_snapshot_of :: "session_io \<Rightarrow> host \<Rightarrow> session_state \<Rightarrow> session_snapshot" where
  "session_snapshot_of i h s = \<lparr> sp_status = session_status_of s, sp_usage_total = session_usage_total s,
     sp_efficiency_total = session_efficiency_total s, sp_agents = agent_roster i h s,
     sp_sub_sessions = sub_session_roster i h s \<rparr>"

definition read_agent_log ::
    "session_io \<Rightarrow> string option \<Rightarrow> read_command \<Rightarrow> nat \<Rightarrow> host \<Rightarrow> session_state \<Rightarrow> session_handled" where
  "read_agent_log i sel rd caller h s = (case resolve_agent i h s sel of
     None \<Rightarrow> answer h caller AvNoAgent
   | Some (_, a, h1, out) \<Rightarrow> (h1, out @ [ForwardRead a rd caller], sfx_none))"

section \<open>Dispatch\<close>

text \<open>A command that reaches a session nobody has created is refused.\<close>

definition refuse_until_told :: "session_command \<Rightarrow> host \<Rightarrow> session_handled" where
  "refuse_until_told cmd h = (case cmd of
     UserMessage _ _ _ caller \<Rightarrow> answer h caller (AvMessage (Inl UeNotFound))
   | StopTurn _ caller \<Rightarrow> answer h caller (AvUnit (Inl ''no such session''))
   | _ \<Rightarrow> quiet h)"

definition handle_session :: "session_io \<Rightarrow> session_command \<Rightarrow> host \<Rightarrow> session_state \<Rightarrow> session_handled" where
  "handle_session i cmd h s = (case cmd of
     Provision owner env \<Rightarrow> provision i owner env h s
   | NarrateProvisioning r detail \<Rightarrow> narrate_provisioning i r detail h s
   | FinishProvisioning r err final \<Rightarrow> finish_provisioning i r err final h s
   | PrepareOffload caller \<Rightarrow> prepare_offload caller h s
   | DeleteSession caller \<Rightarrow> delete_session caller h s
   | UserMessage sel text artifacts caller \<Rightarrow> user_message i sel text artifacts caller h s
   | StopTurn sel caller \<Rightarrow> stop_turn i sel caller h s
   | AnswerAgent sel answers caller \<Rightarrow> answer_agent i sel answers caller h s
   | CreateRun parent graph caller \<Rightarrow> create_run i parent graph caller h s
   | FinishCreateRun run caller failed \<Rightarrow> finish_create_run i run caller failed h s
   | RunStatus asker run caller \<Rightarrow> run_status i asker run caller h s
   | AdvanceRuns \<Rightarrow> advance_runs i h s
   | RetryStep index caller \<Rightarrow> retry_step i index caller h s
   | ReadRunState caller \<Rightarrow> answer h caller (AvRunState (map_option (\<lambda>(_, w). wf_run w) (root_workflow (ses_forest s))))
   | ReconcileSteps \<Rightarrow> reconcile_steps i h s
   | SpawnSub spawner title task agent_type caller \<Rightarrow> spawn_sub i spawner title task agent_type caller h s
   | FinishSpawn a task agent_type caller failed \<Rightarrow> finish_spawn i a task agent_type caller failed h s
   | SubStatus asker which caller \<Rightarrow> answer h caller (AvText (sub_status_reply asker which s))
   | ReconcileSubs \<Rightarrow> reconcile_subs i h s
   | CreateSubSession parent sd msg title env caller \<Rightarrow> create_sub_session i parent sd msg title env caller h s
   | FinishCreateSubSession a env caller failed \<Rightarrow> finish_create_sub_session i a env caller failed h s
   | SeededSubSession a \<Rightarrow> seeded_sub_session i a h s
   | SummarisedSubSessions ids r \<Rightarrow> (case summarised i ids r h s of (h1, out) \<Rightarrow> (h1, out, sfx_none))
   | SeedFailedSubSession a err \<Rightarrow> seed_failed_sub_session i a h s
   | ReseedInterrupted \<Rightarrow> (case reseed i (seeding_sub_sessions (ses_forest s)) h s of (h1, out) \<Rightarrow> (h1, out, sfx_none))
   | ReadAgentLog sel rd caller \<Rightarrow> read_agent_log i sel rd caller h s
   | RuntimeCheckouts r caller \<Rightarrow> answer h caller (AvUrls (runtime_checkouts r s))
   | ReadSnapshot caller \<Rightarrow> answer h caller (AvSnapshot (session_snapshot_of i h s))
   | HooksRanFor k records \<Rightarrow> tell_resident h k (HooksRan records)
   | ContinueAfterStop k reason \<Rightarrow> tell_resident h k (Enqueue (IncContinue (sio_item i) reason) None)
   | HaltAgent k reason \<Rightarrow> halt_agent i k reason h s
   | DeleteAgent a caller \<Rightarrow> delete_agent i a caller h s
   | SetTitle title caller \<Rightarrow> set_title i title caller h s
   | TitleSet name \<Rightarrow> (h, [], journal [SRenamed name])
   | CreateSession spec name msg \<Rightarrow> create_session i spec name msg h s
   | ReportProgress k stage detail \<Rightarrow> tell_resident h k (RecordLifecycle (LPreparing stage detail) (sio_now i))
   | AgentReported outc \<Rightarrow> agent_reported i outc h s)"

definition handle_session_command :: "session_io \<Rightarrow> session_command \<Rightarrow> host \<Rightarrow> session_state \<Rightarrow> session_handled" where
  "handle_session_command i cmd h s =
     (if ho_spec h = None \<and> (case cmd of CreateSession _ _ _ \<Rightarrow> False | _ \<Rightarrow> True) then refuse_until_told cmd h
      else handle_session i cmd h s)"

text \<open>What a persisted batch is told to the agents: the resident ones, against the state the batch folded to.\<close>

definition record_lifecycle :: "session_io \<Rightarrow> session_event list \<Rightarrow> host \<Rightarrow> session_state \<Rightarrow> session_out list" where
  "record_lifecycle i evs h s = concat (map (\<lambda>ev. concat (map (\<lambda>(k, payload).
       if resident h (key_id h k) then [TellAgent (key_id h k) (RecordLifecycle payload (sio_now i))] else [])
     (route ev s))) evs)"

end
