(* ===== verification/Session_System.thy ===== *)
theory Session_System
  imports Session_Flush Session_Actor
begin

text \<open>
  The session as a whole: the steps its actor can take, one command after another with reloads in between,
  and the invariant every one of them keeps. What comes from outside is that ids are new when they are minted
  and that the ids derived for a run's steps are never minted.
\<close>

section \<open>Names under every event\<close>

lemma names_fresh_default: "minted g j \<Longrightarrow> (\<And>run n run' n'. g run n = g run' n' \<Longrightarrow> run = run' \<and> n = n') \<Longrightarrow> names_fresh g forest_default"
  by (rule names_freshI) (auto simp: forest_default_def bt_get_def unused_def)

lemma unused_parts:
  "unused f a \<Longrightarrow> bt_get (rf_agents f) a = None" "unused f a \<Longrightarrow> bt_get (rf_entries f) a = None"
  "unused f a \<Longrightarrow> bt_get (rf_entries f) i = Some e \<Longrightarrow> en_parent e \<noteq> Some a"
  "unused f a \<Longrightarrow> bt_get (rf_entries f) i = Some e \<Longrightarrow> a \<notin> set (hosted_by i (en_state e))"
  unfolding unused_def by blast+

lemma names_fresh_added:
  assumes ok: "names_fresh g f" and i: "minted g i" "bt_get (rf_entries f) i = None"
    and entries: "\<And>k. bt_get (rf_entries f') k = (if k = i then Some e else bt_get (rf_entries f) k)"
    and agents: "\<And>a. a \<noteq> i \<Longrightarrow> bt_get (rf_agents f') a = bt_get (rf_agents f) a"
    and hosted: "set (hosted_by i (en_state e)) \<subseteq> {i}"
    and parent: "\<And>p. en_parent e = Some p \<Longrightarrow> \<not> unused f p \<and> (is_work (en_state e) \<or> minted g p)"
  shows "names_fresh g f'"
proof (rule names_freshI)
  fix run n assume n: "steps_of f' run \<le> n"
  have "steps_of f run \<le> n"
  proof (cases "run = i")
    case True
    then show ?thesis using i(2) by (simp add: steps_of_def workflow_of_def)
  next
    case False
    then show ?thesis using n entries by (simp add: steps_of_def workflow_of_def)
  qed
  then have u: "unused f (g run n)" by (rule names_freshD(1) [OF ok])
  have ne: "g run n \<noteq> i" using i(1) by (simp add: minted_def)
  show "unused f' (g run n)"
    unfolding unused_def
  proof (intro conjI allI impI)
    show "bt_get (rf_agents f') (g run n) = None" using agents [OF ne] unused_parts(1) [OF u] by simp
    show "bt_get (rf_entries f') (g run n) = None" using entries ne unused_parts(2) [OF u] by simp
    fix k e' assume "bt_get (rf_entries f') k = Some e'"
    then have "k = i \<and> e' = e \<or> bt_get (rf_entries f) k = Some e'" using entries [of k] by (auto split: if_splits)
    then show "en_parent e' \<noteq> Some (g run n)" "g run n \<notin> set (hosted_by k (en_state e'))"
      using parent u ne hosted unused_parts(3,4) [OF u] by auto
  qed
next
  fix k e' assume "bt_get (rf_entries f') k = Some e'"
  then have e': "k = i \<and> e' = e \<or> bt_get (rf_entries f) k = Some e'" using entries [of k] by (auto split: if_splits)
  then show "minted g k" using i(1) names_freshD(3) [OF ok] by blast
  show "en_parent e' = Some p \<Longrightarrow> \<not> is_work (en_state e') \<Longrightarrow> minted g p" for p
    using e' parent names_freshD(4) [OF ok] by blast
qed (rule names_freshD(2) [OF ok])

lemma names_fresh_child:
  assumes "names_fresh g f" "minted g i" "bt_get (rf_entries f) i = None"
    and "\<And>p. en_parent e = Some p \<Longrightarrow> \<not> unused f p \<and> (is_work (en_state e) \<or> minted g p)"
  shows "hosted_by i (en_state e) = [i] \<Longrightarrow> names_fresh g (host_agent i i (put_entry i e f))"
    and "hosted_by i (en_state e) = [] \<Longrightarrow> names_fresh g (put_entry i e f)"
  by (rule names_fresh_added [OF assms(1-3), where e = e]; simp add: put_host_get assms(4))+

text \<open>A deletion takes a step's agents only with their run, and what was delegated to them as well.\<close>

lemma delegated_closed:
  assumes "forest_wf f" "bt_get (rf_entries f) i = Some e" "is_work (en_state e)" "en_parent e = Some b"
    "bt_get (rf_agents f) b = Some r" "r \<in> removed_runs f a" "deletable f a"
  shows "i \<in> removed_runs f a"
proof -
  have wf: "bt_wf (rf_entries f)" "index_ok f" using assms(1) by (simp_all add: forest_wf_def)
  have i: "i \<in> set (work_runs f b)" using assms(2-4) wf(1) by (auto simp: work_runs_mem)
  obtain e' where e': "bt_get (rf_entries f) r = Some e'" "b \<in> set (hosted_by r (en_state e'))"
    using index_okD [OF wf(2) assms(5)] by blast
  have "(a, b) \<in> (delegates f)\<^sup>*"
  proof (cases "r = a")
    case True
    then have "b = a" using e' assms(7) by (auto simp: deletable_def hosted_by_def split: entry_state.splits)
    then show ?thesis by simp
  next
    case False
    then obtain x where x: "(a, x) \<in> (delegates f)\<^sup>*" "r \<in> set (work_runs f x)"
      using assms(6) by (auto simp: removed_runs_def delegated_runs_def)
    then have "b \<in> set (work_agents f x)" using e' by (auto simp: work_runs_mem [OF wf(1)] work_agents_mem [OF wf(1)])
    with x(1) show ?thesis by (auto simp: delegates_def intro: rtrancl_into_rtrancl)
  qed
  with i show ?thesis by (auto simp: removed_runs_def delegated_runs_def)
qed

lemma run_inv_agent:
  assumes "run_inv g run spec r" "n < length (rn_steps r)"
  shows "se_agent (rn_steps r ! n) = g run n"
proof -
  have "edge_ok g run spec (edges r) n" using assms by (simp add: run_inv_def path_ok_def)
  with assms(2) show ?thesis by (simp add: edge_ok_def edges_def step_edge_def)
qed

lemma agent_deleted_names:
  assumes ok: "names_fresh g f" and inv: "forest_inv g j f"
  shows "names_fresh g (apply_agent_deleted a f)"
proof (cases "deletable f a")
  case True
  let ?f = "apply_agent_deleted a f"
  note wf = forest_invD(1) [OF inv]
  note get = agent_deleted_get(1,2) [OF wf True]
  have entry: "bt_get (rf_entries ?f) k = Some e \<longleftrightarrow> k \<notin> removed_runs f a \<and> bt_get (rf_entries f) k = Some e" for k e
    by (simp add: get(1))
  have ix: "index_ok f" using wf by (simp add: forest_wf_def)
  show ?thesis
  proof (rule names_freshI)
    fix run n assume n: "steps_of ?f run \<le> n"
    show "unused ?f (g run n)"
    proof (cases "steps_of f run \<le> n")
      case True
      from names_freshD(1) [OF ok True] show ?thesis by (auto simp: unused_def get entry split: option.split)
    next
      case False
      then obtain w where w: "workflow_of f run = Some w" "n < length (rn_steps (wf_run w))"
        by (auto simp: steps_of_def split: option.splits)
      then obtain e where e: "bt_get (rf_entries f) run = Some e" "en_state e = EWorkflow w" by (auto simp: workflow_of_iff)
      have gone: "run \<in> removed_runs f a"
      proof (rule ccontr)
        assume "run \<notin> removed_runs f a"
        then have "workflow_of ?f run = Some w" using e by (simp add: workflow_of_iff entry)
        with n w(2) show False by (simp add: steps_of_def)
      qed
      have named: "\<not> minted g (g run n)" by (auto simp: minted_def)
      have "g run n = se_agent (rn_steps (wf_run w) ! n)"
        by (rule run_inv_agent [OF runs_okD [OF forest_invD(2) [OF inv] w(1)] w(2), symmetric])
      then have "g run n \<in> se_agent ` set (rn_steps (wf_run w))" using nth_mem [OF w(2)] by simp
      then have "g run n \<in> set (hosted_by run (en_state e))" by (simp add: e(2) hosted_by_def)
      then have host: "bt_get (rf_agents f) (g run n) = Some run" by (rule index_okI [OF ix e(1)])
      show ?thesis
        unfolding unused_def
      proof (intro conjI allI impI)
        show "bt_get (rf_agents ?f) (g run n) = None" using host gone by (simp add: get(2))
        show "bt_get (rf_entries ?f) (g run n) = None"
        proof (rule ccontr)
          assume "bt_get (rf_entries ?f) (g run n) \<noteq> None"
          then obtain e1 where "bt_get (rf_entries f) (g run n) = Some e1" using entry by blast
          with names_freshD(3) [OF ok] named show False by blast
        qed
        fix k e' assume "bt_get (rf_entries ?f) k = Some e'"
        then have k: "k \<notin> removed_runs f a" "bt_get (rf_entries f) k = Some e'" using entry by simp_all
        show "en_parent e' \<noteq> Some (g run n)"
        proof
          assume p: "en_parent e' = Some (g run n)"
          have "is_work (en_state e')" using names_freshD(4) [OF ok k(2) p] named by blast
          from delegated_closed [OF wf k(2) this p host gone \<open>deletable f a\<close>] k(1) show False by blast
        qed
        show "g run n \<notin> set (hosted_by k (en_state e'))" using index_okI [OF ix k(2)] host gone k(1) by auto
      qed
    qed
  next
    fix k e assume "bt_get (rf_entries ?f) k = Some e"
    then have e: "bt_get (rf_entries f) k = Some e" using entry by simp
    show "minted g k" using names_freshD(3) [OF ok e] .
    show "en_parent e = Some p \<Longrightarrow> \<not> is_work (en_state e) \<Longrightarrow> minted g p" for p using names_freshD(4) [OF ok e] .
  qed (rule names_freshD(2) [OF ok])
qed (simp add: apply_agent_deleted_def ok)

text \<open>What else a handler has seen to: where the ids in an event come from.\<close>

definition named_event :: "(uuid \<Rightarrow> nat \<Rightarrow> uuid) \<Rightarrow> session_state \<Rightarrow> session_event \<Rightarrow> bool" where
  "named_event g s ev \<longleftrightarrow> (case ev of
     SpecRecorded _ k _ \<Rightarrow> minted g k
   | SubAgentSpawned _ i _ _ _ _ \<Rightarrow> minted g i
   | RunCreated _ i _ _ \<Rightarrow> minted g i
   | SubSessionCreated _ i p _ _ _ _ _ \<Rightarrow> minted g i \<and> minted g p \<and> \<not> unused (ses_forest s) p
   | StepStarted _ run _ _ agent _ _ _ _ \<Rightarrow> agent = g run (steps_of (ses_forest s) run)
   | _ \<Rightarrow> True)"

lemma known_not_unused: "depth_of_agent f p = Some d \<Longrightarrow> \<not> unused f p"
  by (auto simp: depth_of_agent_def owner_of_agent_def unused_def split: option.splits)

lemma names_apply:
  assumes inv: "session_inv g j s" and names: "names_fresh g (ses_forest s)"
    and ev: "sound_event g j s ev" "named_event g s ev"
  shows "names_fresh g (ses_forest (session_apply s ev))"
proof (cases "settling ev")
  case True
  then show ?thesis by (rule settling_names [OF _ names])
next
  case False
  have free: "unused (ses_forest s) i \<Longrightarrow> bt_get (rf_entries (ses_forest s)) i = None" for i by (rule unused_parts(2))
  show ?thesis
  proof (cases ev)
    case (SpecRecorded at k spec)
    have k: "minted g k" using ev(2) SpecRecorded by (simp add: named_event_def)
    have f: "ses_forest s = forest_default"
      using session_invD(4) [OF inv] ev(1) SpecRecorded by (simp add: sound_event_def)
    have names0: "names_fresh g forest_default" using names f by simp
    have none: "bt_get (rf_entries forest_default) k = None" by (simp add: forest_default_def bt_get_def)
    have main: "names_fresh g (apply_root_agent k at c forest_default)" for c
      by (rule names_fresh_added [OF names0 k none, where e = "\<lparr> en_parent = None, en_created_at_ms = at,
          en_state = EMain \<lparr> mr_turn = PhIdle, mr_title = None, mr_runtime = c \<rparr> \<rparr>"])
        (simp_all add: apply_root_agent_def put_host_get hosted_by_def)
    have run: "names_fresh g (apply_root_workflow k name graph at c forest_default)" for name graph c
      by (rule names_fresh_added [OF names0 k none, where e = "\<lparr> en_parent = None, en_created_at_ms = at,
          en_state = EWorkflow \<lparr> wf_workflow = name, wf_graph = graph, wf_run = run_state_default,
            wf_notified = False, wf_runtime = c \<rparr> \<rparr>"])
        (simp_all add: apply_root_workflow_def put_host_get hosted_by_def run_state_default_def)
    show ?thesis unfolding SpecRecorded
      by (simp add: session_apply_def core_apply_def on_forest_def f main run split: session_kind.split)
  next
    case (SubAgentSpawned at i p title task ty)
    have i: "minted g i" "bt_get (rf_entries (ses_forest s)) i = None" "\<not> unused (ses_forest s) p"
      using ev SubAgentSpawned free by (auto simp: sound_event_def named_event_def new_child_def dest: known_not_unused)
    show ?thesis unfolding SubAgentSpawned
      by (simp add: session_apply_def subs_apply_def on_forest_def apply_sub_spawned_def, rule names_fresh_child(1) [OF names i(1,2)])
        (use ev i(3) in \<open>auto simp: SubAgentSpawned named_event_def hosted_by_def run_state_default_def\<close>)
  next
    case (RunCreated at i p graph)
    have i: "minted g i" "bt_get (rf_entries (ses_forest s)) i = None" "\<not> unused (ses_forest s) p"
      using ev RunCreated free by (auto simp: sound_event_def named_event_def new_child_def dest: known_not_unused)
    show ?thesis unfolding RunCreated
      by (simp add: session_apply_def runs_apply_def on_forest_def apply_run_created_def, rule names_fresh_child(2) [OF names i(1,2)])
        (use ev i(3) in \<open>auto simp: RunCreated named_event_def hosted_by_def run_state_default_def\<close>)
  next
    case (SubSessionCreated at i p n sd msg title rt)
    have i: "minted g i" "bt_get (rf_entries (ses_forest s)) i = None" "\<not> unused (ses_forest s) p"
      using ev SubSessionCreated free by (auto simp: sound_event_def named_event_def new_child_def dest: known_not_unused)
    show ?thesis unfolding SubSessionCreated
      by (simp add: session_apply_def sub_sessions_apply_def on_forest_def apply_sub_session_created_def, rule names_fresh_child(1) [OF names i(1,2)])
        (use ev i(3) in \<open>auto simp: SubSessionCreated named_event_def hosted_by_def run_state_default_def\<close>)
  next
    case (StepStarted at run n step agent attempt fr via inp)
    then obtain w where w: "workflow_of (ses_forest s) run = Some w" using ev(1) by (auto simp: sound_event_def)
    have "agent = g run (length (rn_steps (wf_run w)))" using ev(2) w StepStarted by (simp add: named_event_def steps_of_def)
    from step_started_names [OF names forest_invD(1) [OF session_invD(1) [OF inv]] w this]
    show ?thesis unfolding StepStarted by (simp add: session_apply_def runs_apply_def on_forest_def)
  next
    case (AgentDeleted at a)
    from agent_deleted_names [OF names session_invD(1) [OF inv]]
    show ?thesis unfolding AgentDeleted by (simp add: session_apply_def core_apply_def on_forest_def)
  qed (use False in \<open>simp_all add: settling_def\<close>)
qed

section \<open>What every handler keeps\<close>

text \<open>An event that needs nothing seen to.\<close>

definition calm :: "session_event \<Rightarrow> bool" where
  "calm ev \<longleftrightarrow> settling ev \<and> (\<forall>at r owner env. ev \<noteq> RuntimeRequested at r owner env)"

lemma calm_simps [simp]:
  "calm (ProvisioningStarted at r)" "calm (ProvisioningProgress at r d)" "calm (ProvisioningSucceeded at r)"
  "calm (ProvisioningFailed at r err final)" "calm (STurnBegan at a)" "calm (SAskRecorded at a)" "calm (STurnEnded at a)"
  "calm (STurnFailed at a err)" "calm (STurnStopped at a)" "calm (STurnInterrupted at a)" "calm (SessionFailed at err)"
  "calm (StepConcluded at run n out)" "calm (StepFailed at run n err)" "calm (StepCancelled at run n)"
  "calm (SRunFinished at run out)" "calm (RunFailed at run err)" "calm (RunNotified at run)" "calm (SubAgentRunning at a)"
  "calm (SubAgentCompleted at a txt)" "calm (SubAgentFailed at a err)" "calm (SubAgentNotified at a)"
  "calm (SubSessionSeeded at a)" "calm (SubSessionStatusChanged at a st)" "calm (SubSessionTurnEnded at a outc)"
  "calm (SUsageRecorded at sel tot ctx eff)" "calm (SRenamed name)"
  by (simp_all add: calm_def settling_def)

lemma calm_ok: "boundary_ok g j s \<Longrightarrow> \<forall>ev \<in> set evs. calm ev \<Longrightarrow> boundary_ok g j (session_folds s evs)"
proof (induction evs arbitrary: s)
  case (Cons ev evs)
  then have "settling ev" "sound_event g j s ev" using settling_ok [of s ev g j] by (auto simp: calm_def boundary_ok_def)
  with Cons boundary_ok_apply [OF Cons.prems(1)] show ?case by simp
qed simp

lemma sound_ok: "boundary_ok g j s \<Longrightarrow> sound_event g j s ev \<Longrightarrow> named_event g s ev \<Longrightarrow> boundary_ok g j (session_apply s ev)"
  using session_apply_inv names_apply session_apply_told unfolding boundary_ok_def by blast

definition same_host :: "host \<Rightarrow> host \<Rightarrow> bool" where
  "same_host h h' \<longleftrightarrow> ho_id h' = ho_id h \<and> ho_spec h' = ho_spec h"

lemma same_host_refl [simp]: "same_host h h" "same_host h (h\<lparr> ho_live := l \<rparr>)"
  by (simp_all add: same_host_def)

lemma same_host_trans: "same_host h h1 \<Longrightarrow> same_host h1 h2 \<Longrightarrow> same_host h h2"
  by (simp add: same_host_def)

lemma joined_same: "joined a h h' \<Longrightarrow> same_host h h'"
  by (simp add: joined_def same_host_def)

text \<open>What a handler leaves: the host it had, whoever joined it, and a state as good as the one it found.\<close>

definition kept :: "session_io \<Rightarrow> host \<Rightarrow> session_state \<Rightarrow> session_handled \<Rightarrow> bool" where
  "kept i h s r \<longleftrightarrow> (case r of (h', out, fx) \<Rightarrow> same_host h h' \<and>
     boundary_ok (sio_step_agent i) (ho_id h) (session_folds s (sfx_events fx)))"

lemma sfx_simps [simp]:
  "sfx_events sfx_none = []" "sfx_events (journal evs) = evs" "sfx_events stop_effect = []"
  "sfx_events (fx\<lparr> sfx_ack := a \<rparr>) = sfx_events fx"
  by (simp_all add: sfx_none_def journal_def stop_effect_def)

lemma kept_simps [simp]:
  "kept i h s (h', out, fx) \<longleftrightarrow> same_host h h' \<and> boundary_ok (sio_step_agent i) (ho_id h) (session_folds s (sfx_events fx))"
  "kept i h s (quiet h') \<longleftrightarrow> same_host h h' \<and> boundary_ok (sio_step_agent i) (ho_id h) s"
  "kept i h s (answer h' caller v) \<longleftrightarrow> same_host h h' \<and> boundary_ok (sio_step_agent i) (ho_id h) s"
  "kept i h s (before out' r) \<longleftrightarrow> kept i h s r"
  by (simp_all add: kept_def quiet_def answer_def before_def split: prod.split)

lemma flush_rounds_host: "flush_rounds i n h s = (h', s', out, evs) \<Longrightarrow> same_host h h'"
proof (induction n arbitrary: h s h' s' out evs)
  case (Suc n)
  obtain h1 s1 out1 evs1 where one: "perform_all i (next_actions i h s) h s = (h1, s1, out1, evs1)" by (metis prod_cases4)
  obtain h2 s2 out2 evs2 where two: "flush_rounds i n h1 s1 = (h2, s2, out2, evs2)" by (metis prod_cases4)
  have "same_host h h1" using perform_all_host [OF one] by (simp add: same_host_def)
  then show ?case using Suc.prems one two same_host_trans Suc.IH [OF two] by (auto split: if_splits)
qed simp

lemma flush_kept:
  assumes "boundary_ok (sio_step_agent i) (ho_id h) s" "same_host h h1" "flush_then_drain i h1 s = (h', out, evs)"
  shows "same_host h h'" "boundary_ok (sio_step_agent i) (ho_id h) (session_folds s evs)"
proof -
  obtain s' where f: "flush_rounds i FLUSH_ROUNDS h1 s = (h', s', out, evs)"
    using assms(3) by (auto simp: flush_then_drain_def split: prod.splits)
  show "same_host h h'" using same_host_trans [OF assms(2) flush_rounds_host [OF f]] .
  show "boundary_ok (sio_step_agent i) (ho_id h) (session_folds s evs)" using flush_ok [OF assms(1) f] by metis
qed

lemma persist_kept:
  assumes "boundary_ok (sio_step_agent i) (ho_id h) s" "same_host h h1" "\<forall>ev \<in> set evs. calm ev"
  shows "kept i h s (persist_and_advance i evs h1 s)"
proof -
  obtain h' out evs' where f: "flush_then_drain i h1 (session_folds s evs) = (h', out, evs')" by (metis prod_cases3)
  from flush_kept [OF calm_ok [OF assms(1,3)] assms(2) f] f show ?thesis by (simp add: persist_and_advance_def)
qed

subsection \<open>Who is reached\<close>

lemma spawn_sub_joined: "spawn_sub_agent_actor i h s b t = Some (a, h', out) \<Longrightarrow> same_host h h'"
  by (auto simp: spawn_sub_agent_actor_def bind_eq_Some_conv dest!: spawn_agent_joined joined_same)

lemma spawn_sub_session_joined: "spawn_sub_session_actor i h s b = Some (a, h', out) \<Longrightarrow> same_host h h'"
  by (auto simp: spawn_sub_session_actor_def bind_eq_Some_conv split: if_splits dest!: spawn_agent_joined joined_same)

lemma spawn_step_joined: "spawn_step_agent i h s run b name = Some (a, h', out) \<Longrightarrow> same_host h h'"
  by (auto simp: spawn_step_agent_def bind_eq_Some_conv dest!: spawn_agent_joined joined_same)

lemma resolve_step_joined: "resolve_step i h s b = Some (a, h', out) \<Longrightarrow> same_host h h'"
  by (auto simp: resolve_step_def bind_eq_Some_conv split: option.splits if_splits dest!: spawn_step_joined)

lemma resolve_agent_joined: "resolve_agent i h s sel = Some (k, a, h', out) \<Longrightarrow> same_host h h'"
  by (cases k) (auto simp: resolve_agent_def main_actor_def resolve_sub_def bind_eq_Some_conv split: option.splits if_splits agent_key.splits
    dest!: spawn_sub_joined spawn_sub_session_joined resolve_step_joined)

lemma source_joined: "sub_session_source i h s p = Some (a, h', out) \<Longrightarrow> same_host h h'"
  by (auto simp: sub_session_source_def main_actor_def split: if_splits dest!: spawn_sub_session_joined)

lemma main_joined: "spawn_main_agent i h s = (h', out) \<Longrightarrow> same_host h h'"
  by (auto simp: spawn_main_agent_def split: option.splits dest!: spawn_agent_joined joined_same)

lemma seed_joined: "seed_with i a sd h s = (h', out) \<Longrightarrow> same_host h h'"
  by (auto simp: seed_with_def split: option.splits dest!: source_joined)

lemma seeding_joined: "start_seeding i a h s = (h', out) \<Longrightarrow> same_host h h'"
  by (auto simp: start_seeding_def split: option.splits seed_mode.splits dest!: seed_joined source_joined)

lemma summarised_joined: "summarised i as r h s = (h', out) \<Longrightarrow> same_host h h'"
proof (induction i as r h s arbitrary: h' out rule: summarised.induct)
  case (2 i a as r h s)
  then show ?case
    by (auto split: if_splits prod.splits sum.splits intro: same_host_trans dest!: seed_joined)
qed simp

lemma reseed_joined: "reseed i as h s = (h', out) \<Longrightarrow> same_host h h'"
proof (induction as arbitrary: h h' out)
  case (Cons a as)
  show ?case
  proof (cases "spawn_sub_session_actor i h s a")
    case None
    then show ?thesis using Cons by simp
  next
    case (Some x)
    obtain b h1 out1 where x: "x = (b, h1, out1)" by (cases x)
    obtain h2 out2 where s: "start_seeding i a h1 s = (h2, out2)" by (metis surj_pair)
    obtain h3 out3 where r: "reseed i as h2 s = (h3, out3)" by (metis surj_pair)
    have "h' = h3" using Cons.prems Some x s r by simp
    then show ?thesis
      using spawn_sub_session_joined [OF Some [unfolded x]] seeding_joined [OF s] Cons.IH [OF r] same_host_trans by blast
  qed
qed simp

lemma retire_joined: "retire_all as h = (h', out) \<Longrightarrow> same_host h h'"
proof (induction as arbitrary: h h' out)
  case (Cons a as)
  then show ?case
    by (auto simp: retire_agent_actor_def same_host_def split: if_splits prod.splits)
qed simp

subsection \<open>The handlers\<close>

text \<open>The id the clock hands the handler is new, and none that a step will be given.\<close>

definition fresh_id :: "session_io \<Rightarrow> session_state \<Rightarrow> bool" where
  "fresh_id i s \<longleftrightarrow> unused (ses_forest s) (sio_id i) \<and> bt_get (ses_runtimes s) (sio_id i) = None \<and>
     minted (sio_step_agent i) (sio_id i)"

lemma calm_kept:
  "boundary_ok (sio_step_agent i) (ho_id h) s \<Longrightarrow> same_host h h' \<Longrightarrow> \<forall>ev \<in> set evs. calm ev \<Longrightarrow> kept i h s (h', out, journal evs)"
  by (simp add: calm_ok)

lemma provision_kept:
  assumes ok: "boundary_ok (sio_step_agent i) (ho_id h) s" and fresh: "fresh_id i s"
  shows "kept i h s (provision i owner env h s)"
proof (cases "ses_fatal s \<noteq> None \<or> runtime_request i h s owner env = None")
  case True
  then show ?thesis using ok by (auto simp: provision_def)
next
  case False
  then obtain r e req where r: "runtime_request i h s owner env = Some (r, e, req)" "ses_fatal s = None" by (metis not_None_eq prod_cases3)
  have "boundary_ok (sio_step_agent i) (ho_id h) (session_apply s (RuntimeRequested (sio_now i) r owner e))" if req
  proof (rule boundary_ok_apply [OF ok])
    have "r = sio_id i"
      using r(1) that by (auto simp: runtime_request_def split: list.splits option.splits provisioning_state.splits if_splits)
    then show "sound_event (sio_step_agent i) (ho_id h) s (RuntimeRequested (sio_now i) r owner e)"
      using ok fresh by (simp add: sound_event_def fresh_id_def boundary_ok_def)
  qed (simp add: settling_def)
  then have "boundary_ok (sio_step_agent i) (ho_id h) (session_folds s
      ((if req then [RuntimeRequested (sio_now i) r owner e] else []) @ [ProvisioningStarted (sio_now i) r]))"
    using ok by (auto intro!: calm_ok [of _ _ _ "[ProvisioningStarted (sio_now i) r]", simplified])
  then show ?thesis by (simp add: provision_def r Let_def repoint_agent_runtimes_def)
qed

lemma finish_provisioning_kept:
  assumes ok: "boundary_ok (sio_step_agent i) (ho_id h) s"
  shows "kept i h s (finish_provisioning i r err final h s)"
proof -
  let ?ev = "case err of None \<Rightarrow> ProvisioningSucceeded (sio_now i) r | Some e \<Rightarrow> ProvisioningFailed (sio_now i) r e final"
  have "\<forall>ev \<in> set [?ev]. calm ev" by (simp split: option.split)
  with calm_ok [OF ok, of "[?ev]"] have ok1: "boundary_ok (sio_step_agent i) (ho_id h) (session_apply s ?ev)" by simp
  obtain h' out evs where f: "flush_then_drain i (repoint_agent_runtimes (session_apply s ?ev) h) (session_apply s ?ev) = (h', out, evs)"
    by (metis prod_cases3)
  have "same_host h (repoint_agent_runtimes (session_apply s ?ev) h)" by (simp add: repoint_agent_runtimes_def)
  from flush_kept [OF ok1 this f] f show ?thesis by (simp add: finish_provisioning_def Let_def)
qed

lemma cancel_entry_events:
  "ev \<in> set (snd (cancel_entry i h r st)) \<Longrightarrow> (\<exists>err. ev = SubAgentFailed (sio_now i) r err) \<or>
    (\<exists>w. st = EWorkflow w) \<and> ((\<exists>n. ev = StepCancelled (sio_now i) r n) \<or> (\<exists>err. ev = RunFailed (sio_now i) r err))"
  by (cases st) (auto simp: cancel_entry_def split: if_splits option.splits)

lemma cancel_descendants_events:
  assumes "cancel_descendants i h s a = (out, evs)" "ev \<in> set evs"
  obtains r e where "r \<in> set (descendant_entries (ses_forest s) a)" "bt_get (rf_entries (ses_forest s)) r = Some e"
    "ev \<in> set (snd (cancel_entry i h r (en_state e)))"
  using assms by (auto simp: cancel_descendants_def Let_def forest_entry_def split: option.splits)

lemma cancel_descendants_calm: "cancel_descendants i h s a = (out, evs) \<Longrightarrow> ev \<in> set evs \<Longrightarrow> calm ev"
  by (erule cancel_descendants_events) (auto dest: cancel_entry_events)

lemma stop_boundary_calm: "stop_boundary i s k = Some ev \<Longrightarrow> calm ev"
  by (auto simp: stop_boundary_def bind_eq_Some_conv split: agent_key.splits option.splits if_splits)

lemma stop_turn_kept:
  assumes ok: "boundary_ok (sio_step_agent i) (ho_id h) s"
  shows "kept i h s (stop_turn i sel caller h s)"
proof -
  have under: "kept i h s (persist_and_advance i (evs @ [stopped]) h s)"
    if "stop_boundary i s k = Some stopped" "cancel_descendants i h s a = (out, evs)" for k stopped evs a out
    using persist_kept [OF ok same_host_refl(1), of "evs @ [stopped]"] stop_boundary_calm [OF that(1)]
      cancel_descendants_calm [OF that(2)] by auto
  have alone: "kept i h s (persist_and_advance i [stopped] h s)" if "stop_boundary i s k = Some stopped" for k stopped
    using persist_kept [OF ok same_host_refl(1), of "[stopped]"] stop_boundary_calm [OF that] by simp
  show ?thesis
    using ok under alone by (auto simp: stop_turn_def split: option.split agent_key.split prod.split)
qed

lemma user_message_kept:
  assumes ok: "boundary_ok (sio_step_agent i) (ho_id h) s"
  shows "kept i h s (user_message i sel text artifacts caller h s)"
proof -
  have titled: "title_from_first_message i s text = (o2, evs) \<Longrightarrow> \<forall>ev \<in> set evs. calm ev" for o2 evs
    by (auto simp: title_from_first_message_def split: if_splits option.splits prod.splits sum.splits)
  show ?thesis
    using ok titled by (auto simp: user_message_def split: option.split prod.split intro!: persist_kept dest!: resolve_agent_joined)
qed

lemma agent_reported_kept:
  assumes ok: "boundary_ok (sio_step_agent i) (ho_id h) s"
  shows "kept i h s (agent_reported i outc h s)"
proof -
  note p = persist_kept [OF ok same_host_refl(1)]
  have main: "kept i h s (main_outcome i e h s)" for e
    using ok by (auto simp: main_outcome_def Let_def split: turn_end.split intro!: p)
  have step: "kept i h s (on_step_outcome i run n a e h s)" for run n a e
    using ok calm_kept [OF ok] by (auto simp: on_step_outcome_def Let_def simp del: kept_simps(1) split: turn_end.split intro!: p)
  have sub: "kept i h s (sub_outcome i a e h s)" for a e
    using ok by (auto simp: sub_outcome_def Let_def split: turn_end.split json.split intro!: p)
  have branch: "kept i h s (sub_session_outcome i a e h s)" for a e
    using ok by (auto simp: sub_session_outcome_def Let_def split: turn_end.split intro!: p)
  have started: "kept i h s (agent_started i a h s)" for a
    using ok calm_kept [OF ok] by (auto simp: agent_started_def simp del: kept_simps(1) split: option.split agent_key.split)
  have other: "kept i h s (case summarised i ids r h s of (h1, out) \<Rightarrow> (h1, out, sfx_none))" for ids r
    using ok summarised_joined by (auto split: prod.split)
  show ?thesis
    using main step sub branch started other ok calm_kept [OF ok, of h "[SUsageRecorded (sio_now i) sel tot ctx eff]" for sel tot ctx eff]
    by (auto simp: agent_reported_def Let_def simp del: kept_simps(1) split: sum.split prod.split not_an_end.split option.split agent_key.split)
qed

text \<open>A retry starts its step in a run with nothing in flight.\<close>

lemma run_log_calm:
  "run_log (ses_forest (session_apply s (SubAgentFailed at k err))) = run_log (ses_forest s)"
  "run_log (ses_forest (session_apply s (StepCancelled at k n))) = log_step k (run_cancelled n at) (ses_forest s)"
  by (simp_all add: session_apply_def subs_apply_def runs_apply_def on_forest_def apply_sub_failed_def apply_step_cancelled_def
      run_log_sub_mut run_log_workflow_mut)

lemma cancel_entry_log:
  assumes "ev \<in> set (snd (cancel_entry i h r st))" "\<And>w. st = EWorkflow w \<Longrightarrow> r \<noteq> k"
  shows "run_log (ses_forest (session_apply s ev)) k = run_log (ses_forest s) k"
  using cancel_entry_events [OF assms(1)] assms(2) by (auto simp: run_log_calm run_log_events log_step_def)

lemma root_not_under:
  assumes inv: "forest_inv g j f" and r: "r \<in> set (descendant_entries f a)" "bt_get (rf_entries f) r = Some e" "en_state e = EWorkflow w"
  shows "r \<noteq> j"
proof -
  have wf: "bt_wf (rf_entries f)" using forest_invD(1) [OF inv] by (simp add: forest_wf_def)
  have "\<exists>e'. (r, e') \<in> set (rf_entries f) \<and> (\<forall>w. en_state e' = EWorkflow w \<longrightarrow> en_parent e' \<noteq> None)"
    using r(1) by (auto simp: descendant_entries_def split: entry_state.splits option.splits)
  then have "en_parent e \<noteq> None" using r(2,3) wf by (auto simp: bt_get_iff [symmetric])
  with rootedD(1) [OF forest_invD(4) [OF inv] r(2)] show ?thesis by blast
qed

lemma cancel_descendants_log:
  assumes inv: "forest_inv g j (ses_forest s)" and c: "cancel_descendants i h s a = (out, evs)"
  shows "run_log (ses_forest (session_folds s evs)) j = run_log (ses_forest s) j"
proof -
  have one: "run_log (ses_forest (session_apply s' ev)) j = run_log (ses_forest s') j" if "ev \<in> set evs" for ev s'
  proof -
    from c that obtain r e where r: "r \<in> set (descendant_entries (ses_forest s) a)"
      "bt_get (rf_entries (ses_forest s)) r = Some e" "ev \<in> set (snd (cancel_entry i h r (en_state e)))"
      by (rule cancel_descendants_events)
    show ?thesis by (rule cancel_entry_log [OF r(3)]) (rule root_not_under [OF inv r(1,2)])
  qed
  have "\<forall>ev \<in> set xs. ev \<in> set evs \<Longrightarrow> run_log (ses_forest (session_folds s' xs)) j = run_log (ses_forest s') j" for xs s'
    by (induction xs arbitrary: s') (simp_all add: one)
  then show ?thesis by blast
qed

text \<open>After a retry's stop nothing of the run is in flight.\<close>

lemma retry_stop_state:
  assumes ok: "boundary_ok g j s" and w: "workflow_of (ses_forest s) j = Some w" and e: "retry_stop i h s j (wf_run w) = (out, evs)"
  shows "\<forall>ev \<in> set evs. calm ev"
    "run_log (ses_forest (session_folds s evs)) j =
       Some (wf_graph w, case run_current (wf_run w) of Some c \<Rightarrow> run_cancelled c (sio_now i) (wf_run w) | None \<Rightarrow> wf_run w)"
proof -
  have inv: "forest_inv g j (ses_forest s)" using ok session_invD(1) unfolding boundary_ok_def by blast
  have log: "run_log (ses_forest s) j = Some (wf_graph w, wf_run w)" using w by (simp add: run_log_def)
  show "\<forall>ev \<in> set evs. calm ev"
    using e by (auto simp: retry_stop_def Let_def split: option.splits prod.splits dest: cancel_descendants_calm)
  show "run_log (ses_forest (session_folds s evs)) j =
       Some (wf_graph w, case run_current (wf_run w) of Some c \<Rightarrow> run_cancelled c (sio_now i) (wf_run w) | None \<Rightarrow> wf_run w)"
    using e log by (auto simp: retry_stop_def Let_def run_log_calm log_step_def split: option.splits prod.splits
      dest!: cancel_descendants_log [OF inv])
qed

lemma retry_step_kept:
  assumes ok: "boundary_ok (sio_step_agent i) (ho_id h) s"
  shows "kept i h s (retry_step i index caller h s)"
proof -
  let ?g = "sio_step_agent i" and ?j = "ho_id h"
  have inv: "forest_inv ?g ?j (ses_forest s)" using ok session_invD(1) unfolding boundary_ok_def by blast
  show ?thesis
  proof (cases "root_workflow (ses_forest s)")
    case None
    then show ?thesis using ok by (simp add: retry_step_def)
  next
    case (Some x)
    obtain run w where x: "x = (run, w)" by (cases x)
    show ?thesis
    proof (cases "run_get (wf_run w) index")
      case None
      then show ?thesis using ok Some x by (simp add: retry_step_def)
    next
      case target: (Some target)
      have "rf_root (ses_forest s) = Some run" "workflow_of (ses_forest s) run = Some w"
        using Some x by (auto simp: root_workflow_def workflow_of_iff forest_entry_def bind_eq_Some_conv split: option.splits entry_state.splits)
      moreover have "rf_root (ses_forest s) = Some ?j" using ok session_invD(5) unfolding boundary_ok_def by blast
      ultimately have run: "run = ?j" and w: "workflow_of (ses_forest s) ?j = Some w" by auto
      obtain out evs where stop: "retry_stop i h s run (wf_run w) = (out, evs)" by (metis surj_pair)
      define s1 where "s1 = session_folds s evs"
      note st = retry_stop_state [OF ok w stop [unfolded run]]
      have ok1: "boundary_ok ?g ?j s1" unfolding s1_def by (rule calm_ok [OF ok st(1)])
      obtain h2 out2 evs2 where start: "start_step i (retry_start i run target s1) h s1 = (h2, out2, evs2)" by (metis prod_cases3)
      let ?p = "retry_start i run target s1"
      let ?ev = "StepStarted (sio_now i) (sp_run ?p) (sp_index ?p) (sp_step ?p) (sp_agent ?p) (sp_attempt ?p) (sp_from ?p) (sp_via ?p) (sp_input ?p)"
      let ?r1 = "case run_current (wf_run w) of Some c \<Rightarrow> run_cancelled c (sio_now i) (wf_run w) | None \<Rightarrow> wf_run w"
      obtain w1 where w1: "workflow_of (ses_forest s1) ?j = Some w1" "wf_graph w1 = wf_graph w" "wf_run w1 = ?r1"
        using st(2) unfolding s1_def run_log_def by auto
      have p: "sp_run ?p = ?j" "sp_agent ?p = ?g ?j (length (rn_steps ?r1))" "sp_step ?p = se_step target"
        "sp_attempt ?p = attempts_of ?r1 (se_step target) + 1" "sp_from ?p = se_from target" "sp_via ?p = se_via target"
        "sp_input ?p = se_input target"
        using w1 run by (simp_all add: retry_start_def)
      have "run_inv ?g ?j (wf_graph w) (retry_run ?g ?j index (sio_now i) (wf_run w))"
        by (rule retry_run_inv [OF runs_okD [OF forest_invD(2) [OF inv] w]])
      then have ri: "run_inv ?g ?j (wf_graph w1) (run_started (sp_step ?p) (sp_agent ?p) (sp_attempt ?p) (sp_from ?p) (sp_via ?p) (sp_input ?p) (sio_now i) (wf_run w1))"
        by (simp add: retry_run_def target p w1 Let_def)
      have names: "names_fresh ?g (ses_forest s1)" "ses_spec s1 \<noteq> None" using ok1 by (simp_all add: boundary_ok_def)
      have agent: "sp_agent ?p = ?g ?j (steps_of (ses_forest s1) ?j)" using p(2) w1 by (simp add: steps_of_def)
      have "sound_event ?g ?j s1 ?ev" "named_event ?g s1 ?ev"
        using ri names names_freshD(1) [OF names(1) order_refl, of ?j] agent w1(1) p(1)
        by (auto simp: sound_event_def named_event_def)
      then have started: "boundary_ok ?g ?j (session_apply s1 ?ev)" by (rule sound_ok [OF ok1])
      have "perform_action i (StartStep ?p) h s1 = (h2, out2, evs2)" using start by (simp add: perform_action_def)
      from perform_action_events [OF this] perform_action_host [OF this]
      have "same_host h h2" "boundary_ok ?g ?j (session_folds s1 evs2)"
        using started calm_ok [OF ok1, of evs2] by (auto simp: same_host_def)
      then show ?thesis
        using Some x target stop start by (simp add: retry_step_def s1_def)
    qed
  qed
qed

lemma create_run_kept:
  assumes ok: "boundary_ok (sio_step_agent i) (ho_id h) s" and fresh: "fresh_id i s"
  shows "kept i h s (create_run i parent graph caller h s)"
proof (cases "depth_of_agent (ses_forest s) parent")
  case (Some d)
  have "boundary_ok (sio_step_agent i) (ho_id h) (session_apply s (RunCreated (sio_now i) (sio_id i) parent graph))" if "d < MAX_DEPTH"
  proof (rule sound_ok [OF ok])
    show "sound_event (sio_step_agent i) (ho_id h) s (RunCreated (sio_now i) (sio_id i) parent graph)"
      using ok fresh Some that known_not_unused [OF Some] by (auto simp: sound_event_def new_child_def fresh_id_def boundary_ok_def)
  qed (use fresh in \<open>simp add: named_event_def fresh_id_def\<close>)
  then show ?thesis using ok Some by (simp add: create_run_def)
qed (use ok in \<open>simp add: create_run_def\<close>)

lemma spawn_sub_kept:
  assumes ok: "boundary_ok (sio_step_agent i) (ho_id h) s" and fresh: "fresh_id i s"
  shows "kept i h s (spawn_sub i spawner title task ty caller h s)"
proof (cases "depth_of_agent (ses_forest s) spawner")
  case (Some d)
  have "boundary_ok (sio_step_agent i) (ho_id h) (session_apply s (SubAgentSpawned (sio_now i) (sio_id i) spawner title task ty))" if "d < MAX_DEPTH"
  proof (rule sound_ok [OF ok])
    show "sound_event (sio_step_agent i) (ho_id h) s (SubAgentSpawned (sio_now i) (sio_id i) spawner title task ty)"
      using ok fresh Some that known_not_unused [OF Some] by (auto simp: sound_event_def new_child_def fresh_id_def boundary_ok_def)
  qed (use fresh in \<open>simp add: named_event_def fresh_id_def\<close>)
  then show ?thesis using ok Some by (simp add: spawn_sub_def split: option.split)
qed (use ok in \<open>simp add: spawn_sub_def\<close>)

lemma branchable_parent:
  assumes ok: "boundary_ok g j s" and b: "branchable j s parent msg = None"
  shows "minted g parent" "\<not> unused (ses_forest s) parent"
proof -
  have inv: "session_inv g j s" "names_fresh g (ses_forest s)" "ses_spec s \<noteq> None" using ok by (simp_all add: boundary_ok_def)
  have "\<exists>e. bt_get (rf_entries (ses_forest s)) parent = Some e"
  proof (cases "parent = j")
    case True
    then show ?thesis using root_present [OF forest_invD(4) [OF session_invD(1) [OF inv(1)]] session_invD(5) [OF inv(1,3)]] by simp
  next
    case False
    then show ?thesis using b by (auto simp: branchable_def sub_session_of_def bind_eq_Some_conv split: if_splits)
  qed
  then show "minted g parent" "\<not> unused (ses_forest s) parent" using names_freshD(3) [OF inv(2)] unused_parts(2) by fastforce+
qed

lemma create_sub_session_kept:
  assumes ok: "boundary_ok (sio_step_agent i) (ho_id h) s" and fresh: "fresh_id i s"
  shows "kept i h s (create_sub_session i parent sd msg title env caller h s)"
proof (cases "branchable (ho_id h) s parent msg")
  case None
  note p = branchable_parent [OF ok None]
  have "boundary_ok (sio_step_agent i) (ho_id h)
      (session_apply s (SubSessionCreated (sio_now i) (sio_id i) parent n sd msg title (requested_choice env)))" for n
  proof (rule sound_ok [OF ok])
    show "sound_event (sio_step_agent i) (ho_id h) s (SubSessionCreated (sio_now i) (sio_id i) parent n sd msg title (requested_choice env))"
      using ok fresh p by (auto simp: sound_event_def new_child_def fresh_id_def boundary_ok_def requested_choice_def split: requested_runtime.split)
  qed (use fresh p in \<open>simp add: named_event_def fresh_id_def\<close>)
  then show ?thesis using ok None by (auto simp: create_sub_session_def split: option.split dest!: source_joined)
qed (use ok in \<open>simp add: create_sub_session_def\<close>)

lemma delete_agent_kept:
  assumes ok: "boundary_ok (sio_step_agent i) (ho_id h) s"
  shows "kept i h s (delete_agent i a caller h s)"
proof -
  have "boundary_ok (sio_step_agent i) (ho_id h) (session_apply s (AgentDeleted (sio_now i) a))"
    by (rule sound_ok [OF ok]) (use ok in \<open>simp_all add: sound_event_def named_event_def boundary_ok_def\<close>)
  then show ?thesis using ok by (auto simp: delete_agent_def split: prod.split dest: retire_joined)
qed

lemma finish_kept:
  assumes ok: "boundary_ok (sio_step_agent i) (ho_id h) s"
  shows "kept i h s (finish_create_run i run caller failed h s)" "kept i h s (advance_runs i h s)"
    "kept i h s (finish_spawn i a task ty caller failed h s)" "kept i h s (finish_create_sub_session i a env caller failed h s)"
  subgoal using ok flush_kept [OF ok same_host_refl(1)]
    by (auto simp: finish_create_run_def split: option.split prod.split)
  subgoal using flush_kept [OF ok same_host_refl(1)] by (auto simp: advance_runs_def split: prod.split)
  subgoal using ok by (auto simp: finish_spawn_def split: option.split dest!: spawn_sub_joined)
  subgoal using ok by (auto simp: finish_create_sub_session_def split: option.split prod.split
      intro: same_host_trans dest!: spawn_sub_session_joined seeding_joined)
  done

lemma simple_kept:
  assumes ok: "boundary_ok (sio_step_agent i) (ho_id h) s"
  shows "kept i h s (narrate_provisioning i r detail h s)" "kept i h s (prepare_offload caller h s)"
    "kept i h s (delete_session caller h s)" "kept i h s (answer_agent i sel answers caller h s)"
    "kept i h s (run_status i asker run caller h s)" "kept i h s (reconcile_steps i h s)" "kept i h s (reconcile_subs i h s)"
    "kept i h s (seeded_sub_session i a h s)" "kept i h s (seed_failed_sub_session i a h s)"
    "kept i h s (read_agent_log i sel rd caller h s)" "kept i h s (tell_resident h k cmd)" "kept i h s (set_title i title caller h s)"
  subgoal using calm_ok [OF ok, of "[ProvisioningProgress (sio_now i) r detail]"] ok
    by (auto simp: narrate_provisioning_def split: option.split provisioning_state.split)
  subgoal using ok by (simp add: prepare_offload_def stop_agents_def)
  subgoal using ok by (simp add: delete_session_def stop_agents_def)
  subgoal using ok by (auto simp: answer_agent_def split: option.split dest: resolve_agent_joined)
  subgoal using ok by (simp add: run_status_def)
  subgoal using ok by (auto simp: reconcile_steps_def intro!: calm_ok)
  subgoal using ok by (auto simp: reconcile_subs_def intro!: calm_ok)
  subgoal using ok by (auto simp: seeded_sub_session_def intro!: persist_kept)
  subgoal using calm_ok [OF ok, of "[SubSessionStatusChanged (sio_now i) a AsFailed]"] ok by (simp add: seed_failed_sub_session_def)
  subgoal using ok by (auto simp: read_agent_log_def split: option.split dest: resolve_agent_joined)
  subgoal using ok by (simp add: tell_resident_def)
  subgoal using ok calm_ok [OF ok, of "[SRenamed name]" for name] by (auto simp: set_title_def split: sum.split prod.split)
  done

lemma handle_session_kept:
  assumes ok: "boundary_ok (sio_step_agent i) (ho_id h) s" and fresh: "fresh_id i s"
  shows "kept i h s (handle_session i cmd h s)"
proof -
  note known = provision_kept [OF ok fresh] finish_provisioning_kept [OF ok] stop_turn_kept [OF ok] user_message_kept [OF ok]
    agent_reported_kept [OF ok] retry_step_kept [OF ok] create_run_kept [OF ok fresh] spawn_sub_kept [OF ok fresh]
    create_sub_session_kept [OF ok fresh] delete_agent_kept [OF ok] finish_kept [OF ok] simple_kept [OF ok]
  have told: "ses_spec s \<noteq> None" using ok by (simp add: boundary_ok_def)
  have loops: "kept i h s (case summarised i ids r h s of (h1, out) \<Rightarrow> (h1, out, sfx_none))"
    "kept i h s (case reseed i as h s of (h1, out) \<Rightarrow> (h1, out, sfx_none))" for ids r as
    using ok by (auto split: prod.split dest: summarised_joined reseed_joined)
  have halt: "kept i h s (halt_agent i k reason h s)" for k reason using ok known by (simp add: halt_agent_def)
  have renamed: "kept i h s (h, [], journal [SRenamed name])" for name using calm_ok [OF ok, of "[SRenamed name]"] by simp
  have again: "kept i h s (create_session i spec name msg h s)" for spec name msg using ok told by (simp add: create_session_def)
  show ?thesis
    unfolding handle_session_def
    by (cases cmd) (simp_all only: session_command.case known loops halt renamed again, simp_all add: ok)
qed

section \<open>Reachable sessions\<close>

text \<open>
  What a session can come to: its actor starts, handles one command after another, each with its own clock,
  ids and answers, and may be lost and loaded again from its log at any point between two.
\<close>

inductive session_reach :: "(uuid \<Rightarrow> nat \<Rightarrow> uuid) \<Rightarrow> uuid \<Rightarrow> host \<Rightarrow> session_state \<Rightarrow> bool" for g :: "uuid \<Rightarrow> nat \<Rightarrow> uuid" and j :: uuid where
  born: "session_reach g j (host_new j) session_default"
| handled: "session_reach g j h s \<Longrightarrow> sio_step_agent i = g \<Longrightarrow> fresh_id i s \<Longrightarrow>
    handle_session_command i cmd h s = (h', out, fx) \<Longrightarrow> session_reach g j h' (session_folds s (sfx_events fx))"
| loaded: "session_reach g j h s \<Longrightarrow> sio_step_agent i = g \<Longrightarrow> on_recovery i (host_new j) s = (h', out) \<Longrightarrow> session_reach g j h' s"

inductive_cases session_reachE: "session_reach g j h s"

text \<open>The ids derived for steps tell one step from another, and none of them is a session's.\<close>

definition derived_ids :: "(uuid \<Rightarrow> nat \<Rightarrow> uuid) \<Rightarrow> uuid \<Rightarrow> bool" where
  "derived_ids g j \<longleftrightarrow> minted g j \<and> (\<forall>run n run' n'. g run n = g run' n' \<longrightarrow> run = run' \<and> n = n')"

definition session_ok :: "(uuid \<Rightarrow> nat \<Rightarrow> uuid) \<Rightarrow> uuid \<Rightarrow> host \<Rightarrow> session_state \<Rightarrow> bool" where
  "session_ok g j h s \<longleftrightarrow> ho_id h = j \<and> (ho_spec h = None \<longleftrightarrow> ses_spec s = None) \<and> session_inv g j s \<and> names_fresh g (ses_forest s)"

lemma session_ok_boundary: "session_ok g j h s \<Longrightarrow> ses_spec s \<noteq> None \<Longrightarrow> boundary_ok g (ho_id h) s"
  by (simp add: session_ok_def boundary_ok_def)

lemma adopt_host: "adopt i spec h s = (h', out) \<Longrightarrow> ho_id h' = ho_id h \<and> ho_spec h' = Some spec"
  by (auto simp: adopt_def Let_def same_host_def split: session_kind.splits prod.splits dest!: main_joined)

lemma create_session_ok:
  assumes ok: "session_ok g j h s" and new: "ses_spec s = None" and g: "minted g j"
    and r: "create_session i spec name msg h s = (h', out, fx)"
  shows "session_ok g j h' (session_folds s (sfx_events fx))"
proof -
  have inv: "session_inv g j s" "names_fresh g (ses_forest s)" "ho_id h = j" using ok by (simp_all add: session_ok_def)
  let ?ev = "SpecRecorded (sio_now i) j spec"
  let ?names = "case name of Some n \<Rightarrow> [SRenamed n] | None \<Rightarrow> []"
  have ev: "sound_event g j s ?ev" "named_event g s ?ev" using new g by (simp_all add: sound_event_def named_event_def)
  have spec1: "ses_spec (session_apply s ?ev) = Some spec" by (simp add: session_apply_def core_apply_def)
  then have "boundary_ok g j (session_apply s ?ev)"
    using session_apply_inv [OF inv(1) ev(1)] names_apply [OF inv(1,2) ev] by (simp add: boundary_ok_def)
  then have "boundary_ok g j (session_folds (session_apply s ?ev) ?names)" by (rule calm_ok) (auto split: option.splits)
  then have ok1: "boundary_ok g j (session_folds s (?ev # ?names))" by simp
  then obtain sp where sp: "ses_spec (session_folds s (?ev # ?names)) = Some sp" by (auto simp: boundary_ok_def)
  obtain h1 out1 where a: "adopt i sp h (session_folds s (?ev # ?names)) = (h1, out1)" by (metis surj_pair)
  have "h' = h1" "fx = journal (?ev # ?names)"
    using r new sp a inv(3) by (simp_all add: create_session_def Let_def)
  then show ?thesis using ok1 adopt_host [OF a] inv(3) by (simp add: session_ok_def boundary_ok_def)
qed

lemma handle_command_ok:
  assumes ok: "session_ok g j h s" and g: "minted g j" "sio_step_agent i = g" "fresh_id i s"
    and r: "handle_session_command i cmd h s = (h', out, fx)"
  shows "session_ok g j h' (session_folds s (sfx_events fx))"
proof (cases "ho_spec h = None")
  case True
  then have new: "ses_spec s = None" using ok by (simp add: session_ok_def)
  show ?thesis
  proof (cases "\<exists>spec name msg. cmd = CreateSession spec name msg")
    case True
    then show ?thesis using r create_session_ok [OF ok new g(1)] \<open>ho_spec h = None\<close>
      by (auto simp: handle_session_command_def handle_session_def)
  next
    case False
    then have "refuse_until_told cmd h = (h', out, fx)" using r \<open>ho_spec h = None\<close> by (cases cmd) (simp_all add: handle_session_command_def)
    then have "h' = h" "sfx_events fx = []" by (cases cmd; auto simp: refuse_until_told_def quiet_def answer_def)+
    then show ?thesis using ok by simp
  qed
next
  case False
  then have told: "ses_spec s \<noteq> None" using ok by (cases "ses_spec s") (auto simp: session_ok_def)
  have id: "ho_id h = j" using ok by (simp add: session_ok_def)
  have "handle_session i cmd h s = (h', out, fx)" using r False by (simp add: handle_session_command_def)
  moreover have "boundary_ok (sio_step_agent i) (ho_id h) s" using session_ok_boundary [OF ok told] g(2) by simp
  ultimately have "kept i h s (h', out, fx)" using handle_session_kept [of i h s cmd] g(3) by simp
  then show ?thesis using False id g(2) by (auto simp: session_ok_def same_host_def boundary_ok_def)
qed

lemma session_reach_ok:
  assumes "session_reach g j h s" "derived_ids g j"
  shows "session_ok g j h s"
  using assms(1)
proof (induction rule: session_reach.induct)
  case born
  have "names_fresh g (ses_forest session_default)"
    using names_fresh_default [of g j] assms(2) by (simp add: derived_ids_def session_default_def)
  then show ?case by (simp add: session_ok_def host_new_def session_inv_default) (simp add: session_default_def)
next
  case (handled h s i cmd h' out fx)
  then show ?case using handle_command_ok assms(2) unfolding derived_ids_def by blast
next
  case (loaded h s i h' out)
  then show ?case
    by (auto simp: session_ok_def on_recovery_def host_new_def split: option.splits dest: adopt_host)
qed

end
