(* ===== verification/Session_Sample.thy ===== *)
theory Session_Sample
  imports Session_System
begin

text \<open>
  What the invariants give in every reachable session, and a small concrete one: a session with a subagent, a
  workflow run under it, its first step in flight and a subagent under that step. The witnesses of the
  session's properties are read off it.
\<close>

section \<open>Reachable sessions\<close>

lemma reach_inv:
  assumes "session_reach g j h s" "derived_ids g j"
  shows "session_inv g j s" "forest_inv g j (ses_forest s)" "forest_wf (ses_forest s)" "ho_id h = j"
    "bt_wf (rf_entries (ses_forest s))" "index_ok (ses_forest s)"
proof -
  have ok: "session_ok g j h s" by (rule session_reach_ok [OF assms])
  then show s: "session_inv g j s" and "ho_id h = j" by (simp_all add: session_ok_def)
  show f: "forest_inv g j (ses_forest s)" by (rule session_invD(1) [OF s])
  show wf: "forest_wf (ses_forest s)" by (rule forest_invD(1) [OF f])
  show "bt_wf (rf_entries (ses_forest s))" "index_ok (ses_forest s)" using wf by (simp_all add: forest_wf_def)
qed

section \<open>A sample session\<close>

definition sample_settings :: agent_settings where
  "sample_settings = \<lparr> as_source = AdHoc, as_model = ''m'', as_allowed_tools = None, as_use_plugins = None,
     as_max_iterations = None, as_max_retries = 0, as_mcp_servers = [], as_memory_spaces = [],
     as_thinking_effort = None, as_max_concurrent_subagents = None, as_instructions = None, as_plugins = [],
     as_auto_compact = None \<rparr>"

definition sample_session :: session_spec where
  "sample_session = \<lparr> sc_kind = AgentSession sample_settings, sc_runtime = None, sc_plugins = [], sc_origin = OriginUser \<rparr>"

definition sample_io :: "u64 \<Rightarrow> uuid \<Rightarrow> session_io" where
  "sample_io t i = \<lparr> sio_now = t, sio_id = i, sio_item = i, sio_log_head = (\<lambda>_. Some 1), sio_rename = Inr,
     sio_spawns = (\<lambda>_. True), sio_reaches = (\<lambda>_. True), sio_step_agent = sample_agent_of,
     sio_parse_uuid = Some, sio_show_json = (\<lambda>_. []) \<rparr>"

text \<open>Freshness, as a check over the entries there are.\<close>

definition clear_of :: "run_forest \<Rightarrow> uuid \<Rightarrow> bool" where
  "clear_of f a \<longleftrightarrow> bt_get (rf_agents f) a = None \<and> bt_get (rf_entries f) a = None \<and>
     list_all (\<lambda>(i, e). en_parent e \<noteq> Some a \<and> a \<notin> set (hosted_by i (en_state e))) (rf_entries f)"

lemma clear_unused: "clear_of f a \<Longrightarrow> unused f a"
  by (auto simp: clear_of_def unused_def list_all_iff dest!: bt_get_mem)

fun play :: "(u64 \<times> uuid \<times> session_command) list \<Rightarrow> host \<Rightarrow> session_state \<Rightarrow> (host \<times> session_state) option" where
  "play [] h s = Some (h, s)"
| "play ((t, i, cmd) # cs) h s =
     (if clear_of (ses_forest s) i \<and> bt_get (ses_runtimes s) i = None \<and> CHR ''/'' \<notin> set i
      then (case handle_session_command (sample_io t i) cmd h s of (h', out, fx) \<Rightarrow> play cs h' (session_folds s (sfx_events fx)))
      else None)"

lemma sample_minted: "CHR ''/'' \<notin> set i \<Longrightarrow> minted sample_agent_of i"
  by (auto simp: minted_def sample_agent_of_def)

lemma sample_derived: "CHR ''/'' \<notin> set j \<Longrightarrow> derived_ids sample_agent_of j"
proof -
  assume j: "CHR ''/'' \<notin> set j"
  have last: "rev (takeWhile (\<lambda>c. c \<noteq> CHR ''/'') (rev (sample_agent_of run n))) = show_nat n" for run n
  proof -
    have "c \<noteq> CHR ''/''" if "c \<in> set (rev (show_nat n))" for c
      using show_nat_digits [of c n] that by (auto simp: is_digit_char_def)
    then have "takeWhile (\<lambda>c. c \<noteq> CHR ''/'') (rev (show_nat n) @ CHR ''/'' # rev run) = rev (show_nat n)"
      by (subst takeWhile_append2) simp_all
    then show ?thesis by (simp add: sample_agent_of_def)
  qed
  have "sample_agent_of run n = sample_agent_of run' n' \<Longrightarrow> run = run' \<and> n = n'" for run n run' n'
    using last [of run n] last [of run' n'] by (simp add: sample_agent_of_def)
  with sample_minted [OF j] show ?thesis by (auto simp: derived_ids_def)
qed

lemma play_reach:
  "session_reach sample_agent_of j h s \<Longrightarrow> play cs h s = Some (h', s') \<Longrightarrow> session_reach sample_agent_of j h' s'"
proof (induction cs h s rule: play.induct)
  case (2 t i cmd cs h s)
  obtain h1 out fx where r: "handle_session_command (sample_io t i) cmd h s = (h1, out, fx)" by (metis prod_cases3)
  have ok: "clear_of (ses_forest s) i" "bt_get (ses_runtimes s) i = None" "CHR ''/'' \<notin> set i"
    and rest: "play cs h1 (session_folds s (sfx_events fx)) = Some (h', s')"
    using 2(3) r by (auto split: if_splits)
  have "fresh_id (sample_io t i) s"
    using ok clear_unused sample_minted by (simp add: fresh_id_def sample_io_def)
  note fresh = this
  have "session_reach sample_agent_of j h1 (session_folds s (sfx_events fx))"
    by (rule session_reach.handled [OF 2(2) _ fresh r]) (simp add: sample_io_def)
  then show ?case using 2(1) ok r rest by simp
qed simp

definition sample_commands :: "(u64 \<times> uuid \<times> session_command) list" where
  "sample_commands =
     [(1, ''i1'', CreateSession sample_session None None),
      (2, ''a'', SpawnSub ''s'' ''title'' ''task'' None 0),
      (3, ''i2'', FinishSpawn ''a'' ''task'' None 0 None),
      (4, ''r'', CreateRun ''a'' sample_spec 0),
      (5, ''i3'', FinishCreateRun ''r'' 0 None),
      (6, ''b'', SpawnSub ''r/0'' ''title'' ''task'' None 0),
      (7, ''i4'', FinishSpawn ''b'' ''task'' None 0 None)]"

definition sample_host :: host where
  "sample_host = fst (the (play sample_commands (host_new ''s'') session_default))"

definition sample_state :: session_state where
  "sample_state = snd (the (play sample_commands (host_new ''s'') session_default))"

text \<open>What the witnesses read off it, in one check that is evaluated once.\<close>

definition sample_checks :: "session_state \<Rightarrow> bool" where
  "sample_checks s \<longleftrightarrow>
     depth_of_agent (ses_forest s) ''b'' = Some 3 \<and>
     descends_from (ses_forest s) ''b'' ''a'' \<and>
     agent_key_of (ses_forest s) ''r/0'' = Some (KeyStep ''r/0'') \<and>
     ses_spec s \<noteq> None \<and>
     deletable (ses_forest s) ''a'' \<and>
     map_option (\<lambda>e. (en_parent e, is_work (en_state e))) (forest_entry (ses_forest s) ''b'') = Some (Some ''r/0'', True) \<and>
     work_agents (ses_forest s) ''a'' = [''r/0''] \<and>
     agent_key_of (ses_forest s) ''a'' = Some (KeySub ''a'') \<and>
     interrupted_subs (ses_forest s) = [''a'', ''b''] \<and>
     has_step_in_flight (ses_forest s) \<and>
     map_option (\<lambda>w. (rn_status (wf_run w), length (rn_steps (wf_run w)))) (workflow_of (ses_forest s) ''r'') = Some (WrRunning, 1)"

lemma sample_evaluated:
  "(case play sample_commands (host_new ''s'') session_default of Some (h, s) \<Rightarrow> sample_checks s | None \<Rightarrow> False)"
  by code_simp

lemma sample_plays: "play sample_commands (host_new ''s'') session_default = Some (sample_host, sample_state)"
  using sample_evaluated by (auto simp: sample_host_def sample_state_def split: option.splits)

lemma sample_checked: "sample_checks sample_state"
  using sample_evaluated by (simp add: sample_plays)

lemma sample_session_reach: "session_reach sample_agent_of ''s'' sample_host sample_state"
  by (rule play_reach [OF session_reach.born sample_plays])

lemma sample_session_facts:
  "depth_of_agent (ses_forest sample_state) ''b'' = Some 3" "descends_from (ses_forest sample_state) ''b'' ''a''"
  "agent_key_of (ses_forest sample_state) ''r/0'' = Some (KeyStep ''r/0'')" "ses_spec sample_state \<noteq> None"
  "deletable (ses_forest sample_state) ''a''"
  "map_option (\<lambda>e. (en_parent e, is_work (en_state e))) (forest_entry (ses_forest sample_state) ''b'') = Some (Some ''r/0'', True)"
  "work_agents (ses_forest sample_state) ''a'' = [''r/0'']"
  "agent_key_of (ses_forest sample_state) ''a'' = Some (KeySub ''a'')"
  "interrupted_subs (ses_forest sample_state) = [''a'', ''b'']" "has_step_in_flight (ses_forest sample_state)"
  "map_option (\<lambda>w. (rn_status (wf_run w), length (rn_steps (wf_run w)))) (workflow_of (ses_forest sample_state) ''r'') = Some (WrRunning, 1)"
  using sample_checked by (simp_all add: sample_checks_def)

lemmas sample_ok = sample_session_reach sample_derived [of "''s''"]

end
