(* ===== verification/Session_Recovery.thy ===== *)
theory Session_Recovery
  imports Session_Sample
begin

text \<open>
  Interrupting work: what a stop does to everything delegated under the stopped agent, what a reload does to
  the work a lost process left behind, and when a session may be unloaded. Each is a batch of events that
  touch one entry apiece, so what a batch does to an entry is what its own events do, in order.
\<close>

section \<open>Batches that touch one entry at a time\<close>

definition touched :: "session_event \<Rightarrow> run_id option" where
  "touched ev = (case ev of
     SubAgentFailed _ r _ \<Rightarrow> Some r | StepCancelled _ r _ \<Rightarrow> Some r | RunFailed _ r _ \<Rightarrow> Some r | _ \<Rightarrow> None)"

definition touch :: "session_event \<Rightarrow> entry_state \<Rightarrow> entry_state" where
  "touch ev = (case ev of
     SubAgentFailed at _ err \<Rightarrow> (\<lambda>st. case st of
         ESub m \<Rightarrow> ESub (m\<lparr> su_status := SubFailed, su_error := Some err, su_notified := False, su_ended_at_ms := at \<rparr>) | _ \<Rightarrow> st)
   | StepCancelled at _ n \<Rightarrow> (\<lambda>st. case st of EWorkflow w \<Rightarrow> EWorkflow (w\<lparr> wf_run := run_cancelled n at (wf_run w) \<rparr>) | _ \<Rightarrow> st)
   | RunFailed _ _ err \<Rightarrow> (\<lambda>st. case st of
         EWorkflow w \<Rightarrow> EWorkflow (w\<lparr> wf_run := run_failed err (wf_run w), wf_notified := False \<rparr>) | _ \<Rightarrow> st)
   | _ \<Rightarrow> (\<lambda>st. st))"

lemma touched_simps [simp]:
  "touched (SubAgentFailed at r err) = Some r" "touched (StepCancelled at r n) = Some r" "touched (RunFailed at r err) = Some r"
  by (simp_all add: touched_def)

lemma touched_apply: "touched ev = Some k \<Longrightarrow> session_apply s ev = on_forest (on_entry k (touch ev)) s"
  by (cases ev) (auto simp: touched_def touch_def session_apply_def subs_apply_def runs_apply_def apply_sub_failed_def sub_mut_def
    apply_step_cancelled_def apply_run_failed_def workflow_mut_def)

text \<open>What a batch leaves of a session besides the entries' states.\<close>

definition same_frame :: "session_state \<Rightarrow> session_state \<Rightarrow> bool" where
  "same_frame s s' \<longleftrightarrow> s'\<lparr> ses_forest := forest_default \<rparr> = s\<lparr> ses_forest := forest_default \<rparr> \<and>
     rf_root (ses_forest s') = rf_root (ses_forest s) \<and> rf_agents (ses_forest s') = rf_agents (ses_forest s) \<and>
     map (\<lambda>(k, e). (k, en_parent e)) (rf_entries (ses_forest s')) = map (\<lambda>(k, e). (k, en_parent e)) (rf_entries (ses_forest s))"

lemma same_frame_trans: "same_frame s s1 \<Longrightarrow> same_frame s1 s2 \<Longrightarrow> same_frame s s2"
  by (simp add: same_frame_def)

lemma same_frame_entry: "same_frame s (on_forest (on_entry k g) s)"
  by (auto simp: same_frame_def on_forest_def on_entry_def bt_update_def)

lemma same_frame_keys: "same_frame s s' \<Longrightarrow> bt_wf (rf_entries (ses_forest s)) \<Longrightarrow> bt_wf (rf_entries (ses_forest s'))"
proof -
  assume s: "same_frame s s'" "bt_wf (rf_entries (ses_forest s))"
  have "map fst (map (\<lambda>(k, e). (k, en_parent e)) (rf_entries (ses_forest s'))) = map fst (map (\<lambda>(k, e). (k, en_parent e)) (rf_entries (ses_forest s)))"
    using s(1) by (simp only: same_frame_def)
  then have "map fst (rf_entries (ses_forest s')) = map fst (rf_entries (ses_forest s))"
    by (simp add: o_def case_prod_unfold)
  with s(2) show ?thesis by (simp add: bt_wf_def)
qed

lemma touches_frame: "\<forall>ev \<in> set evs. touched ev \<noteq> None \<Longrightarrow> same_frame s (session_folds s evs)"
proof (induction evs arbitrary: s)
  case (Cons ev evs)
  then obtain k where "touched ev = Some k" by auto
  then have "same_frame s (session_apply s ev)" using same_frame_entry by (simp add: touched_apply)
  moreover have "same_frame (session_apply s ev) (session_folds (session_apply s ev) evs)" using Cons by simp
  ultimately show ?case using same_frame_trans by simp
qed (simp add: same_frame_def)

lemma touches_get: "\<forall>ev \<in> set evs. touched ev \<noteq> None \<Longrightarrow>
  bt_get (rf_entries (ses_forest (session_folds s evs))) k =
    map_option (\<lambda>e. e\<lparr> en_state := fold touch (filter (\<lambda>ev. touched ev = Some k) evs) (en_state e) \<rparr>)
      (bt_get (rf_entries (ses_forest s)) k)"
proof (induction evs arbitrary: s)
  case (Cons ev evs)
  then obtain r where r: "touched ev = Some r" by auto
  have "bt_get (rf_entries (ses_forest (session_apply s ev))) k =
      map_option (\<lambda>e. if r = k then e\<lparr> en_state := touch ev (en_state e) \<rparr> else e) (bt_get (rf_entries (ses_forest s)) k)"
    by (auto simp: touched_apply [OF r] on_forest_def on_entry_get option.map_ident)
  with Cons r show ?case by (cases "bt_get (rf_entries (ses_forest s)) k") auto
qed (simp add: option.map_ident)

text \<open>A batch made entry by entry, in any order: each entry's part is its own.\<close>

lemma own_part:
  "distinct ks \<Longrightarrow> (\<And>r ev. ev \<in> set (F r) \<Longrightarrow> touched ev = Some r) \<Longrightarrow>
    filter (\<lambda>ev. touched ev = Some k) (concat (map F ks)) = (if k \<in> set ks then F k else [])"
proof (induction ks)
  case (Cons r ks)
  have "filter (\<lambda>ev. touched ev = Some k) (F r) = (if r = k then F r else [])"
    using Cons.prems(2) [of _ r] by (auto simp: filter_empty_conv filter_id_conv)
  with Cons show ?case by auto
qed simp

section \<open>Reading the entries of one kind\<close>

lemma entries_of_keys: "map fst (entries_of pick f) = map fst (filter (\<lambda>(k, e). pick (en_state e) \<noteq> None) (rf_entries f))"
proof -
  have "map fst (List.map_filter (\<lambda>(i, e). map_option (Pair i) (pick (en_state e))) l) = map fst (filter (\<lambda>(k, e). pick (en_state e) \<noteq> None) l)"
    for l :: "run_entry btree"
    by (induction l) (auto simp: List.map_filter_simps split: option.split)
  then show ?thesis by (simp add: entries_of_def)
qed

lemma distinct_entries_of: "bt_wf (rf_entries f) \<Longrightarrow> distinct (map fst (entries_of pick f))"
  using bt_wf_distinct [of "rf_entries f"] by (simp add: entries_of_keys distinct_map_filter)

lemma mem_entries_of: "bt_wf (rf_entries f) \<Longrightarrow> (k, x) \<in> set (entries_of pick f) \<longleftrightarrow>
    (\<exists>e. bt_get (rf_entries f) k = Some e \<and> pick (en_state e) = Some x)"
  by (force simp: entries_of_def List.map_filter_def bt_get_iff)

lemma as_sub_iff: "as_sub st = Some m \<longleftrightarrow> st = ESub m"
  by (simp add: as_sub_def split: entry_state.split)

lemma interrupted_mem: "bt_wf (rf_entries f) \<Longrightarrow> k \<in> set (interrupted_subs f) \<longleftrightarrow>
    (\<exists>e m. bt_get (rf_entries f) k = Some e \<and> en_state e = ESub m \<and> su_status m = SubRunning)"
  by (auto simp: interrupted_subs_def subs_def image_iff mem_entries_of as_sub_iff)

lemma flight_iff: "bt_wf (rf_entries f) \<Longrightarrow> has_step_in_flight f \<longleftrightarrow> (\<exists>k w. workflow_of f k = Some w \<and> run_current (wf_run w) \<noteq> None)"
  unfolding has_step_in_flight_def list_ex_iff by (auto simp: workflows_mem Bex_def)

section \<open>Stopping\<close>

text \<open>A child's work is over: its subagent does not run, its run is decided.\<close>

definition settled :: "entry_state \<Rightarrow> bool" where
  "settled st \<longleftrightarrow> (case st of
     ESub r \<Rightarrow> su_status r \<noteq> SubRunning | EWorkflow w \<Rightarrow> is_terminal (rn_status (wf_run w))
   | EMain _ \<Rightarrow> True | ESubSession _ \<Rightarrow> True)"

lemma cancel_entry_touched: "ev \<in> set (snd (cancel_entry i h r st)) \<Longrightarrow> touched ev = Some r"
  using cancel_entry_events [of ev i h r st] by auto

lemma cancel_entry_settles:
  "settled (fold touch (snd (cancel_entry i h r st)) st)" "settled st \<Longrightarrow> fold touch (snd (cancel_entry i h r st)) st = st"
  by (cases st; simp add: cancel_entry_def settled_def touch_def run_failed_def is_terminal_def split: option.split)+

lemma distinct_descendants: "forest_wf f \<Longrightarrow> distinct (descendant_entries f a)"
proof -
  assume "forest_wf f"
  then have "distinct (map fst (rf_entries f))" using bt_wf_distinct by (auto simp: forest_wf_def)
  then show ?thesis by (simp add: descendant_entries_def distinct_map_filter)
qed

lemma cancel_descendants_get:
  assumes wf: "forest_wf (ses_forest s)" and c: "cancel_descendants i h s a = (out, evs)"
  shows "\<forall>ev \<in> set evs. touched ev \<noteq> None"
    "bt_get (rf_entries (ses_forest (session_folds s evs))) k = map_option (\<lambda>e.
       if k \<in> set (descendant_entries (ses_forest s) a) then e\<lparr> en_state := fold touch (snd (cancel_entry i h k (en_state e))) (en_state e) \<rparr>
       else e) (bt_get (rf_entries (ses_forest s)) k)"
proof -
  let ?F = "\<lambda>r. snd (case forest_entry (ses_forest s) r of None \<Rightarrow> ([], []) | Some e \<Rightarrow> cancel_entry i h r (en_state e))"
  have evs: "evs = concat (map ?F (descendant_entries (ses_forest s) a))"
    using c by (auto simp: cancel_descendants_def Let_def o_def intro: arg_cong [where f = concat])
  have F: "ev \<in> set (?F r) \<Longrightarrow> touched ev = Some r" for ev r by (auto dest: cancel_entry_touched split: option.splits)
  show t: "\<forall>ev \<in> set evs. touched ev \<noteq> None" using evs F by fastforce
  have "filter (\<lambda>ev. touched ev = Some k) evs = (if k \<in> set (descendant_entries (ses_forest s) a) then ?F k else [])"
    unfolding evs by (rule own_part [OF distinct_descendants [OF wf] F])
  then show "bt_get (rf_entries (ses_forest (session_folds s evs))) k = map_option (\<lambda>e.
       if k \<in> set (descendant_entries (ses_forest s) a) then e\<lparr> en_state := fold touch (snd (cancel_entry i h k (en_state e))) (en_state e) \<rparr>
       else e) (bt_get (rf_entries (ses_forest s)) k)"
    by (cases "bt_get (rf_entries (ses_forest s)) k") (simp_all add: touches_get [OF t] forest_entry_def)
qed

lemma descendant_entries_iff:
  assumes wf: "forest_wf f" and e: "bt_get (rf_entries f) r = Some e"
  shows "r \<in> set (descendant_entries f a) \<longleftrightarrow> r \<noteq> a \<and> (case en_state e of
     EWorkflow _ \<Rightarrow> \<exists>p. en_parent e = Some p \<and> (p, a) \<in> (up f)\<^sup>* | _ \<Rightarrow> (r, a) \<in> (up f)\<^sup>*)"
proof -
  have "bt_wf (rf_entries f)" using wf by (simp add: forest_wf_def)
  with e have "(r, e') \<in> set (rf_entries f) \<longleftrightarrow> e' = e" for e' by (auto simp: bt_get_iff [symmetric])
  then have "r \<in> set (descendant_entries f a) \<longleftrightarrow> r \<noteq> a \<and> (case en_state e of
     EWorkflow _ \<Rightarrow> (case en_parent e of None \<Rightarrow> False | Some p \<Rightarrow> p = a \<or> descends_from f p a) | _ \<Rightarrow> descends_from f r a)"
    by (auto simp: descendant_entries_def image_iff)
  then show ?thesis by (auto simp: descends_iff [OF wf] split: entry_state.split option.split)
qed

text \<open>The actors doing the work are told to stop before anything is recorded.\<close>

lemma cancel_descendants_tells:
  assumes c: "cancel_descendants i h s a = (out, evs)" and r: "r \<in> set (descendant_entries (ses_forest s) a)"
    and e: "bt_get (rf_entries (ses_forest s)) r = Some e" "en_state e = ESub m" "su_status m = SubRunning" "resident h r"
  shows "CancelAndWait r \<in> set out"
  using c r e by (force simp: cancel_descendants_def Let_def forest_entry_def cancel_entry_def cancel_agent_def key_id_def)

lemma up_acyclic: "forest_wf f \<Longrightarrow> acyclic (up f)"
proof -
  assume "forest_wf f"
  then obtain rank where "ranked f rank" by (auto simp: forest_wf_def)
  then show ?thesis by (intro acyclicI_order [of "up f" rank]) (auto simp: ranked_def)
qed

lemma works_under:
  assumes wf: "forest_wf f" and e: "bt_get (rf_entries f) r = Some e" "is_work (en_state e)"
    and r: "\<And>w. en_state e = EWorkflow w \<Longrightarrow> r \<noteq> a"
  shows "r \<in> set (descendant_entries f a) \<longleftrightarrow> (\<exists>p. en_parent e = Some p \<and> (p, a) \<in> (up f)\<^sup>*)"
proof (cases "en_state e")
  case (ESub m)
  have "bt_get (rf_agents f) r = Some r"
    using index_okI [of f r e r] wf e(1) ESub by (simp add: forest_wf_def hosted_by_def)
  then have p: "parent_of f r = en_parent e" using e(1) by (intro parent_of_owner) (simp add: owner_of_agent_iff)
  have "(r, a) \<in> (up f)\<^sup>* \<and> r \<noteq> a \<longleftrightarrow> (r, a) \<in> (up f)\<^sup>+"
    using up_acyclic [OF wf] by (metis acyclic_def rtranclD trancl_into_rtrancl)
  also have "\<dots> \<longleftrightarrow> (\<exists>p. (r, p) \<in> up f \<and> (p, a) \<in> (up f)\<^sup>*)" by (meson rtrancl_into_trancl2 tranclD)
  finally show ?thesis using descendant_entries_iff [OF wf e(1), of a] ESub p by auto
qed (use e(2) r descendant_entries_iff [OF wf e(1), of a] in \<open>auto simp: is_work_def\<close>)

text \<open>A subagent or a step is never a run under its own id.\<close>

lemma key_no_run:
  assumes "session_reach g j h s" "derived_ids g j" "stop_target i s sel = Some k" "k = KeySub a \<or> k = KeyStep a"
    "stop_boundary i s k = Some stopped" "bt_get (rf_entries (ses_forest s)) a = Some e"
  shows "en_state e \<noteq> EWorkflow w"
proof (cases "k = KeySub a")
  case True
  then show ?thesis using assms(5,6) by (auto simp: stop_boundary_def bind_eq_Some_conv sub_of_def as_sub_def)
next
  case False
  note inv = reach_inv [OF assms(1,2)]
  have names: "names_fresh g (ses_forest s)" using session_reach_ok [OF assms(1,2)] by (simp add: session_ok_def)
  from False assms(4,5) obtain run n w' where st: "step_of_agent (ses_forest s) a = Some (run, n)"
    by (auto simp: stop_boundary_def bind_eq_Some_conv)
  then obtain e' w' where o: "owner_of_agent (ses_forest s) a = Some (run, e')" "en_state e' = EWorkflow w'"
    and n: "index_of_agent (wf_run w') a = Some n"
    by (auto simp: step_of_agent_def split: option.splits entry_state.splits)
  have "workflow_of (ses_forest s) run = Some w'" using o by (auto simp: workflow_of_iff owner_of_agent_iff)
  then have ri: "run_inv g run (wf_graph w') (wf_run w')" by (rule runs_okD [OF forest_invD(2) [OF inv(2)]])
  from n position_SomeD [of _ "rn_steps (wf_run w')" n] have "n < length (rn_steps (wf_run w'))" "se_agent (rn_steps (wf_run w') ! n) = a"
    by (auto simp: index_of_agent_def)
  with run_inv_agent [OF ri] have "a = g run n" by auto
  then have "\<not> minted g a" by (auto simp: minted_def)
  with names_freshD(3) [OF names assms(6)] show ?thesis by simp
qed

text \<open>
  C7: Stopping a subagent or a step ends everything delegated under it: in the state the stop records, before
  its own end is recorded, no subagent below it runs and no run below it is undecided, what was decided already
  stays as it was, nothing else changes, and each subagent ended this way was told to stop.\<close>

theorem stop_ends_the_delegated_work:
  assumes "session_reach g j h s" "derived_ids g j" "stop_target i s sel = Some k" "k = KeySub a \<or> k = KeyStep a"
    "stop_boundary i s k = Some stopped" "stop_turn i sel caller h s = (h', out, fx)"
  shows "\<exists>evs later. sfx_events fx = evs @ stopped # later \<and>
    (\<forall>r e. forest_entry (ses_forest s) r = Some e \<longrightarrow>
       (\<exists>e'. forest_entry (ses_forest (session_folds s evs)) r = Some e' \<and> en_parent e' = en_parent e \<and>
          (if is_work (en_state e) \<and> (\<exists>p. en_parent e = Some p \<and> (p, a) \<in> (up (ses_forest s))\<^sup>*)
           then settled (en_state e') \<and> (settled (en_state e) \<longrightarrow> e' = e) else e' = e))) \<and>
    (\<forall>r e m p. forest_entry (ses_forest s) r = Some e \<longrightarrow> en_state e = ESub m \<longrightarrow> su_status m = SubRunning \<longrightarrow>
       en_parent e = Some p \<longrightarrow> (p, a) \<in> (up (ses_forest s))\<^sup>* \<longrightarrow> resident h r \<longrightarrow> CancelAndWait r \<in> set out)"
proof -
  note inv = reach_inv [OF assms(1,2)]
  let ?f = "ses_forest s"
  obtain o1 evs where c: "cancel_descendants i h s a = (o1, evs)" by (metis surj_pair)
  obtain h2 o2 evs2 where f: "flush_then_drain i h (session_folds s (evs @ [stopped])) = (h2, o2, evs2)" by (metis prod_cases3)
  have fx: "sfx_events fx = evs @ stopped # evs2" and out: "set o1 \<subseteq> set out"
    using assms(3-6) c f by (auto simp: stop_turn_def before_def persist_and_advance_def journal_def sfx_none_def)
  note get = cancel_descendants_get(2) [OF inv(3) c]
  have under: "r \<in> set (descendant_entries ?f a) \<longleftrightarrow> (\<exists>p. en_parent e = Some p \<and> (p, a) \<in> (up ?f)\<^sup>*)"
    if "bt_get (rf_entries ?f) r = Some e" "is_work (en_state e)" for r e
    by (rule works_under [OF inv(3) that]) (use key_no_run [OF assms(1-5)] that(1) in blast)
  have one: "\<exists>e'. forest_entry (ses_forest (session_folds s evs)) r = Some e' \<and> en_parent e' = en_parent e \<and>
          (if is_work (en_state e) \<and> (\<exists>p. en_parent e = Some p \<and> (p, a) \<in> (up ?f)\<^sup>*)
           then settled (en_state e') \<and> (settled (en_state e) \<longrightarrow> e' = e) else e' = e)"
    if e: "forest_entry ?f r = Some e" for r e
  proof (cases "is_work (en_state e)")
    case True
    show ?thesis
      using e under [of r e] True cancel_entry_settles [where i = i and h = h and r = r and st = "en_state e"] by (auto simp: forest_entry_def get)
  next
    case False
    then have "snd (cancel_entry i h r (en_state e)) = []" by (auto simp: is_work_def cancel_entry_def split: entry_state.splits)
    then show ?thesis using e False by (auto simp: forest_entry_def get)
  qed
  have "CancelAndWait r \<in> set out"
    if "forest_entry ?f r = Some e" "en_state e = ESub m" "su_status m = SubRunning" "en_parent e = Some p"
      "(p, a) \<in> (up ?f)\<^sup>*" "resident h r" for r e m p
    using cancel_descendants_tells [OF c _ _ that(2,3,6)] under [of r e] that out by (auto simp: forest_entry_def is_work_def)
  with fx one show ?thesis by blast
qed

theorem stop_ends_the_delegated_work_witness:
  "\<exists>evs later e'. sfx_events (snd (snd (stop_turn (sample_io 9 ''i9'') ''a'' 0 sample_host sample_state))) =
       evs @ SubAgentFailed 9 ''a'' STOPPED_ERROR # later \<and>
     forest_entry (ses_forest (session_folds sample_state evs)) ''b'' = Some e' \<and> settled (en_state e')"
proof -
  let ?i = "sample_io 9 ''i9''" and ?f = "ses_forest sample_state"
  note inv = reach_inv [OF sample_ok]
  obtain h' out fx where r: "stop_turn ?i ''a'' 0 sample_host sample_state = (h', out, fx)" by (metis prod_cases3)
  have t: "stop_target ?i sample_state ''a'' = Some (KeySub ''a'')"
    using sample_session_facts(8) by (simp add: stop_target_def MAIN_AGENT_ID_def sample_io_def)
  obtain e m where a: "bt_get (rf_entries ?f) ''a'' = Some e" "en_state e = ESub m" "su_status m = SubRunning"
    using interrupted_mem [OF inv(5), of "''a''"] sample_session_facts(9) by auto
  then have st: "stop_boundary ?i sample_state (KeySub ''a'') = Some (SubAgentFailed 9 ''a'' STOPPED_ERROR)"
    by (simp add: stop_boundary_def sub_of_def as_sub_def sample_io_def)
  obtain eb where b: "forest_entry ?f ''b'' = Some eb" "en_parent eb = Some ''r/0''" "is_work (en_state eb)"
    using sample_session_facts(6) by auto
  have "(''b'', ''a'') \<in> (up ?f)\<^sup>*" using sample_session_facts(2) descends_iff [OF inv(3)] by simp
  moreover have "parent_of ?f ''b'' = Some ''r/0''"
    using sample_session_facts(1) b index_okI [OF inv(6), of "''b''" eb "''b''"] sample_session_facts(9) interrupted_mem [OF inv(5), of "''b''"]
    by (auto simp: forest_entry_def hosted_by_def parent_of_def owner_of_agent_def)
  ultimately have "(''r/0'', ''a'') \<in> (up ?f)\<^sup>*" by (auto elim: converse_rtranclE)
  with stop_ends_the_delegated_work [OF sample_ok t disjI1 [OF refl] st r] b r show ?thesis by fastforce
qed

section \<open>Loading\<close>

text \<open>What a load makes of an entry that a lost process left at work.\<close>

definition reloaded :: "u64 \<Rightarrow> u64 \<Rightarrow> entry_state \<Rightarrow> entry_state" where
  "reloaded t1 t2 st = (case st of
     ESub m \<Rightarrow> if su_status m = SubRunning
       then ESub (m\<lparr> su_status := SubFailed, su_error := Some INTERRUPTED_ERROR, su_notified := False, su_ended_at_ms := t1 \<rparr>) else st
   | EWorkflow w \<Rightarrow> (case run_current (wf_run w) of
       Some c \<Rightarrow> EWorkflow (w\<lparr> wf_run := run_cancelled c t2 (wf_run w) \<rparr>) | None \<Rightarrow> st)
   | _ \<Rightarrow> st)"

lemma reconcile_subs_get:
  assumes wf: "bt_wf (rf_entries (ses_forest s))" and r: "reconcile_subs i h s = (h', out, fx)"
  shows "\<forall>ev \<in> set (sfx_events fx). touched ev \<noteq> None"
    "bt_get (rf_entries (ses_forest (session_folds s (sfx_events fx)))) k = map_option (\<lambda>e. e\<lparr> en_state := (case en_state e of
       ESub m \<Rightarrow> reloaded (sio_now i) t2 (ESub m) | st \<Rightarrow> st) \<rparr>) (bt_get (rf_entries (ses_forest s)) k)"
proof -
  let ?F = "\<lambda>a. [SubAgentFailed (sio_now i) a INTERRUPTED_ERROR]"
  have evs: "sfx_events fx = concat (map ?F (interrupted_subs (ses_forest s)))"
    using r by (auto simp: reconcile_subs_def journal_def sfx_none_def concat_map_singleton)
  show t: "\<forall>ev \<in> set (sfx_events fx). touched ev \<noteq> None" by (auto simp: evs)
  have "distinct (interrupted_subs (ses_forest s))"
    unfolding interrupted_subs_def subs_def by (rule distinct_map_filter [OF distinct_entries_of [OF wf]])
  then have own: "filter (\<lambda>ev. touched ev = Some k) (sfx_events fx) = (if k \<in> set (interrupted_subs (ses_forest s)) then ?F k else [])"
    unfolding evs by (rule own_part) simp
  show "bt_get (rf_entries (ses_forest (session_folds s (sfx_events fx)))) k = map_option (\<lambda>e. e\<lparr> en_state := (case en_state e of
       ESub m \<Rightarrow> reloaded (sio_now i) t2 (ESub m) | st \<Rightarrow> st) \<rparr>) (bt_get (rf_entries (ses_forest s)) k)"
    by (cases "bt_get (rf_entries (ses_forest s)) k")
      (auto simp: touches_get [OF t] own interrupted_mem [OF wf] touch_def reloaded_def split: entry_state.split)
qed

lemma current_get: "run_current r = Some c \<Longrightarrow> \<exists>st. run_get r c = Some st"
  using position_SomeD [of _ "rn_steps r" c] by (auto simp: run_current_def run_get_def)

lemma reconcile_steps_get:
  assumes wf: "bt_wf (rf_entries (ses_forest s))" and r: "reconcile_steps i h s = (h', out, fx)"
  shows "\<forall>ev \<in> set (sfx_events fx). touched ev \<noteq> None"
    "bt_get (rf_entries (ses_forest (session_folds s (sfx_events fx)))) k = map_option (\<lambda>e. e\<lparr> en_state := (case en_state e of
       EWorkflow w \<Rightarrow> reloaded t1 (sio_now i) (EWorkflow w) | st \<Rightarrow> st) \<rparr>) (bt_get (rf_entries (ses_forest s)) k)"
proof -
  let ?W = "workflows (ses_forest s)"
  let ?G = "\<lambda>(r, w). case run_current (wf_run w) of Some c \<Rightarrow> [StepCancelled (sio_now i) r c] | None \<Rightarrow> []"
  let ?F = "\<lambda>r. case workflow_of (ses_forest s) r of Some w \<Rightarrow> ?G (r, w) | None \<Rightarrow> []"
  have flat: "map (\<lambda>(run, index, _). StepCancelled (sio_now i) run index) (List.map_filter (\<lambda>(i, w).
     case run_current (wf_run w) of None \<Rightarrow> None
     | Some index \<Rightarrow> map_option (\<lambda>s. (i, index, se_agent s)) (run_get (wf_run w) index)) W) = concat (map ?G W)" for W
  proof (induction W)
    case (Cons x W)
    obtain r w where "x = (r, w)" by (cases x)
    with Cons show ?case using current_get [of "wf_run w"]
      by (cases "run_current (wf_run w)") (auto simp: List.map_filter_simps)
  qed (simp add: List.map_filter_simps)
  have known: "map ?G ?W = map (\<lambda>x. ?F (fst x)) ?W"
    by (auto simp: workflows_mem [OF wf] split: option.split)
  have evs: "sfx_events fx = concat (map ?F (map fst ?W))"
    using r flat [of ?W] known by (auto simp: reconcile_steps_def journal_def sfx_none_def in_flight_steps_def o_def)
  have F: "ev \<in> set (?F r) \<Longrightarrow> touched ev = Some r" for ev r by (auto split: option.splits)
  show t: "\<forall>ev \<in> set (sfx_events fx). touched ev \<noteq> None" unfolding evs using F by fastforce
  have "distinct (map fst ?W)" using distinct_entries_of [OF wf] by (simp add: workflows_def)
  then have own: "filter (\<lambda>ev. touched ev = Some k) (sfx_events fx) = (if k \<in> set (map fst ?W) then ?F k else [])"
    unfolding evs by (rule own_part) (rule F)
  have mem: "k \<in> set (map fst ?W) \<longleftrightarrow> workflow_of (ses_forest s) k \<noteq> None"
  proof
    assume "k \<in> set (map fst (workflows (ses_forest s)))"
    then show "workflow_of (ses_forest s) k \<noteq> None" by (auto simp: workflows_mem [OF wf])
  next
    assume "workflow_of (ses_forest s) k \<noteq> None"
    then obtain w where "(k, w) \<in> set (workflows (ses_forest s))" by (auto simp: workflows_mem [OF wf])
    then show "k \<in> set (map fst (workflows (ses_forest s)))" by force
  qed
  show "bt_get (rf_entries (ses_forest (session_folds s (sfx_events fx)))) k = map_option (\<lambda>e. e\<lparr> en_state := (case en_state e of
       EWorkflow w \<Rightarrow> reloaded t1 (sio_now i) (EWorkflow w) | st \<Rightarrow> st) \<rparr>) (bt_get (rf_entries (ses_forest s)) k)"
    by (cases "bt_get (rf_entries (ses_forest s)) k")
      (auto simp: touches_get [OF t] own mem [unfolded set_map] touch_def reloaded_def workflow_of_def as_workflow_def split: entry_state.split option.split)
qed

text \<open>
  C12: Work a lost process left behind is settled at load: whenever a subagent is recorded as running or a step as
  in flight, the load asks for its repair, and the two repairs leave no subagent running and no step in flight,
  each interrupted subagent failed with the reason, each interrupted run suspended where it stood for a retry,
  and everything else as it was.\<close>

theorem reload_settles_interrupted_work:
  assumes "session_reach g j h s" "derived_ids g j" "reconcile_subs i h s = (h1, out1, fx1)" "s1 = session_folds s (sfx_events fx1)"
    "reconcile_steps i' h1 s1 = (h2, out2, fx2)" "s2 = session_folds s1 (sfx_events fx2)"
  shows "(interrupted_subs (ses_forest s) \<noteq> [] \<longrightarrow> ReconcileSubs \<in> set (repairs s)) \<and>
    (has_step_in_flight (ses_forest s) \<longrightarrow> ReconcileSteps \<in> set (repairs s)) \<and>
    forest_entry (ses_forest s2) r =
      map_option (\<lambda>e. e\<lparr> en_state := reloaded (sio_now i) (sio_now i') (en_state e) \<rparr>) (forest_entry (ses_forest s) r) \<and>
    interrupted_subs (ses_forest s2) = [] \<and> \<not> has_step_in_flight (ses_forest s2) \<and> same_frame s s2"
proof -
  note inv = reach_inv [OF assms(1,2)]
  have repairs: "(interrupted_subs (ses_forest s) \<noteq> [] \<longrightarrow> ReconcileSubs \<in> set (repairs s)) \<and>
    (has_step_in_flight (ses_forest s) \<longrightarrow> ReconcileSteps \<in> set (repairs s))"
    by (simp add: repairs_def subs_on_load_def runs_on_load_def List.map_filter_simps split: option.split)
  note subs = reconcile_subs_get [OF inv(5) assms(3)]
  have frame1: "same_frame s s1" unfolding assms(4) by (rule touches_frame [OF subs(1)])
  then have wf1: "bt_wf (rf_entries (ses_forest s1))" by (rule same_frame_keys [OF _ inv(5)])
  note steps = reconcile_steps_get [OF wf1 assms(5)]
  have frame2: "same_frame s1 s2" unfolding assms(6) by (rule touches_frame [OF steps(1)])
  then have wf2: "bt_wf (rf_entries (ses_forest s2))" by (rule same_frame_keys [OF _ wf1])
  have get: "bt_get (rf_entries (ses_forest s2)) r =
      map_option (\<lambda>e. e\<lparr> en_state := reloaded (sio_now i) (sio_now i') (en_state e) \<rparr>) (bt_get (rf_entries (ses_forest s)) r)" for r
    unfolding assms(6) steps(2) [of r "sio_now i"] unfolding assms(4) subs(2) [of r "sio_now i'"]
    by (cases "bt_get (rf_entries (ses_forest s)) r"; cases "en_state (the (bt_get (rf_entries (ses_forest s)) r))")
      (auto simp: reloaded_def split: option.split)
  have "interrupted_subs (ses_forest s2) = []"
  proof -
    have "k \<notin> set (interrupted_subs (ses_forest s2))" for k
      by (auto simp: interrupted_mem [OF wf2] get reloaded_def split: entry_state.splits if_splits option.splits)
    then show ?thesis by (metis last_in_set)
  qed
  moreover have "\<not> has_step_in_flight (ses_forest s2)"
  proof
    assume "has_step_in_flight (ses_forest s2)"
    then obtain k w where w: "workflow_of (ses_forest s2) k = Some w" "run_current (wf_run w) \<noteq> None"
      using flight_iff [OF wf2] by blast
    then obtain e w' where w': "bt_get (rf_entries (ses_forest s)) k = Some e" "en_state e = EWorkflow w'"
      "EWorkflow w = reloaded (sio_now i) (sio_now i') (EWorkflow w')"
    proof -
      from w(1) obtain e where e: "bt_get (rf_entries (ses_forest s)) k = Some e"
        "reloaded (sio_now i) (sio_now i') (en_state e) = EWorkflow w"
        by (auto simp: workflow_of_iff get)
      moreover obtain w' where "en_state e = EWorkflow w'"
        using e(2) by (cases "en_state e") (auto simp: reloaded_def split: if_splits)
      ultimately show ?thesis using that by simp
    qed
    have "running_steps (wf_run w') \<le> 1"
      using runs_okD [OF forest_invD(2) [OF inv(2)], of k w'] w'(1,2) by (auto simp: workflow_of_iff run_inv_def)
    then have "run_current (wf_run w) = None"
      using w'(3) cancel_current [of "wf_run w'"] by (auto simp: reloaded_def run_current_None split: option.splits)
    with w(2) show False by simp
  qed
  ultimately show ?thesis
    using repairs get [of r] same_frame_trans [OF frame1 frame2] by (simp add: forest_entry_def)
qed

theorem reload_settles_interrupted_work_witness:
  "ReconcileSubs \<in> set (repairs sample_state) \<and> ReconcileSteps \<in> set (repairs sample_state)"
proof -
  let ?i = "sample_io 9 ''i9''"
  obtain h1 o1 fx1 where 1: "reconcile_subs ?i sample_host sample_state = (h1, o1, fx1)" by (metis prod_cases3)
  obtain h2 o2 fx2 where 2: "reconcile_steps ?i h1 (session_folds sample_state (sfx_events fx1)) = (h2, o2, fx2)" by (metis prod_cases3)
  show ?thesis
    using reload_settles_interrupted_work [OF sample_ok 1 refl 2 refl] sample_session_facts(9,10) by simp
qed




end
