(* ===== verification/Session_Replies.thy ===== *)
theory Session_Replies
  imports Session_Sample
begin

text \<open>
  Who is answered, and who has a sandbox: every request that reaches a created session is answered exactly
  once, by this session or by the one it hands the request to; and no owner is ever given two runtimes.
\<close>

section \<open>Replies\<close>

text \<open>The caller a command carries, the caller an output answers or hands on, the one an effect answers later.\<close>

definition asker :: "session_command \<Rightarrow> nat option" where
  "asker cmd = (case cmd of
     PrepareOffload c \<Rightarrow> Some c | DeleteSession c \<Rightarrow> Some c | UserMessage _ _ _ c \<Rightarrow> Some c | StopTurn _ c \<Rightarrow> Some c
   | AnswerAgent _ _ c \<Rightarrow> Some c | CreateRun _ _ c \<Rightarrow> Some c | FinishCreateRun _ c _ \<Rightarrow> Some c | RunStatus _ _ c \<Rightarrow> Some c
   | RetryStep _ c \<Rightarrow> Some c | ReadRunState c \<Rightarrow> Some c | SpawnSub _ _ _ _ c \<Rightarrow> Some c | FinishSpawn _ _ _ c _ \<Rightarrow> Some c
   | SubStatus _ _ c \<Rightarrow> Some c | CreateSubSession _ _ _ _ _ c \<Rightarrow> Some c | FinishCreateSubSession _ _ c _ \<Rightarrow> Some c
   | ReadAgentLog _ _ c \<Rightarrow> Some c | RuntimeCheckouts _ c \<Rightarrow> Some c | ReadSnapshot c \<Rightarrow> Some c | DeleteAgent _ c \<Rightarrow> Some c
   | SetTitle _ c \<Rightarrow> Some c | CreateSession _ _ m \<Rightarrow> map_option fm_caller m | _ \<Rightarrow> None)"

definition reply_to :: "session_out \<Rightarrow> nat option" where
  "reply_to m = (case m of
     AnswerCaller c _ \<Rightarrow> Some c | ForwardAnswer _ _ c \<Rightarrow> Some c | ForwardMessage _ _ c \<Rightarrow> Some c | ForwardRead _ _ c \<Rightarrow> Some c
   | CreateSubSessionFor _ _ _ _ c \<Rightarrow> Some c | SelfSend cmd \<Rightarrow> asker cmd | _ \<Rightarrow> None)"

definition replies :: "session_out list \<Rightarrow> nat list" where
  "replies out = List.map_filter reply_to out"

definition asking :: "nat option \<Rightarrow> nat list" where
  "asking c = (case c of Some n \<Rightarrow> [n] | None \<Rightarrow> [])"

definition answered :: "string option \<Rightarrow> session_handled \<Rightarrow> nat list" where
  "answered q r = (case r of (h, out, fx) \<Rightarrow>
     replies out @ (case sfx_ack fx of Some f \<Rightarrow> asking (asker (f q)) | None \<Rightarrow> []))"

lemma replies_simps [simp]: "replies [] = []" "replies (out @ out') = replies out @ replies out'"
  "replies (m # out) = asking (reply_to m) @ replies out"
  by (simp_all add: replies_def List.map_filter_def asking_def split: option.split)

lemma replies_map [simp]: "(\<And>x. x \<in> set xs \<Longrightarrow> reply_to (f x) = None) \<Longrightarrow> replies (map f xs) = []"
  by (induction xs) (simp_all add: asking_def)

lemma replies_concat [simp]: "(\<And>x. x \<in> set xs \<Longrightarrow> replies (f x) = []) \<Longrightarrow> replies (concat (map f xs)) = []"
  by (induction xs) simp_all

lemma reply_to_simps [simp]:
  "reply_to (SpawnAgent pl rdy b ps) = None" "reply_to (TellAgent a ac) = None" "reply_to (CancelAndWait a) = None"
  "reply_to (StopActor a) = None" "reply_to (SelfSend cmd) = asker cmd" "reply_to (AnswerCaller c v) = Some c"
  "reply_to (ForwardAnswer a l c) = Some c" "reply_to (ForwardMessage a m c) = Some c" "reply_to (ForwardRead a rdc c) = Some c"
  "reply_to (CreateSubSessionFor a sd2 msg title c) = Some c" "reply_to (CreateRuntime r t e) = None"
  "reply_to (HibernateRuntime r vendor) = None" "reply_to (DeleteRuntime r vendor) = None" "reply_to (SeedTask x y sd3 n m3) = None"
  "reply_to (PublishTitle title) = None" "reply_to (RecordAsks title qs) = None" "reply_to ForgetAgentRuns = None"
  "reply_to ForgetInbox = None" "reply_to ReleaseArtifacts = None"
  by (simp_all add: reply_to_def)

lemma asking_simps [simp]: "asking None = []" "asking (Some c) = [c]"
  by (simp_all add: asking_def)

lemma asker_simps [simp]:
  "asker (Provision owner env) = None" "asker AdvanceRuns = None" "asker ReconcileSteps = None" "asker ReconcileSubs = None"
  "asker ReseedInterrupted = None" "asker (SeedFailedSubSession a err) = None" "asker (UserMessage sel text arts c) = Some c"
  "asker (FinishCreateRun run c failed) = Some c" "asker (FinishSpawn a task ty c failed) = Some c"
  "asker (FinishCreateSubSession a req c failed) = Some c"
  by (simp_all add: asker_def)

lemma answered_simps [simp]:
  "answered q (h, out, sfx_none) = replies out" "answered q (h, out, journal evs) = replies out"
  "answered q (h, out, stop_effect) = replies out" "answered q (quiet h) = []" "answered q (answer h c v) = [c]"
  "answered q (h, out, (journal evs)\<lparr> sfx_ack := Some f \<rparr>) = replies out @ asking (asker (f q))"
  "answered q (before out r) = replies out @ answered q r"
  by (simp_all add: answered_def sfx_none_def journal_def stop_effect_def quiet_def answer_def before_def split: prod.split)

text \<open>Reaching an agent, working a boundary and stopping agents answer nobody.\<close>

lemma spawn_silent: "spawn_agent i h s p = Some (a, h', out) \<Longrightarrow> replies out = []"
  by (auto simp: spawn_agent_def Let_def split: if_splits)

lemma reach_silent:
  "spawn_sub_agent_actor i h s a t = Some (b, h', out) \<Longrightarrow> replies out = []"
  "spawn_step_agent i h s run a n = Some (b, h', out) \<Longrightarrow> replies out = []"
  "spawn_sub_session_actor i h s a = Some (b, h', out) \<Longrightarrow> replies out = []"
  "resolve_step i h s a = Some (b, h', out) \<Longrightarrow> replies out = []"
  "main_actor h = Some (b, h', out) \<Longrightarrow> replies out = []"
  "resolve_sub i h s a = Some (b, h', out) \<Longrightarrow> replies out = []"
  by (auto simp: spawn_sub_agent_actor_def spawn_step_agent_def spawn_sub_session_actor_def resolve_step_def main_actor_def
    resolve_sub_def bind_eq_Some_conv split: option.splits if_splits dest!: spawn_silent)

lemma resolve_silent: "resolve_agent i h s sel = Some (k, a, h', out) \<Longrightarrow> replies out = []"
  by (cases k) (auto simp: resolve_agent_def bind_eq_Some_conv split: option.splits if_splits agent_key.splits dest!: reach_silent)

lemma key_reach_silent: "reach i h s k = Some (a, h', out) \<Longrightarrow> replies out = []"
  by (cases k) (auto simp: reach_def bind_eq_Some_conv split: if_splits dest!: reach_silent)

lemma source_silent: "sub_session_source i h s p = Some (a, h', out) \<Longrightarrow> replies out = []"
  by (auto simp: sub_session_source_def split: if_splits dest!: reach_silent)

lemma perform_silent: "perform_action i act h s = (h', out, evs) \<Longrightarrow> replies out = []"
  by (cases act) (auto simp: perform_action_def deliver_def start_step_def split: option.splits if_splits
    dest!: key_reach_silent reach_silent)

lemma perform_all_unreplied: "perform_all i acts h s = (h', s', out, evs) \<Longrightarrow> replies out = []"
  by (induction i acts h s arbitrary: h' s' out evs rule: perform_all.induct)
    (auto split: prod.splits dest!: perform_silent)

lemma rounds_silent: "flush_rounds i n h s = (h', s', out, evs) \<Longrightarrow> replies out = []"
  by (induction i n h s arbitrary: h' s' out evs rule: flush_rounds.induct)
    (auto split: prod.splits if_splits dest!: perform_all_unreplied)

lemma flush_silent: "flush_then_drain i h s = (h', out, evs) \<Longrightarrow> replies out = []"
  by (auto simp: flush_then_drain_def split: prod.splits dest!: rounds_silent)

lemma persist_answered [simp]: "answered q (persist_and_advance i evs h s) = []"
  by (auto simp: persist_and_advance_def split: prod.splits dest!: flush_silent)

lemma cancel_silent [simp]: "replies (cancel_agent h k) = []"
  by (simp add: cancel_agent_def)

lemma cancel_entry_silent [simp]: "replies (fst (cancel_entry i h r st)) = []"
  by (cases st) (auto simp: cancel_entry_def split: option.split)

lemma cancel_descendants_silent: "cancel_descendants i h s a = (out, evs) \<Longrightarrow> replies out = []"
  by (auto simp: cancel_descendants_def Let_def o_def split: option.splits intro!: replies_concat)

lemma stop_agents_silent: "stop_agents h = (h', out) \<Longrightarrow> replies out = []"
  by (auto simp: stop_agents_def intro!: replies_concat split: prod.splits)

lemma cancel_in_flight_silent [simp]: "replies (cancel_in_flight h s) = []"
  by (auto simp: cancel_in_flight_def split: prod.splits intro!: replies_concat)

lemma retire_silent: "retire_all as h = (h', out) \<Longrightarrow> replies out = []"
  by (induction as h arbitrary: h' out rule: retire_all.induct)
    (auto simp: retire_agent_actor_def split: prod.splits if_splits)

lemma seed_silent: "seed_with i a sd h s = (h', out) \<Longrightarrow> replies out = []"
  by (auto simp: seed_with_def split: option.splits if_splits dest!: source_silent)

lemma seeding_silent: "start_seeding i a h s = (h', out) \<Longrightarrow> replies out = []"
  by (auto simp: start_seeding_def split: option.splits seed_mode.splits dest!: source_silent seed_silent)

lemma summarised_silent: "summarised i as r h s = (h', out) \<Longrightarrow> replies out = []"
  by (induction i as r h s arbitrary: h' out rule: summarised.induct)
    (auto split: prod.splits if_splits sum.splits dest!: seed_silent)

lemma reseed_silent: "reseed i as h s = (h', out) \<Longrightarrow> replies out = []"
proof (induction as arbitrary: h h' out)
  case (Cons a as)
  show ?case
  proof (cases "spawn_sub_session_actor i h s a")
    case None
    then show ?thesis using Cons by simp
  next
    case (Some x)
    obtain b h1 out1 where x: "x = (b, h1, out1)" by (cases x)
    obtain h2 out2 where s: "start_seeding i a h1 s = (h2, out2)" by (metis surj_pair)
    obtain h3 out3 where r: "reseed i as h2 s = (h3, out3)" by (metis surj_pair)
    have "out = out1 @ out2 @ out3" using Cons.prems Some x s r by simp
    then show ?thesis using reach_silent(3) [OF Some [unfolded x]] seeding_silent [OF s] Cons.IH [OF r] by simp
  qed
qed simp

lemma title_silent: "title_from_first_message i s text = (out, evs) \<Longrightarrow> replies out = []"
  "rename_main_agent i title = (out, r) \<Longrightarrow> replies out = []"
  by (auto simp: title_from_first_message_def rename_main_agent_def split: option.splits sum.splits if_splits prod.splits)

lemma main_silent: "spawn_main_agent i h s = (h', out) \<Longrightarrow> replies out = []"
  by (auto simp: spawn_main_agent_def split: option.splits dest!: spawn_silent)

lemma repairs_silent: "cmd \<in> set (repairs s) \<Longrightarrow> asker cmd = None"
  by (auto simp: repairs_def List.map_filter_simps lifecycle_on_load_def subs_on_load_def runs_on_load_def sub_sessions_on_load_def
    split: option.splits if_splits)

lemma adopt_silent: "adopt i spec h s = (h', out) \<Longrightarrow> replies out = []"
  by (auto simp: adopt_def Let_def repairs_silent split: session_kind.splits prod.splits dest!: main_silent)

text \<open>Each handler answers the caller of its command, or none when the command has none.\<close>

lemma sandbox_answered: "answered q (provision i owner env h s) = []" "answered q (narrate_provisioning i r detail h s) = []"
  "answered q (finish_provisioning i r err final h s) = []" "answered q (prepare_offload caller h s) = [caller]"
  "answered q (delete_session caller h s) = [caller]"
  by (auto simp: provision_def narrate_provisioning_def finish_provisioning_def prepare_offload_def delete_session_def Let_def
    split: option.split provisioning_state.split prod.splits dest!: flush_silent stop_agents_silent)

lemma message_answered: "answered q (stop_turn i who caller h s) = [caller]" "answered q (answer_agent i sel answers caller h s) = [caller]"
  "answered q (read_agent_log i sel rd caller h s) = [caller]" "answered q (user_message i sel text artifacts caller h s) = [caller]"
  subgoal by (auto simp: stop_turn_def split: option.split agent_key.split prod.splits dest!: cancel_descendants_silent)
  subgoal by (auto simp: answer_agent_def split: option.split prod.split dest!: resolve_silent)
  subgoal by (auto simp: read_agent_log_def split: option.split prod.split dest!: resolve_silent)
  subgoal by (auto simp: user_message_def split: option.split prod.split provisioning_state.split dest!: resolve_silent title_silent)
  done

lemma runs_answered: "answered q (create_run i parent graph caller h s) = [caller]"
  "answered q (finish_create_run i run caller failed h s) = [caller]" "answered q (run_status i asker_id run caller h s) = [caller]"
  "answered q (advance_runs i h s) = []" "answered q (retry_step i index caller h s) = [caller]" "answered q (reconcile_steps i h s) = []"
  subgoal by (simp add: create_run_def split: option.split)
  subgoal by (auto simp: finish_create_run_def split: option.split prod.split dest!: flush_silent)
  subgoal by (simp add: run_status_def)
  subgoal by (auto simp: advance_runs_def split: prod.split dest!: flush_silent)
  subgoal
  proof -
    have "retry_stop i h s run r = (out, evs) \<Longrightarrow> replies out = []" for run r out evs
      by (auto simp: retry_stop_def Let_def split: option.splits prod.splits dest!: cancel_descendants_silent)
    moreover have "start_step i p h' s' = (h2, out, evs) \<Longrightarrow> replies out = []" for p h' s' h2 out evs
      by (auto simp: start_step_def split: option.splits if_splits dest!: reach_silent)
    ultimately show ?thesis by (auto simp: retry_step_def split: option.split prod.split)
  qed
  subgoal by (simp add: reconcile_steps_def)
  done

lemma children_answered: "answered q (spawn_sub i spawner title task ty caller h s) = [caller]"
  "answered q (finish_spawn i a task ty caller failed h s) = [caller]" "answered q (reconcile_subs i h s) = []"
  "answered q (create_sub_session i parent sd msg title env caller h s) = [caller]"
  "answered q (finish_create_sub_session i a env caller failed h s) = [caller]"
  "answered q (seeded_sub_session i a h s) = []" "answered q (seed_failed_sub_session i a h s) = []"
  subgoal by (simp add: spawn_sub_def split: option.split)
  subgoal by (auto simp: finish_spawn_def split: option.split prod.split dest!: reach_silent)
  subgoal by (simp add: reconcile_subs_def)
  subgoal by (auto simp: create_sub_session_def split: option.split prod.split dest!: source_silent)
  subgoal by (auto simp: finish_create_sub_session_def split: option.split prod.split requested_runtime.split dest!: reach_silent seeding_silent)
  subgoal by (simp add: seeded_sub_session_def)
  subgoal by (simp add: seed_failed_sub_session_def)
  done

lemma reported_answered: "answered q (agent_reported i outc h s) = []"
proof -
  have "answered q (main_outcome i e h s) = []" "answered q (on_step_outcome i run n a e h s) = []" "answered q (sub_outcome i a e h s) = []"
    "answered q (sub_session_outcome i a e h s) = []" "answered q (agent_started i a h s) = []" for e run n a
    by (simp_all add: main_outcome_def on_step_outcome_def sub_outcome_def sub_session_outcome_def agent_started_def Let_def
      split: turn_end.split option.split agent_key.split)
  moreover have "replies (asked_rows h k outc) = []" for k by (auto simp: asked_rows_def Let_def split: agent_outcome.split)
  ultimately show ?thesis
    by (auto simp: agent_reported_def Let_def split: sum.split prod.split not_an_end.split option.split agent_key.split
      dest!: summarised_silent)
qed

lemma core_answered: "answered q (delete_agent i a caller h s) = [caller]" "answered q (set_title i title caller h s) = [caller]"
  "answered q (tell_resident h k cmd) = []" "answered q (halt_agent i k reason h s) = []"
  "answered q (create_session i spec name msg h s) = asking (map_option fm_caller msg)"
  subgoal by (auto simp: delete_agent_def split: prod.split dest!: retire_silent)
  subgoal by (auto simp: set_title_def split: sum.split prod.splits dest!: title_silent)
  subgoal by (simp add: tell_resident_def)
  subgoal by (simp add: halt_agent_def reported_answered)
  subgoal by (auto simp: create_session_def Let_def split: option.split prod.split dest!: adopt_silent)
  done

lemma handled_answered: "answered q (handle_session i cmd h s) = asking (asker cmd)"
proof -
  note known = sandbox_answered message_answered runs_answered children_answered reported_answered core_answered
  have loops: "answered q (case summarised i ids r h s of (h1, out) \<Rightarrow> (h1, out, sfx_none)) = []"
    "answered q (case reseed i as h s of (h1, out) \<Rightarrow> (h1, out, sfx_none)) = []" for ids r as
    by (auto split: prod.split dest!: summarised_silent reseed_silent)
  show ?thesis
    unfolding handle_session_def
    by (cases cmd) (simp_all only: session_command.case known loops, simp_all add: asker_def)
qed

text \<open>
  C8: Every request is answered exactly once. A created session answers the caller of each command it handles by one
  reply, or hands that caller on, once, to the agent, the session or the later command that will answer, whatever
  becomes of the command in between; a command nobody waits for is answered to nobody.\<close>

theorem every_request_is_answered_once:
  assumes "ho_spec h \<noteq> None" "handle_session_command i cmd h s = (h', out, fx)"
  shows "replies out @ (case sfx_ack fx of Some f \<Rightarrow> asking (asker (f failed)) | None \<Rightarrow> []) = asking (asker cmd)"
proof -
  have r: "handle_session i cmd h s = (h', out, fx)" using assms by (auto simp: handle_session_command_def)
  show ?thesis using handled_answered [of failed i cmd h s] by (simp add: r answered_def)
qed


theorem every_request_is_answered_once_witness:
  "replies (fst (snd (handle_session_command (sample_io 9 ''i9'') (SpawnSub ''s'' ''t'' ''u'' None 7) sample_host sample_state))) @
   (case sfx_ack (snd (snd (handle_session_command (sample_io 9 ''i9'') (SpawnSub ''s'' ''t'' ''u'' None 7) sample_host sample_state))) of
      Some f \<Rightarrow> asking (asker (f None)) | None \<Rightarrow> []) = [7]"
proof -
  obtain h' out fx where r: "handle_session_command (sample_io 9 ''i9'') (SpawnSub ''s'' ''t'' ''u'' None 7) sample_host sample_state = (h', out, fx)"
    by (metis prod_cases3)
  have "ho_spec sample_host \<noteq> None"
    using session_reach_ok [OF sample_ok] sample_session_facts(4) by (simp add: session_ok_def)
  from every_request_is_answered_once [OF this r, of None] r show ?thesis by (simp add: asker_def)
qed

section \<open>Sandboxes\<close>

text \<open>An event that asks for no new runtime leaves every runtime with its owner.\<close>

definition no_request :: "session_event \<Rightarrow> bool" where
  "no_request ev \<longleftrightarrow> (case ev of RuntimeRequested _ _ _ _ \<Rightarrow> False | _ \<Rightarrow> True)"

definition owners :: "session_state \<Rightarrow> (runtime_id \<times> uuid) list" where
  "owners s = map (\<lambda>(r, rec). (r, rt_owner rec)) (ses_runtimes s)"

lemma owners_runtimes: "ses_runtimes s' = ses_runtimes s \<Longrightarrow> owners s' = owners s"
  by (simp add: owners_def)

lemma owners_on_runtime [simp]: "(\<And>rec. rt_owner (g rec) = rt_owner rec) \<Longrightarrow> owners (on_runtime r g s) = owners s"
  by (auto simp: owners_def on_runtime_def bt_update_def)

lemma owners_plain: "no_request ev \<Longrightarrow> owners (session_apply s ev) = owners s"
  by (cases ev) (simp_all add: no_request_def session_apply_def lifecycle_apply_def turns_apply_def runs_apply_def subs_apply_def
    sub_sessions_apply_def core_apply_def Let_def,
    auto intro!: owners_runtimes simp: on_forest_def owners_def on_runtime_def bt_update_def)

lemma owners_plains: "\<forall>ev \<in> set evs. no_request ev \<Longrightarrow> owners (session_folds s evs) = owners s"
  by (induction evs arbitrary: s) (simp_all add: owners_plain)

lemma no_request_simps [simp]:
  "no_request (ProvisioningStarted at r)" "no_request (ProvisioningProgress at r d)" "no_request (ProvisioningSucceeded at r)"
  "no_request (ProvisioningFailed at r err final)" "no_request (STurnBegan at a)" "no_request (SAskRecorded at a)" "no_request (STurnEnded at a)"
  "no_request (STurnFailed at a err)" "no_request (STurnStopped at a)" "no_request (STurnInterrupted at a)" "no_request (SessionFailed at err)"
  "no_request (RunCreated at a p graph)" "no_request (StepStarted at run n step a att fr via inp)"
  "no_request (StepConcluded at run n j)" "no_request (StepFailed at run n err)" "no_request (StepCancelled at run n)"
  "no_request (SRunFinished at run j)" "no_request (RunFailed at run err)" "no_request (RunNotified at run)"
  "no_request (SubAgentSpawned at a p title task ty)" "no_request (SubAgentRunning at a)"
  "no_request (SubAgentCompleted at a txt)" "no_request (SubAgentFailed at a err)" "no_request (SubAgentNotified at a)"
  "no_request (SubSessionCreated at a p n sd m title rt)"
  "no_request (SubSessionSeeded at a)" "no_request (SubSessionStatusChanged at a st)" "no_request (SubSessionTurnEnded at a outc)"
  "no_request (SUsageRecorded at sel tot ctx eff)" "no_request (SRenamed name)" "no_request (SpecRecorded at a spec)" "no_request (AgentDeleted at a)"
  by (simp_all add: no_request_def)

lemma calm_plain: "calm ev \<Longrightarrow> no_request ev"
  by (cases ev) (simp_all add: calm_def no_request_def)

definition no_requests :: "session_handled \<Rightarrow> bool" where
  "no_requests r \<longleftrightarrow> (case r of (h, out, fx) \<Rightarrow> \<forall>ev \<in> set (sfx_events fx). no_request ev)"

lemma no_requests_simps [simp]:
  "no_requests (h, out, sfx_none)" "no_requests (h, out, journal evs) \<longleftrightarrow> (\<forall>ev \<in> set evs. no_request ev)"
  "no_requests (h, out, stop_effect)" "no_requests (quiet h)" "no_requests (answer h c v)"
  "no_requests (h, out, (journal evs)\<lparr> sfx_ack := a \<rparr>) \<longleftrightarrow> (\<forall>ev \<in> set evs. no_request ev)"
  "no_requests (before out r) = no_requests r"
  by (auto simp: no_requests_def sfx_none_def journal_def stop_effect_def quiet_def answer_def before_def split: prod.split)

lemma perform_plain: "perform_action i act h s = (h', out, evs) \<Longrightarrow> ev \<in> set evs \<Longrightarrow> no_request ev"
  by (drule perform_action_events) auto

lemma perform_all_plain: "perform_all i acts h s = (h', s', out, evs) \<Longrightarrow> \<forall>ev \<in> set evs. no_request ev"
  by (induction i acts h s arbitrary: h' s' out evs rule: perform_all.induct)
    (auto split: prod.splits dest: perform_plain)

lemma rounds_plain: "flush_rounds i n h s = (h', s', out, evs) \<Longrightarrow> \<forall>ev \<in> set evs. no_request ev"
  by (induction i n h s arbitrary: h' s' out evs rule: flush_rounds.induct)
    (auto split: prod.splits if_splits dest!: perform_all_plain)

lemma flush_plain: "flush_then_drain i h s = (h', out, evs) \<Longrightarrow> \<forall>ev \<in> set evs. no_request ev"
  by (auto simp: flush_then_drain_def split: prod.splits dest!: rounds_plain)

lemma persist_plain [simp]: "no_requests (persist_and_advance i evs h s) \<longleftrightarrow> (\<forall>ev \<in> set evs. no_request ev)"
  by (auto simp: persist_and_advance_def split: prod.splits dest!: flush_plain)


lemma handled_plainly:
  assumes "\<And>owner env. cmd \<noteq> Provision owner env"
  shows "no_requests (handle_session i cmd h s)"
proof -
  have cancelled: "cancel_descendants i h s a = (out, evs) \<Longrightarrow> ev \<in> set evs \<Longrightarrow> no_request ev" for a out evs ev
    using cancel_descendants_calm calm_plain by blast
  have retried: "start_step i p h' s' = (h2, out, evs) \<Longrightarrow> ev \<in> set evs \<Longrightarrow> no_request ev" for p h' s' h2 out evs ev
    using perform_plain [of i "StartStep p" h' s' h2 out evs ev] by (simp add: perform_action_def)
  have "no_requests (narrate_provisioning i r detail h s)" "no_requests (finish_provisioning i r err final h s)"
    "no_requests (prepare_offload caller h s)" "no_requests (delete_session caller h s)" for r detail err final caller
    by (auto simp: narrate_provisioning_def finish_provisioning_def prepare_offload_def delete_session_def Let_def
      split: option.split provisioning_state.split prod.splits dest!: flush_plain)
  moreover have "no_requests (stop_turn i who caller h s)" for who caller
    by (auto simp: stop_turn_def dest: cancelled stop_boundary_calm [THEN calm_plain] split: option.split agent_key.split prod.splits)
  moreover have "no_requests (user_message i sel tx arts caller h s)" for sel tx arts caller
  proof -
    have "title_from_first_message i s tx = (out, evs) \<Longrightarrow> ev \<in> set evs \<Longrightarrow> no_request ev" for out evs ev
      by (auto simp: title_from_first_message_def split: if_splits option.splits prod.splits sum.splits)
    then show ?thesis by (auto simp: user_message_def split: option.split prod.split)
  qed
  moreover have "no_requests (answer_agent i sel answers caller h s)" "no_requests (read_agent_log i sel rd caller h s)" for sel answers rd caller
    by (auto simp: answer_agent_def read_agent_log_def split: option.split)
  moreover have "no_requests (create_run i parent graph caller h s)" "no_requests (finish_create_run i run caller failed h s)"
    "no_requests (run_status i whom run caller h s)" "no_requests (advance_runs i h s)" "no_requests (reconcile_steps i h s)"
    for parent graph caller run failed whom
    by (auto simp: create_run_def finish_create_run_def run_status_def advance_runs_def reconcile_steps_def
      split: option.split prod.split dest!: flush_plain)
  moreover have "no_requests (retry_step i index caller h s)" for index caller
    by (auto simp: retry_step_def retry_stop_def Let_def split: option.split prod.splits dest: cancelled retried)
  moreover have "no_requests (spawn_sub i spawner title task ty caller h s)" "no_requests (finish_spawn i a task ty caller failed h s)"
    "no_requests (reconcile_subs i h s)" "no_requests (create_sub_session i parent sd msg title req caller h s)"
    "no_requests (finish_create_sub_session i a req caller failed h s)"
    "no_requests (seeded_sub_session i a h s)" "no_requests (seed_failed_sub_session i a h s)" "no_requests (delete_agent i a caller h s)"
    "no_requests (set_title i title caller h s)" "no_requests (tell_resident h k ac)" for spawner title task ty caller a failed parent sd msg req k ac
    by (auto simp: spawn_sub_def finish_spawn_def reconcile_subs_def create_sub_session_def finish_create_sub_session_def
      seeded_sub_session_def seed_failed_sub_session_def delete_agent_def set_title_def tell_resident_def
      split: option.split prod.splits sum.split)
  moreover have reported: "no_requests (agent_reported i outc h s)" for outc
  proof -
    have "no_requests (main_outcome i e h s)" "no_requests (on_step_outcome i run n a e h s)" "no_requests (sub_outcome i a e h s)"
      "no_requests (sub_session_outcome i a e h s)" "no_requests (agent_started i a h s)" for e run n a
      by (auto simp: main_outcome_def on_step_outcome_def sub_outcome_def sub_session_outcome_def agent_started_def Let_def
        split: turn_end.split option.split agent_key.split)
    then show ?thesis
      by (auto simp: agent_reported_def Let_def split: sum.split prod.split not_an_end.split option.split agent_key.split)
  qed
  moreover have "no_requests (halt_agent i k reason h s)" for k reason using reported by (simp add: halt_agent_def)
  moreover have "no_requests (create_session i spec name msg h s)" for spec name msg
    by (auto simp: create_session_def Let_def split: option.split prod.split)
  moreover have "no_requests (case summarised i ids r h s of (h1, out) \<Rightarrow> (h1, out, sfx_none))"
    "no_requests (case reseed i as h s of (h1, out) \<Rightarrow> (h1, out, sfx_none))" for ids r as
    by (auto split: prod.split)
  ultimately show ?thesis
    unfolding handle_session_def by (cases cmd) (simp_all add: assms)
qed


lemma command_plainly:
  assumes "handle_session_command i cmd h s = (h', out, fx)" "\<And>owner env. cmd \<noteq> Provision owner env \<or> ho_spec h = None"
  shows "\<forall>ev \<in> set (sfx_events fx). no_request ev"
proof (cases "handle_session i cmd h s = (h', out, fx)")
  case True
  show ?thesis
  proof (cases "\<exists>owner env. cmd = Provision owner env")
    case True
    with assms have "refuse_until_told cmd h = (h', out, fx)" by (auto simp: handle_session_command_def)
    with True show ?thesis by (auto simp: refuse_until_told_def quiet_def sfx_none_def)
  next
    case False
    then show ?thesis using handled_plainly [of cmd i h s] True by (simp add: no_requests_def)
  qed
next
  case False
  then have "refuse_until_told cmd h = (h', out, fx)" using assms(1) by (auto simp: handle_session_command_def split: if_splits)
  then show ?thesis by (cases cmd; auto simp: refuse_until_told_def quiet_def answer_def sfx_none_def)
qed

text \<open>What a provision asks for, and of whom.\<close>

lemma provision_events:
  assumes "provision i owner env h s = (h', out, fx)"
  shows "(\<forall>ev \<in> set (sfx_events fx). no_request ev) \<or>
    (\<exists>e. sfx_events fx = [RuntimeRequested (sio_now i) (sio_id i) owner e, ProvisioningStarted (sio_now i) (sio_id i)] \<and>
       runtimes_owned_by s owner = [])"
  using assms
  by (auto simp: provision_def quiet_def sfx_none_def journal_def runtime_request_def Let_def
    split: if_splits option.splits list.splits provisioning_state.splits)

lemma owners_insert: "bt_get m r = None \<Longrightarrow> mset (map f (bt_insert r v m)) = add_mset (f (r, v)) (mset (map f m))"
  by (induction r v m rule: bt_insert.induct) (auto simp: bt_get_def split: if_splits)

lemma owners_distinct:
  assumes "session_reach g j h s"
  shows "distinct (map snd (owners s))"
  using assms
proof (induction rule: session_reach.induct)
  case born
  show ?case by (simp add: owners_def session_default_def)
next
  case (handled h s i cmd h' out fx)
  show ?case
  proof (cases "\<exists>owner env. cmd = Provision owner env \<and> ho_spec h \<noteq> None")
    case True
    then obtain owner env where c: "cmd = Provision owner env" "ho_spec h \<noteq> None" by blast
    then have p: "provision i owner env h s = (h', out, fx)"
      using handled by (auto simp: handle_session_command_def handle_session_def)
    show ?thesis
      using provision_events [OF p]
    proof (elim disjE exE conjE)
      assume "\<forall>ev \<in> set (sfx_events fx). no_request ev"
      then show ?thesis using handled by (simp add: owners_plains)
    next
      fix e assume ev: "sfx_events fx = [RuntimeRequested (sio_now i) (sio_id i) owner e, ProvisioningStarted (sio_now i) (sio_id i)]"
        and none: "runtimes_owned_by s owner = []"
      let ?s1 = "session_apply s (RuntimeRequested (sio_now i) (sio_id i) owner e)"
      have new: "bt_get (ses_runtimes s) (sio_id i) = None" using handled(3) by (simp add: fresh_id_def)
      have "mset (map snd (owners ?s1)) = add_mset owner (mset (map snd (owners s)))"
        using owners_insert [OF new, of "rt_owner \<circ> snd" "\<lparr> rt_env = e, rt_owner = owner, rt_provisioning = ProvNever \<rparr>"]
        by (simp add: owners_def session_apply_def lifecycle_apply_def on_forest_def o_def case_prod_unfold)
      moreover have "owner \<notin> set (map snd (owners s))"
        using none by (auto simp: runtimes_owned_by_def owners_def filter_empty_conv)
      ultimately have "distinct (map snd (owners ?s1))"
        using handled.IH by (metis distinct.simps(2) mset.simps(2) mset_eq_imp_distinct_iff)
      moreover have "owners (session_folds s (sfx_events fx)) = owners ?s1" by (simp add: ev owners_plain)
      ultimately show ?thesis by simp
    qed
  next
    case False
    then have "\<forall>ev \<in> set (sfx_events fx). no_request ev" using command_plainly [OF handled(4)] by blast
    then show ?thesis using handled by (simp add: owners_plains)
  qed
qed simp

text \<open>
  C19: Nobody is ever given two sandboxes: in every reachable session each owner has at most one runtime on record,
  and a provision asks for a new one, under an id of its own, only for an owner that has none; for one that has
  a sandbox it builds that one again, from the environment on record, and a ready one it leaves alone.\<close>

theorem one_sandbox_each:
  assumes "session_reach g j h s" "provision i owner env h s = (h', out, fx)"
  shows "distinct (map (\<lambda>(_, rec). rt_owner rec) (ses_runtimes s)) \<and>
    (\<forall>r at e. CreateRuntime r at e \<in> set out \<longrightarrow> ses_fatal s = None \<and>
       (case runtimes_owned_by s owner of
          [] \<Rightarrow> r = sio_id i \<and> (env = Some e \<or> env = None \<and> owner = ho_id h \<and> Option.bind (ho_spec h) sc_runtime = Some e)
        | (r', rec) # _ \<Rightarrow> r = r' \<and> e = rt_env rec \<and> (\<nexists>t. rt_provisioning rec = ProvReady t)))"
proof (rule conjI)
  show "distinct (map (\<lambda>(_, rec). rt_owner rec) (ses_runtimes s))"
    using owners_distinct [OF assms(1)] by (simp add: owners_def o_def case_prod_unfold)
  show "\<forall>r at e. CreateRuntime r at e \<in> set out \<longrightarrow> ses_fatal s = None \<and>
       (case runtimes_owned_by s owner of
          [] \<Rightarrow> r = sio_id i \<and> (env = Some e \<or> env = None \<and> owner = ho_id h \<and> Option.bind (ho_spec h) sc_runtime = Some e)
        | (r', rec) # _ \<Rightarrow> r = r' \<and> e = rt_env rec \<and> (\<nexists>t. rt_provisioning rec = ProvReady t))"
    using assms(2)
    by (auto simp: provision_def quiet_def runtime_request_def Let_def
      split: if_splits option.splits list.splits provisioning_state.splits)
qed

theorem one_sandbox_each_witness:
  "distinct (map (\<lambda>(_, rec). rt_owner rec) (ses_runtimes sample_state))"
  using one_sandbox_each [OF sample_session_reach, of "sample_io 9 ''i9''" "''s''" None] by (cases "provision (sample_io 9 ''i9'') ''s'' None sample_host sample_state") auto

end
