(* ===== verification/Session_Conduct.thy ===== *)
theory Session_Conduct
  imports Session_Recovery Session_Replies
begin

text \<open>
  What a session promises, in every state its actor can reach: the tree of agents and runs, what a deletion, a
  stop, a reload and an offload do to it, that a boundary's work runs out, that every request is answered
  once; and where the code does less than it says. A small session serves as the concrete instance.
\<close>

section \<open>The tree\<close>

lemma work_depth:
  assumes inv: "forest_inv g j f" and a: "owner_of_agent f a = Some (i, e)" "is_work (en_state e)" "en_parent e = Some p"
  shows "\<exists>d. depth_of_agent f a = Some d \<and> 0 < d \<and> d \<le> MAX_DEPTH"
proof -
  obtain d t where t: "(p, t) \<in> up f ^^ d" "parent_of f t = None" by (rule top_exists [OF forest_invD(1) [OF inv]])
  have e: "bt_get (rf_entries f) i = Some e" using a(1) by (simp add: owner_of_agent_iff)
  have "Suc d \<le> MAX_DEPTH" using forest_invD(3) [OF inv] e a(2,3) t(1) unfolding shallow_def by blast
  moreover have "(a, t) \<in> up f ^^ Suc d" using a t(1) by (simp add: relpow_up_Suc parent_of_owner del: relpow.simps)
  then have "depth_of_agent f a = Some (Suc d)" by (rule depth_of_agent_up [OF forest_invD(1) [OF inv] a(1) _ t(2)])
  ultimately show ?thesis by simp
qed

text \<open>
  C6: In every session its actor can bring about, whatever is asked of it, in whatever order, and however
  often it is lost and loaded again, agents and runs form one tree under the session: the chain of parents has
  no cycle, the session's own entry alone has no parent, a delegated child is never deeper than the limit, the
  index finds each agent in exactly the entry that hosts it, every run's log is a path through its graph with at
  most one step in flight, and a runtime an entry points at is on record as that entry's own.\<close>

theorem session_tree_is_sound:
  assumes "session_reach g j h s" "derived_ids g j"
  shows "acyclic (up (ses_forest s)) \<and>
    (\<forall>i e. forest_entry (ses_forest s) i = Some e \<longrightarrow> (en_parent e = None \<longleftrightarrow> i = j)) \<and>
    (\<forall>a i e p. owner_of_agent (ses_forest s) a = Some (i, e) \<longrightarrow> is_work (en_state e) \<longrightarrow> en_parent e = Some p \<longrightarrow>
       (\<exists>d. depth_of_agent (ses_forest s) a = Some d \<and> 0 < d \<and> d \<le> MAX_DEPTH)) \<and>
    (\<forall>a i e. owner_of_agent (ses_forest s) a = Some (i, e) \<longleftrightarrow>
       forest_entry (ses_forest s) i = Some e \<and> a \<in> set (hosted_by i (en_state e))) \<and>
    (\<forall>run w. workflow_of (ses_forest s) run = Some w \<longrightarrow>
       running_steps (wf_run w) \<le> 1 \<and> path_ok g run (wf_graph w) (wf_run w)) \<and>
    (\<forall>i e r. forest_entry (ses_forest s) i = Some e \<longrightarrow> runtime_ref (en_state e) = Some r \<longrightarrow>
       (\<exists>rec. bt_get (ses_runtimes s) r = Some rec \<and> rt_owner rec = i))"
proof (intro conjI)
  note inv = reach_inv [OF assms]
  show "acyclic (up (ses_forest s))" by (rule up_acyclic [OF inv(3)])
  show "\<forall>i e. forest_entry (ses_forest s) i = Some e \<longrightarrow> (en_parent e = None \<longleftrightarrow> i = j)"
    using rootedD(1) [OF forest_invD(4) [OF inv(2)]] by (simp add: forest_entry_def)
  show "\<forall>a i e p. owner_of_agent (ses_forest s) a = Some (i, e) \<longrightarrow> is_work (en_state e) \<longrightarrow> en_parent e = Some p \<longrightarrow>
      (\<exists>d. depth_of_agent (ses_forest s) a = Some d \<and> 0 < d \<and> d \<le> MAX_DEPTH)"
    using work_depth [OF inv(2)] by blast
  show "\<forall>a i e. owner_of_agent (ses_forest s) a = Some (i, e) \<longleftrightarrow>
      forest_entry (ses_forest s) i = Some e \<and> a \<in> set (hosted_by i (en_state e))"
    using index_okI [OF inv(6)] by (auto simp: owner_of_agent_iff forest_entry_def elim: index_okD [OF inv(6)])
  show "\<forall>run w. workflow_of (ses_forest s) run = Some w \<longrightarrow> running_steps (wf_run w) \<le> 1 \<and> path_ok g run (wf_graph w) (wf_run w)"
    using runs_okD [OF forest_invD(2) [OF inv(2)]] by (simp add: run_inv_def)
  show "\<forall>i e r. forest_entry (ses_forest s) i = Some e \<longrightarrow> runtime_ref (en_state e) = Some r \<longrightarrow>
      (\<exists>rec. bt_get (ses_runtimes s) r = Some rec \<and> rt_owner rec = i)"
    using session_invD(2) [OF inv(1)] by (simp add: forest_entry_def pointed_def)
qed

theorem session_tree_is_sound_witness:
  "acyclic (up (ses_forest sample_state)) \<and> depth_of_agent (ses_forest sample_state) ''b'' = Some 3 \<and> 3 \<le> MAX_DEPTH"
  using session_tree_is_sound [OF sample_ok] sample_session_facts(1) by (simp add: MAX_DEPTH_def)

text \<open>
  C28: The questions asked of the tree are answered as if by walking it all the way: who works under whom is the
  closure of the parent relation, the agents listed under one are exactly those, and where an agent runs is what
  the nearest entry above it that has decided says.\<close>

theorem lineage_follows_the_tree:
  assumes "session_reach g j h s" "derived_ids g j"
  shows "(descends_from (ses_forest s) d a \<longleftrightarrow> (d, a) \<in> (up (ses_forest s))\<^sup>*) \<and>
    (b \<in> set (descendant_agents (ses_forest s) a) \<longleftrightarrow> is_known_agent (ses_forest s) b \<and> (b, a) \<in> (up (ses_forest s))\<^sup>+) \<and>
    (owner_of_agent (ses_forest s) a = Some (i, e) \<longrightarrow>
       runtime_of_agent (ses_forest s) a = (case runtime_here (en_state e) of
         Some c \<Rightarrow> c | None \<Rightarrow> (case en_parent e of Some p \<Rightarrow> runtime_of_agent (ses_forest s) p | None \<Rightarrow> RcPending)))"
proof (intro conjI impI)
  note inv = reach_inv [OF assms]
  have d: "descends_from (ses_forest s) x y \<longleftrightarrow> (x, y) \<in> (up (ses_forest s))\<^sup>*" for x y by (rule descends_iff [OF inv(3)])
  then show "descends_from (ses_forest s) d a \<longleftrightarrow> (d, a) \<in> (up (ses_forest s))\<^sup>*" .
  have "(b, a) \<in> (up (ses_forest s))\<^sup>+ \<longleftrightarrow> b \<noteq> a \<and> (b, a) \<in> (up (ses_forest s))\<^sup>*"
    using up_acyclic [OF inv(3)] by (metis acyclic_def rtranclD trancl_into_rtrancl)
  moreover have "b \<in> set (map fst (rf_agents (ses_forest s))) \<longleftrightarrow> is_known_agent (ses_forest s) b"
    by (simp add: is_known_agent_def bt_get_def map_of_eq_None_iff)
  ultimately show "b \<in> set (descendant_agents (ses_forest s) a) \<longleftrightarrow> is_known_agent (ses_forest s) b \<and> (b, a) \<in> (up (ses_forest s))\<^sup>+"
    using d by (auto simp: descendant_agents_def)
  assume o: "owner_of_agent (ses_forest s) a = Some (i, e)"
  have "runtime_of_agent (ses_forest s) a = runtime_from (ses_forest s) e" using o by (simp add: runtime_of_agent_def)
  also have "\<dots> = (case runtime_here (en_state e) of
         Some c \<Rightarrow> c | None \<Rightarrow> (case en_parent e of Some p \<Rightarrow> runtime_of_agent (ses_forest s) p | None \<Rightarrow> RcPending))"
    by (subst runtime_from_eq [OF inv(3) o]) (auto simp: runtime_of_agent_def split: option.split)
  finally show "runtime_of_agent (ses_forest s) a = (case runtime_here (en_state e) of
         Some c \<Rightarrow> c | None \<Rightarrow> (case en_parent e of Some p \<Rightarrow> runtime_of_agent (ses_forest s) p | None \<Rightarrow> RcPending))" .
qed

theorem lineage_follows_the_tree_witness: "(''b'', ''a'') \<in> (up (ses_forest sample_state))\<^sup>*"
  using lineage_follows_the_tree [OF sample_ok, of "''b''" "''a''"] sample_session_facts(2) by simp



text \<open>
  C27: What a boundary starts runs out. The round a flush repeats has nothing left to do after three: more
  rounds change nothing, so the code's cap of eight never cuts work off, and what it leaves undone are reports
  for agents that cannot be reached.\<close>

theorem flush_runs_dry:
  assumes "session_reach g j h s" "derived_ids g j" "ses_spec s \<noteq> None" "sio_step_agent i = g" "3 \<le> n"
  shows "flush_rounds i n h s = flush_rounds i 3 h s \<and>
    (case flush_rounds i n h s of (h', s', out, evs) \<Rightarrow> s' = session_folds s evs \<and>
       (\<forall>a \<in> set (next_actions i h' s'). \<exists>d. a = DeliverResult d \<and>
          (reach i h' s' (dv_to d) = None \<or> \<not> sio_reaches i (key_id h' (dv_to d)))))"
proof -
  have ok: "boundary_ok (sio_step_agent i) (ho_id h) s"
    using session_ok_boundary [OF session_reach_ok [OF assms(1,2)] assms(3)] assms(4) by simp
  obtain h' s' out evs where f: "\<And>n. flush_rounds i (Suc (Suc (Suc n))) h s = (h', s', out, evs)" "dry i h' s'" "s' = session_folds s evs"
    using flush_three [OF ok] by blast
  obtain m where m: "n = Suc (Suc (Suc m))" using assms(5) by (metis Suc_le_D numeral_3_eq_3 Suc_le_mono)
  have "flush_rounds i 3 h s = (h', s', out, evs)" using f(1) [of 0] by (simp only: numeral_3_eq_3)
  then show ?thesis using f(1) [of m] f(2,3) m by (auto simp: dry_def takes_def reach_None)
qed

theorem flush_runs_dry_witness:
  "flush_rounds (sample_io 9 ''i9'') FLUSH_ROUNDS sample_host sample_state = flush_rounds (sample_io 9 ''i9'') 3 sample_host sample_state"
  using flush_runs_dry [OF sample_ok sample_session_facts(4), of "sample_io 9 ''i9''" FLUSH_ROUNDS] by (simp add: sample_io_def FLUSH_ROUNDS_def)

end
