(* ===== verification/Session_Lapses.thy ===== *)
theory Session_Lapses
  imports Session_Conduct
begin

text \<open>
  Where the session does less than it says: a stop that wakes what it stopped, a late report that revives a
  run, a sandbox that outlives the sub session it was built for, a load that looks after one sandbox only, and
  a sub session that is not told about its own. Each is stated over reachable sessions.
\<close>

section \<open>The concrete sessions\<close>

text \<open>The sample session, a workflow run halted in its first step, and a session with a sub session whose sandbox could not
  be built.\<close>

definition sample_sandbox :: runtime_env where
  "sample_sandbox = \<lparr> re_vendor = ''local'', re_workspaces = [], re_provision = [], re_env_vars = [], re_environment = None \<rparr>"

definition branch_commands :: "(u64 \<times> uuid \<times> session_command) list" where
  "branch_commands =
     [(1, ''i1'', CreateSession sample_session None None),
      (2, ''c'', CreateSubSession ''s'' SeedFresh ''message'' ''title'' (ReqOwn sample_sandbox) 0),
      (3, ''i2'', FinishCreateSubSession ''c'' (ReqOwn sample_sandbox) 0 None),
      (4, ''q'', Provision ''c'' (Some sample_sandbox)),
      (5, ''i3'', FinishProvisioning ''q'' (Some ''no room'') False)]"

definition halted_commands :: "(u64 \<times> uuid \<times> session_command) list" where
  "halted_commands =
     [(1, ''i1'', CreateSession (sample_session\<lparr> sc_kind := WorkflowSession sample_spec \<rparr>) None None),
      (2, ''i2'', AdvanceRuns),
      (3, ''i3'', HaltAgent (KeyStep ''s/0'') ''halted by a hook'')]"

definition played :: "(u64 \<times> uuid \<times> session_command) list \<Rightarrow> (host \<times> session_state \<Rightarrow> bool) \<Rightarrow> bool" where
  "played cs check = (case play cs (host_new ''s'') session_default of Some x \<Rightarrow> check x | None \<Rightarrow> False)"

lemma played_reach:
  assumes "played cs check"
  shows "\<exists>h s. session_reach sample_agent_of ''s'' h s \<and> check (h, s) \<and> play cs (host_new ''s'') session_default = Some (h, s)"
proof -
  obtain h s where "play cs (host_new ''s'') session_default = Some (h, s)" "check (h, s)"
    using assms by (auto simp: played_def split: option.splits)
  then show ?thesis using play_reach [OF session_reach.born] by blast
qed

definition sample_at_work :: "host \<times> session_state \<Rightarrow> bool" where
  "sample_at_work x = (case x of (h, s) \<Rightarrow> resident h ''r/0'' \<and> ready_on (session_runtime h s) \<and>
     step_of_agent (ses_forest s) ''r/0'' = Some (''r'', 0) \<and>
     Option.bind (workflow_of (ses_forest s) ''r'') (\<lambda>w. run_current (wf_run w)) = Some 0)"

definition sample_halted :: "host \<times> session_state \<Rightarrow> bool" where
  "sample_halted x = (case x of (h, s) \<Rightarrow> step_of_agent (ses_forest s) ''s/0'' = Some (''s'', 0) \<and>
     map_option (\<lambda>w. rn_status (wf_run w)) (workflow_of (ses_forest s) ''s'') = Some WrFailed)"

definition sample_branched :: "host \<times> session_state \<Rightarrow> bool" where
  "sample_branched x = (case x of (h, s) \<Rightarrow> deletable (ses_forest s) ''c'' \<and> ses_fatal s = None \<and>
     bt_get (ses_runtimes s) ''q'' = Some \<lparr> rt_env = sample_sandbox, rt_owner = ''c'', rt_provisioning = ProvFailed 4 ''no room'' \<rparr> \<and>
     sub_session_of (ses_forest s) ''c'' \<noteq> None \<and>
     route (ProvisioningFailed 5 ''q'' ''no room'' False) s = [(KeyMain, LRuntime RtFailed (Some ''no room''))])"

lemma working_played: "played sample_commands sample_at_work"
  by code_simp

lemma halted_played: "played halted_commands sample_halted"
  by code_simp

lemma branched_played: "played branch_commands sample_branched"
  by code_simp

lemmas samples_played = working_played halted_played branched_played

section \<open>A stop wakes what it stopped\<close>

text \<open>A touched entry keeps its kind, its parent and where it runs.\<close>

lemma touch_kind [simp]:
  "case_entry_state (\<lambda>_. a) (\<lambda>_. b) (\<lambda>_. c) (\<lambda>_. d) (touch ev st) = case_entry_state (\<lambda>_. a) (\<lambda>_. b) (\<lambda>_. c) (\<lambda>_. d) st"
  by (cases ev; cases st) (simp_all add: touch_def)

lemma touch_runtime [simp]: "runtime_here (touch ev st) = runtime_here st"
  by (cases ev; cases st) (simp_all add: touch_def runtime_here_def)

lemma touches_kind [simp]:
  "case_entry_state (\<lambda>_. a) (\<lambda>_. b) (\<lambda>_. c) (\<lambda>_. d) (fold touch evs st) = case_entry_state (\<lambda>_. a) (\<lambda>_. b) (\<lambda>_. c) (\<lambda>_. d) st"
  by (induction evs arbitrary: st) simp_all

lemma touches_runtime [simp]: "runtime_here (fold touch evs st) = runtime_here st"
  by (induction evs arbitrary: st) simp_all

lemma touches_key:
  assumes "\<forall>ev \<in> set evs. touched ev \<noteq> None"
  shows "agent_key_of (ses_forest (session_folds s evs)) a = agent_key_of (ses_forest s) a"
proof -
  have "rf_agents (ses_forest (session_folds s evs)) = rf_agents (ses_forest s)"
    using touches_frame [OF assms] by (simp add: same_frame_def)
  then show ?thesis
    by (auto simp: agent_key_of_def owner_of_agent_def touches_get [OF assms] option.map_comp comp_def split: option.split)
qed

lemma touches_ready:
  assumes "\<forall>ev \<in> set evs. touched ev \<noteq> None" "forest_inv g (ho_id h) (ses_forest s)"
  shows "ready_on (session_runtime h (session_folds s evs)) = ready_on (session_runtime h s)"
proof -
  let ?s = "session_folds s evs"
  have top: "runtime_from f e = (case runtime_here (en_state e) of Some c \<Rightarrow> c | None \<Rightarrow> RcPending)" if "en_parent e = None" for f e
    unfolding runtime_from_def using that by (subst runtime_walk.simps) (simp split: option.split nat.split)
  have "runtime_of_run (ses_forest ?s) (ho_id h) = runtime_of_run (ses_forest s) (ho_id h)"
  proof (cases "bt_get (rf_entries (ses_forest s)) (ho_id h)")
    case (Some e)
    have "en_parent e = None" using rootedD(1) [OF forest_invD(4) [OF assms(2)] Some] by simp
    then show ?thesis using Some by (simp add: runtime_of_run_def touches_get [OF assms(1)] top)
  qed (simp add: runtime_of_run_def touches_get [OF assms(1)])
  moreover have "ses_runtimes ?s = ses_runtimes s"
    using arg_cong [of _ _ ses_runtimes] touches_frame [OF assms(1)] by (fastforce simp: same_frame_def)
  then have "runtime_of_choice ?s c = runtime_of_choice s c" for c by (cases c) (simp_all add: runtime_of_choice_def)
  ultimately show ?thesis by (simp add: session_runtime_def)
qed

text \<open>Every action of a round is performed, on a host that has only gained residents.\<close>

lemma perform_action_resident: "perform_action i a h s = (h', out, evs) \<Longrightarrow> resident h b \<Longrightarrow> resident h' b"
  by (auto simp: perform_action_def deliver_def start_step_def spawn_step_agent_def bind_eq_Some_conv joined_def
    split: agent_action.splits option.splits if_splits dest!: reach_joined spawn_agent_joined)

lemma perform_all_mem:
  assumes "perform_all i acts h s = (h', s', out, evs)" "act \<in> set acts"
  shows "\<exists>h1 s1 h2 o1 evs1. perform_action i act h1 s1 = (h2, o1, evs1) \<and> set o1 \<subseteq> set out \<and> ho_id h1 = ho_id h \<and>
    (\<forall>b. resident h b \<longrightarrow> resident h1 b)"
  using assms
proof (induction acts arbitrary: h s h' s' out evs)
  case (Cons a acts)
  obtain h1 out1 evs1 where one: "perform_action i a h s = (h1, out1, evs1)" by (metis prod_cases3)
  obtain h2 s2 out2 evs2 where rest: "perform_all i acts h1 (session_folds s evs1) = (h2, s2, out2, evs2)" by (metis prod_cases4)
  have out: "out = out1 @ out2" using Cons.prems(1) one rest by simp
  show ?case
  proof (cases "act = a")
    case True
    then have "perform_action i act h s = (h1, out1, evs1) \<and> set out1 \<subseteq> set out" using one out by simp
    then show ?thesis by blast
  next
    case False
    then have "act \<in> set acts" using Cons.prems(2) by simp
    from Cons.IH [OF rest this] obtain g1 s1 g2 o1 evs1 where g: "perform_action i act g1 s1 = (g2, o1, evs1)" "set o1 \<subseteq> set out2"
      "ho_id g1 = ho_id h1" "\<forall>b. resident h1 b \<longrightarrow> resident g1 b" by blast
    have "set o1 \<subseteq> set out" "ho_id g1 = ho_id h" "\<forall>b. resident h b \<longrightarrow> resident g1 b"
      using g out perform_action_host [OF one] perform_action_resident [OF one] by auto
    with g(1) show ?thesis by blast
  qed
qed simp

lemma first_round_out:
  "perform_all i (next_actions i h s) h s = (h2, s2, o2, evs2) \<Longrightarrow> flush_rounds i (Suc n) h s = (h', s', out, evs) \<Longrightarrow> set o2 \<subseteq> set out"
  by (auto split: if_splits prod.splits)




section \<open>A late report revives a run\<close>

text \<open>
  C34: A run that was stopped does not stay stopped. A step's conclusion is taken whatever its run has come to: one
  that was on its way when the run was failed marks the run as running again, and the boundary goes on from it.\<close>

theorem late_report_revives_a_run:
  assumes "session_reach g j h s" "derived_ids g j" "workflow_of (ses_forest s) run = Some w" "rn_status (wf_run w) = WrFailed"
    "step_of_agent (ses_forest s) a = Some (run, n)" "agent_reported i (Concluded a res) h s = (h', out, fx)"
  shows "\<exists>later. sfx_events fx = StepConcluded (sio_now i) run n res # later \<and>
    map_option (\<lambda>w. rn_status (wf_run w)) (workflow_of (ses_forest (session_apply s (StepConcluded (sio_now i) run n res))) run)
      = Some WrRunning"
proof -
  obtain e where "owner_of_agent (ses_forest s) a = Some (run, e)" "\<exists>w'. en_state e = EWorkflow w'"
    using assms(5) by (auto simp: step_of_agent_def split: option.splits entry_state.splits)
  then have "agent_key_of (ses_forest s) a = Some (KeyStep a)" by (auto simp: agent_key_of_def)
  moreover obtain h2 o2 evs2 where "flush_then_drain i h (session_folds s [StepConcluded (sio_now i) run n res]) = (h2, o2, evs2)"
    by (metis prod_cases3)
  ultimately have "sfx_events fx = StepConcluded (sio_now i) run n res # evs2"
    using assms(5,6) by (auto simp: agent_reported_def split_outcome_def Let_def on_step_outcome_def before_def persist_and_advance_def journal_def sfx_none_def)
  moreover obtain e2 where "bt_get (rf_entries (ses_forest s)) run = Some e2" "en_state e2 = EWorkflow w"
    using assms(3) by (auto simp: workflow_of_iff)
  ultimately show ?thesis
    by (simp add: session_apply_def runs_apply_def on_forest_def apply_step_concluded_def workflow_mut_def workflow_of_def on_entry_get
      as_workflow_def run_concluded_def)
qed

theorem late_report_revives_a_run_witness:
  "\<exists>h s later. session_reach sample_agent_of ''s'' h s \<and>
     sfx_events (snd (snd (agent_reported (sample_io 9 ''i9'') (Concluded ''s/0'' JNull) h s))) = StepConcluded 9 ''s'' 0 JNull # later \<and>
     map_option (\<lambda>w. rn_status (wf_run w)) (workflow_of (ses_forest (session_apply s (StepConcluded 9 ''s'' 0 JNull))) ''s'') = Some WrRunning"
proof -
  obtain h s where s: "session_reach sample_agent_of ''s'' h s" "sample_halted (h, s)"
    using played_reach [of halted_commands sample_halted] samples_played by blast
  then obtain w where w: "workflow_of (ses_forest s) ''s'' = Some w" "rn_status (wf_run w) = WrFailed"
    "step_of_agent (ses_forest s) ''s/0'' = Some (''s'', 0)" by (auto simp: sample_halted_def)
  obtain h' out fx where r: "agent_reported (sample_io 9 ''i9'') (Concluded ''s/0'' JNull) h s = (h', out, fx)" by (metis prod_cases3)
  have j: "derived_ids sample_agent_of ''s''" by (rule sample_derived) simp
  have now: "sio_now (sample_io 9 ''i9'') = 9" by (simp add: sample_io_def)
  from late_report_revives_a_run [OF s(1) j w r] s(1) r show ?thesis
    unfolding now by (intro exI [of _ h] exI [of _ s]) auto
qed

section \<open>A sandbox that outlives its sub session\<close>



section \<open>A load looks after one sandbox\<close>

definition asks_for_sandbox :: "session_command \<Rightarrow> bool" where
  "asks_for_sandbox cmd \<longleftrightarrow> (case cmd of Provision _ _ \<Rightarrow> True | _ \<Rightarrow> False)"

text \<open>What a boundary sends goes to agents.\<close>

definition to_agent :: "session_out \<Rightarrow> bool" where
  "to_agent m \<longleftrightarrow> (case m of SpawnAgent _ _ _ _ \<Rightarrow> True | TellAgent _ _ \<Rightarrow> True | _ \<Rightarrow> False)"

lemma to_agent_simps [simp]: "to_agent (SpawnAgent p rdy b ps)" "to_agent (TellAgent a c)" "\<not> to_agent (SelfSend cmd)"
  by (simp_all add: to_agent_def)

lemma spawn_agent_out: "spawn_agent i h s p = Some (a, h', out) \<Longrightarrow> list_all to_agent out"
  by (auto simp: spawn_agent_def Let_def split: if_splits)

lemma spawned_out:
  "spawn_sub_agent_actor i h s a t = Some (b, h', out) \<Longrightarrow> list_all to_agent out"
  "spawn_step_agent i h s run a n = Some (b, h', out) \<Longrightarrow> list_all to_agent out"
  "spawn_sub_session_actor i h s a = Some (b, h', out) \<Longrightarrow> list_all to_agent out"
  "resolve_step i h s a = Some (b, h', out) \<Longrightarrow> list_all to_agent out"
  by (auto simp: spawn_sub_agent_actor_def spawn_step_agent_def spawn_sub_session_actor_def resolve_step_def
    bind_eq_Some_conv split: option.splits if_splits dest!: spawn_agent_out)

lemma reach_out: "reach i h s k = Some (a, h', out) \<Longrightarrow> list_all to_agent out"
  by (cases k) (auto simp: reach_def bind_eq_Some_conv split: if_splits dest!: spawned_out)

lemma perform_out: "perform_action i act h s = (h', out, evs) \<Longrightarrow> list_all to_agent out"
  by (cases act) (auto simp: perform_action_def deliver_def start_step_def split: option.splits if_splits
    dest!: reach_out spawned_out)

lemma perform_all_out: "perform_all i acts h s = (h', s', out, evs) \<Longrightarrow> list_all to_agent out"
  by (induction i acts h s arbitrary: h' s' out evs rule: perform_all.induct) (auto split: prod.splits dest!: perform_out)

lemma rounds_out: "flush_rounds i n h s = (h', s', out, evs) \<Longrightarrow> list_all to_agent out"
  by (induction i n h s arbitrary: h' s' out evs rule: flush_rounds.induct)
    (auto split: prod.splits if_splits dest!: perform_all_out)

lemma flush_out: "flush_then_drain i h s = (h', out, evs) \<Longrightarrow> SelfSend cmd \<notin> set out"
proof -
  assume "flush_then_drain i h s = (h', out, evs)"
  then obtain s' where "flush_rounds i FLUSH_ROUNDS h s = (h', s', out, evs)" by (auto simp: flush_then_drain_def split: prod.splits)
  then have "\<forall>m \<in> set out. to_agent m" using rounds_out by (auto simp: list_all_iff)
  then show "SelfSend cmd \<notin> set out" by force
qed

text \<open>
  A load looks after one unfinished sandbox only. It asks for one at most, however many are unfinished, and
  neither building that one nor learning what became of it asks for the next.\<close>

theorem a_load_builds_one_sandbox:
  "length (filter asks_for_sandbox (repairs s)) \<le> 1 \<and>
    (\<forall>cmd. SelfSend cmd \<notin> set (fst (snd (provision i owner env h s)))) \<and>
    (\<forall>cmd. SelfSend cmd \<notin> set (fst (snd (finish_provisioning i r err final h s))))"
proof (intro conjI allI)
  show "length (filter asks_for_sandbox (repairs s)) \<le> 1"
    by (auto simp: repairs_def List.map_filter_simps asks_for_sandbox_def lifecycle_on_load_def subs_on_load_def runs_on_load_def
      sub_sessions_on_load_def split: option.split)
  fix cmd
  show "SelfSend cmd \<notin> set (fst (snd (provision i owner env h s)))"
    by (auto simp: provision_def quiet_def Let_def split: option.splits prod.splits if_splits)
  show "SelfSend cmd \<notin> set (fst (snd (finish_provisioning i r err final h s)))"
    by (auto simp: finish_provisioning_def Let_def split: prod.splits dest!: flush_out)
qed

section \<open>A sub session is not told about its own sandbox\<close>

definition about_sandbox :: "runtime_id \<Rightarrow> session_event \<Rightarrow> bool" where
  "about_sandbox r ev \<longleftrightarrow> (case ev of
     ProvisioningStarted _ q \<Rightarrow> q = r | ProvisioningProgress _ q _ \<Rightarrow> q = r | ProvisioningSucceeded _ q \<Rightarrow> q = r
   | ProvisioningFailed _ q _ _ \<Rightarrow> q = r | _ \<Rightarrow> False)"

text \<open>
  A sub session with a sandbox of its own is never told about it. Whatever happens to that sandbox, that it is
  being built, is ready or could not be built, goes into the log of the session's main agent, or of the step its
  own run has in flight, and not into that of the sub session that waits for it.\<close>

theorem sandbox_news_misses_its_owner:
  assumes "session_reach g j h s" "derived_ids g j" "bt_get (ses_runtimes s) r = Some rec" "rt_owner rec = a"
    "sub_session_of (ses_forest s) a = Some sub" "a \<noteq> j" "about_sandbox r ev" "(k, payload) \<in> set (route ev s)"
  shows "key_id h k \<noteq> a \<and> (\<not> root_is_workflow (ses_forest s) \<longrightarrow> k = KeyMain)"
proof -
  note inv = reach_inv [OF assms(1,2)]
  have names: "names_fresh g (ses_forest s)" using session_reach_ok [OF assms(1,2)] by (simp add: session_ok_def)
  have wide: "session_wide s = Some k"
    using assms(7,8) by (auto simp: about_sandbox_def route_def on_session_def to_key_def split: session_event.splits option.splits)
  show ?thesis
  proof (cases "root_is_workflow (ses_forest s)")
    case False
    then show ?thesis using wide inv(4) assms(6) by (simp add: session_wide_def key_id_def)
  next
    case True
    then obtain run w st c where w: "root_workflow (ses_forest s) = Some (run, w)" "run_current (wf_run w) = Some c"
      "run_get (wf_run w) c = Some st" "k = KeyStep (se_agent st)"
      using wide by (auto simp: session_wide_def current_root_step_agent_def current_agent_def bind_eq_Some_conv)
    then have "workflow_of (ses_forest s) run = Some w"
      by (auto simp: root_workflow_def workflow_of_iff forest_entry_def split: option.splits entry_state.splits)
    from run_inv_agent [OF runs_okD [OF forest_invD(2) [OF inv(2)] this], of c] w(3)
    have "se_agent st = g run c" by (auto simp: run_get_def split: if_splits)
    then have "\<not> minted g (se_agent st)" by (auto simp: minted_def)
    moreover obtain e where "bt_get (rf_entries (ses_forest s)) a = Some e"
      using assms(5) by (auto simp: sub_session_of_def bind_eq_Some_conv)
    then have "minted g a" by (rule names_freshD(3) [OF names])
    ultimately show ?thesis using True w(4) by (auto simp: key_id_def)
  qed
qed


theorem sandbox_news_misses_its_owner_witness:
  "\<exists>h s. session_reach sample_agent_of ''s'' h s \<and> sub_session_of (ses_forest s) ''c'' \<noteq> None \<and>
     route (ProvisioningFailed 5 ''q'' ''no room'' False) s = [(KeyMain, LRuntime RtFailed (Some ''no room''))] \<and> key_id h KeyMain \<noteq> ''c''"
proof -
  obtain h s where s: "session_reach sample_agent_of ''s'' h s" "sample_branched (h, s)"
    using played_reach [of branch_commands sample_branched] samples_played by blast
  then obtain rec x where b: "bt_get (ses_runtimes s) ''q'' = Some rec" "rt_owner rec = ''c''" "sub_session_of (ses_forest s) ''c'' = Some x"
    and rt: "route (ProvisioningFailed 5 ''q'' ''no room'' False) s = [(KeyMain, LRuntime RtFailed (Some ''no room''))]"
    by (auto simp: sample_branched_def)
  have j: "derived_ids sample_agent_of ''s''" by (rule sample_derived) simp
  have "about_sandbox ''q'' (ProvisioningFailed 5 ''q'' ''no room'' False)" by (simp add: about_sandbox_def)
  from sandbox_news_misses_its_owner [OF s(1) j b(1,2,3) _ this, of KeyMain "LRuntime RtFailed (Some ''no room'')"] s(1) b(3) rt
  show ?thesis by (intro exI [of _ h] exI [of _ s]) auto
qed

end
