(* ===== verification/Session_Supervisor.thy ===== *)
theory Session_Supervisor
  imports Session_Actor
begin

text \<open>
  The session supervisor (\<^verbatim>\<open>crates/server/src/sessions/supervisor.rs\<close>): the registry of a project's sessions, which of
  them are loaded, when an idle one is unloaded, and what each command to a session is routed to; with the
  revision counters readers wait on (\<^verbatim>\<open>crates/server/src/sessions/mod.rs\<close>). Clocks, fresh ids, whether a send
  arrives and what a session answers when asked to unload come in \<open>sv_io\<close>.
\<close>

section \<open>Revision counters\<close>

text \<open>
  A session's counters, by wire agent id, and when a reader last asked about them; the project's list counter.
  Instants are milliseconds of a monotonic clock.
\<close>

record rev_registry =
  rg_agents :: "u64 btree"
  rg_polled :: "nat option"

record session_revisions =
  rv_sessions :: "rev_registry btree"
  rv_list :: u64

definition WATCH_RETENTION :: nat where "WATCH_RETENTION = 120000"

definition revisions_new :: rev_registry where
  "revisions_new = \<lparr> rg_agents = [], rg_polled = None \<rparr>"

definition revisions_of :: "session_revisions \<Rightarrow> string \<Rightarrow> rev_registry" where
  "revisions_of rv i = (case bt_get (rv_sessions rv) i of Some reg \<Rightarrow> reg | None \<Rightarrow> revisions_new)"

definition rev_put :: "string \<Rightarrow> rev_registry \<Rightarrow> session_revisions \<Rightarrow> session_revisions" where
  "rev_put i reg rv = rv\<lparr> rv_sessions := bt_insert i reg (rv_sessions rv) \<rparr>"

definition agent_revision :: "rev_registry \<Rightarrow> string \<Rightarrow> u64" where
  "agent_revision reg agent = (case bt_get (rg_agents reg) agent of Some n \<Rightarrow> n | None \<Rightarrow> 0)"

definition rev_touch :: "nat \<Rightarrow> rev_registry \<Rightarrow> rev_registry" where
  "rev_touch now reg = reg\<lparr> rg_polled := Some now \<rparr>"

definition watched :: "nat \<Rightarrow> rev_registry \<Rightarrow> bool" where
  "watched now reg = (case rg_polled reg of Some at \<Rightarrow> now - at < WATCH_RETENTION | None \<Rightarrow> False)"

text \<open>A frame of a session's feed sets a counter to the value it carries.\<close>

definition mirror_frame :: "string \<Rightarrow> u64 \<Rightarrow> rev_registry \<Rightarrow> rev_registry" where
  "mirror_frame agent n reg = reg\<lparr> rg_agents := bt_insert agent n (rg_agents reg) \<rparr>"

definition bump_list :: "session_revisions \<Rightarrow> session_revisions" where
  "bump_list rv = rv\<lparr> rv_list := rv_list rv + 1 \<rparr>"

definition release :: "nat \<Rightarrow> string \<Rightarrow> session_revisions \<Rightarrow> session_revisions" where
  "release now i rv =
     (if (case bt_get (rv_sessions rv) i of None \<Rightarrow> True | Some reg \<Rightarrow> \<not> watched now reg)
      then rv\<lparr> rv_sessions := bt_remove i (rv_sessions rv) \<rparr> else rv)"

text \<open>A poll is answered at once when the counter differs from the one the reader saw, and waits otherwise.\<close>

datatype poll = PollNow u64 | PollWait u64

definition poll_revision :: "u64 option \<Rightarrow> u64 \<Rightarrow> poll" where
  "poll_revision seen current = (if seen \<noteq> Some current then PollNow current else PollWait current)"

definition poll_agent :: "session_revisions \<Rightarrow> string \<Rightarrow> string \<Rightarrow> u64 option \<Rightarrow> poll" where
  "poll_agent rv i agent seen = poll_revision seen (agent_revision (revisions_of rv i) agent)"

text \<open>What a waiting poll is answered with: the value it moved to, or the old one when the window passed.\<close>

definition poll_result :: "u64 \<Rightarrow> u64 option \<Rightarrow> u64" where
  "poll_result current moved = (case moved of Some n \<Rightarrow> n | None \<Rightarrow> current)"

section \<open>The registry\<close>

record sub_session_row =
  sw_id :: uuid
  sw_parent :: "uuid option"
  sw_title :: string
  sw_status :: agent_status
  sw_created_at_ms :: u64
  sw_last_activity_ms :: u64

record session_record =
  sk_spec :: session_spec
  sk_name :: "string option"
  sk_created_at :: u64
  sk_annotations :: "string btree"
  sk_status :: session_status
  sk_sub_sessions :: "sub_session_row list"

type_synonym registry = "session_record btree"

datatype supervisor_event =
    SvCreated string session_spec "string option" u64
  | SvDeleted string
  | SvNamed string string
  | SvStatusChanged string session_status
  | SvSubSessionsChanged string "sub_session_row list"
  | SvAnnotationsSet string "string btree" "string list"

definition annotate :: "string btree \<Rightarrow> string list \<Rightarrow> string btree \<Rightarrow> string btree" where
  "annotate set_keys removed m = fold (\<lambda>(k, v). bt_insert k v) set_keys (fold bt_remove removed m)"

definition supervisor_apply :: "registry \<Rightarrow> supervisor_event \<Rightarrow> registry" where
  "supervisor_apply reg ev = (case ev of
     SvCreated i spec name created \<Rightarrow> bt_insert i \<lparr> sk_spec = spec, sk_name = name, sk_created_at = created,
       sk_annotations = [], sk_status = StatProvisioning, sk_sub_sessions = [] \<rparr> reg
   | SvDeleted i \<Rightarrow> bt_remove i reg
   | SvNamed i name \<Rightarrow> bt_update i (\<lambda>rec. rec\<lparr> sk_name := Some name \<rparr>) reg
   | SvStatusChanged i st \<Rightarrow> bt_update i (\<lambda>rec. rec\<lparr> sk_status := st \<rparr>) reg
   | SvSubSessionsChanged i rows \<Rightarrow> bt_update i (\<lambda>rec. rec\<lparr> sk_sub_sessions := rows \<rparr>) reg
   | SvAnnotationsSet i new_set removed \<Rightarrow> bt_update i (\<lambda>rec. rec\<lparr> sk_annotations := annotate new_set removed (sk_annotations rec) \<rparr>) reg)"

section \<open>Commands and what they send\<close>

datatype supervisor_command =
    VCreate session_spec "string option" u64 "(string \<times> artifact_ref list) option" nat
  | VList nat
  | VGet string nat
  | VUserMessage string "string option" string "artifact_ref list" nat
  | VStop string string nat
  | VDeleteAgent string uuid nat
  | VDelete string nat
  | VReadLog string "string option" "cursor option" nat
  | VPageLog string "string option" anchor nat log_filter nat
  | VSearchLog string "string option" string nat log_filter nat
  | VSeqOfId string "string option" string nat
  | VUsageStats string nat
  | VRuntimeCheckouts string runtime_id nat
  | VRunState string nat
  | VRetryStep string nat nat
  | VAnswer string "string option" "ask_answer list" nat
  | VAwaitListRevision "u64 option" nat
  | VAwaitAgentRevision string "string option" "u64 option" nat
  | VAgentDetail string "string option" nat
  | VTick
  | VShutdown nat
  | VSessionStatusChanged string session_status
  | VRenameSession string string nat
  | VSubSessionsChanged string "sub_session_row list"
  | VPublishSessionTitle string string
  | VSetSessionTitle string string nat
  | VSetSessionAnnotations string "string btree" "string list" nat

text \<open>What a session is sent. Two of its reads have no counterpart among the commands modelled of it.\<close>

datatype session_request =
    RqCommand session_command
  | RqUsageStats nat
  | RqAgentDetail "string option" nat

datatype create_error = CeNotRecorded string | CeMessage user_message_error

datatype rename_error = RnNotFound string | RnInvalid string

datatype supervisor_answer =
    SaCreated "create_error + (string \<times> string option)"
  | SaSessions "(string \<times> session_record) list"
  | SaSession "(session_record \<times> session_snapshot option) option"
  | SaMessage user_message_error
  | SaUnit "string + unit"
  | SaNothingPending
  | SaNone
  | SaRevision u64
  | SaNoRevision
  | SaRenamed "rename_error + string"
  | SaRecorded "string option"

text \<open>
  What a handler sends: a command to a session, an answer, an answer relayed from the session, where the session
  going away without one gives the fallback, and a poll that goes on off the mailbox.
\<close>

datatype supervisor_out =
    SendSession uuid session_request
  | AskOffload uuid
  | AnswerAt nat supervisor_answer
  | RelayAnswer nat supervisor_answer
  | WaitList nat u64
  | PollAgent nat string string "u64 option"

record sv_io =
  vo_now :: nat
  vo_instant :: nat
  vo_fresh :: string
  vo_parse :: "string \<Rightarrow> uuid option"
  vo_tells :: "uuid \<Rightarrow> string option"
  vo_offloads :: "uuid \<Rightarrow> bool option"

record supervisor =
  sv_last_activity :: "nat btree"
  sv_revisions :: session_revisions

record supervisor_effect =
  vfx_events :: "supervisor_event list"
  vfx_ack :: "(string option \<Rightarrow> supervisor_out list) option"

type_synonym supervised = "supervisor \<times> supervisor_out list \<times> supervisor_effect"

definition vfx_none :: supervisor_effect where
  "vfx_none = \<lparr> vfx_events = [], vfx_ack = None \<rparr>"

definition record_events :: "supervisor_event list \<Rightarrow> supervisor_effect" where
  "record_events evs = vfx_none\<lparr> vfx_events := evs \<rparr>"

definition supervisor_new :: supervisor where
  "supervisor_new = \<lparr> sv_last_activity = [], sv_revisions = \<lparr> rv_sessions = [], rv_list = 0 \<rparr> \<rparr>"

section \<open>Reaching a session\<close>

definition sv_reach :: "sv_io \<Rightarrow> string \<Rightarrow> supervisor \<Rightarrow> supervisor \<times> uuid option" where
  "sv_reach i sid v = (case vo_parse i sid of
     None \<Rightarrow> (v, None)
   | Some session \<Rightarrow> (v\<lparr> sv_last_activity := bt_insert sid (vo_now i) (sv_last_activity v) \<rparr>, Some session))"

definition sv_session :: "sv_io \<Rightarrow> string \<Rightarrow> registry \<Rightarrow> supervisor \<Rightarrow> supervisor \<times> uuid option" where
  "sv_session i sid reg v = (if bt_get reg sid \<noteq> None then sv_reach i sid v else (v, None))"

definition sv_resident :: "sv_io \<Rightarrow> string \<Rightarrow> supervisor \<Rightarrow> uuid option" where
  "sv_resident i sid v = (if bt_get (sv_last_activity v) sid \<noteq> None then vo_parse i sid else None)"

definition list_changed :: "supervisor \<Rightarrow> supervisor" where
  "list_changed v = v\<lparr> sv_revisions := bump_list (sv_revisions v) \<rparr>"

definition sv_forget :: "sv_io \<Rightarrow> string \<Rightarrow> supervisor \<Rightarrow> supervisor" where
  "sv_forget i sid v = v\<lparr> sv_last_activity := bt_remove sid (sv_last_activity v),
     sv_revisions := release (vo_instant i) sid (sv_revisions v) \<rparr>"

section \<open>Unloading the idle\<close>

definition idle_candidates :: "sv_io \<Rightarrow> nat \<Rightarrow> registry \<Rightarrow> supervisor \<Rightarrow> string list" where
  "idle_candidates i timeout reg v = map fst (filter (\<lambda>(sid, last).
     (case map_option sk_status (bt_get reg sid) of
        Some StatRunning \<Rightarrow> False | Some StatProvisioning \<Rightarrow> False | _ \<Rightarrow> vo_now i - last \<ge> timeout)) (sv_last_activity v))"

fun offload_each :: "sv_io \<Rightarrow> string list \<Rightarrow> supervisor \<Rightarrow> supervisor \<times> supervisor_out list" where
  "offload_each i [] v = (v, [])"
| "offload_each i (sid # sids) v = (case sv_resident i sid v of
     None \<Rightarrow> offload_each i sids v
   | Some session \<Rightarrow>
       (let v1 = (case vo_offloads i session of
              Some True \<Rightarrow> sv_forget i sid v
            | Some False \<Rightarrow> v\<lparr> sv_last_activity := bt_insert sid (vo_now i) (sv_last_activity v) \<rparr>
            | None \<Rightarrow> sv_forget i sid v)
        in case offload_each i sids v1 of (v2, out) \<Rightarrow> (v2, AskOffload session # out)))"

definition offload_idle :: "sv_io \<Rightarrow> nat \<Rightarrow> registry \<Rightarrow> supervisor \<Rightarrow> supervisor \<times> supervisor_out list" where
  "offload_idle i timeout reg v = offload_each i (idle_candidates i timeout reg v) v"

fun shutdown_each :: "sv_io \<Rightarrow> string list \<Rightarrow> supervisor \<Rightarrow> supervisor \<times> supervisor_out list" where
  "shutdown_each i [] v = (v, [])"
| "shutdown_each i (sid # sids) v =
     (let out = (case sv_resident i sid v of Some session \<Rightarrow> [AskOffload session] | None \<Rightarrow> [])
      in case shutdown_each i sids (sv_forget i sid v) of (v2, out2) \<Rightarrow> (v2, out @ out2))"

section \<open>The handlers\<close>

definition sv_quiet :: "supervisor \<Rightarrow> supervised" where
  "sv_quiet v = (v, [], vfx_none)"

definition sv_answer :: "supervisor \<Rightarrow> nat \<Rightarrow> supervisor_answer \<Rightarrow> supervised" where
  "sv_answer v caller a = (v, [AnswerAt caller a], vfx_none)"

text \<open>The session is sent the command and answers it itself; one the registry does not know is answered for.\<close>

definition routed_call :: "sv_io \<Rightarrow> string \<Rightarrow> session_request \<Rightarrow> nat \<Rightarrow> supervisor_answer \<Rightarrow> registry \<Rightarrow> supervisor \<Rightarrow> supervised" where
  "routed_call i sid rq caller unknown reg v = (case sv_session i sid reg v of
     (v1, None) \<Rightarrow> sv_answer v1 caller unknown
   | (v1, Some session) \<Rightarrow> (v1, [SendSession session rq], vfx_none))"

text \<open>The same, where the supervisor stands between: a session that goes away gives the fallback.\<close>

definition relayed :: "sv_io \<Rightarrow> string \<Rightarrow> session_request \<Rightarrow> nat \<Rightarrow> supervisor_answer \<Rightarrow> registry \<Rightarrow> supervisor \<Rightarrow> supervised" where
  "relayed i sid rq caller fallback reg v = (case sv_session i sid reg v of
     (v1, None) \<Rightarrow> sv_answer v1 caller fallback
   | (v1, Some session) \<Rightarrow> (v1, [SendSession session rq, RelayAnswer caller fallback], vfx_none))"

text \<open>
  Creating: the one send that tells the session what it is comes first, and nothing is recorded when it does not
  arrive. The caller is answered after the record is written, and after the session has answered the first message.
\<close>

definition created_answer :: "string \<Rightarrow> nat \<Rightarrow> bool \<Rightarrow> string option \<Rightarrow> supervisor_out list" where
  "created_answer sid caller with_message failed = (case failed of
     Some e \<Rightarrow> [AnswerAt caller (SaCreated (Inl (CeNotRecorded e)))]
   | None \<Rightarrow> if with_message then [RelayAnswer caller (SaCreated (Inl (CeMessage UeNotFound)))]
       else [AnswerAt caller (SaCreated (Inr (sid, None)))])"

definition create_supervised ::
    "sv_io \<Rightarrow> session_spec \<Rightarrow> string option \<Rightarrow> u64 \<Rightarrow> (string \<times> artifact_ref list) option \<Rightarrow> nat \<Rightarrow> supervisor \<Rightarrow> supervised" where
  "create_supervised i spec name created msg caller v =
     (let sid = vo_fresh i;
          first = map_option (\<lambda>(text, arts). \<lparr> fm_text = text, fm_artifacts = arts, fm_caller = caller \<rparr>) msg
      in case sv_reach i sid v of
           (v1, None) \<Rightarrow> sv_answer v1 caller (SaCreated (Inl (CeNotRecorded ''this session could not be addressed'')))
         | (v1, Some session) \<Rightarrow>
             (case vo_tells i session of
                Some e \<Rightarrow> (v1, [SendSession session (RqCommand (CreateSession spec name first)),
                   AnswerAt caller (SaCreated (Inl (CeNotRecorded (''the session could not be reached: '' @ e))))], vfx_none)
              | None \<Rightarrow> (list_changed v1, [SendSession session (RqCommand (CreateSession spec name first))],
                   (record_events [SvCreated sid spec name created])\<lparr> vfx_ack := Some (created_answer sid caller (msg \<noteq> None)) \<rparr>)))"

definition get_supervised :: "sv_io \<Rightarrow> string \<Rightarrow> nat \<Rightarrow> registry \<Rightarrow> supervisor \<Rightarrow> supervised" where
  "get_supervised i sid caller reg v = (case bt_get reg sid of
     None \<Rightarrow> sv_answer v caller (SaSession None)
   | Some rec \<Rightarrow> relayed i sid (RqCommand (ReadSnapshot caller)) caller (SaSession (Some (rec, None))) reg v)"

definition stop_supervised :: "sv_io \<Rightarrow> string \<Rightarrow> string \<Rightarrow> nat \<Rightarrow> registry \<Rightarrow> supervisor \<Rightarrow> supervised" where
  "stop_supervised i sid agent caller reg v = (case sv_session i sid reg v of
     (v1, None) \<Rightarrow> sv_answer v1 caller (SaUnit (Inl (''no such session: '' @ sid)))
   | (v1, Some session) \<Rightarrow>
       (v1, [SendSession session (RqCommand (StopTurn agent caller)),
          (if vo_tells i session = None then RelayAnswer caller (SaUnit (Inl ''session unavailable''))
           else AnswerAt caller (SaUnit (Inl ''session unavailable'')))], vfx_none))"

definition delete_supervised :: "sv_io \<Rightarrow> string \<Rightarrow> nat \<Rightarrow> registry \<Rightarrow> supervisor \<Rightarrow> supervised" where
  "delete_supervised i sid caller reg v =
     (if bt_get reg sid = None then sv_answer v caller (SaUnit (Inl (''no such session: '' @ sid)))
      else (case sv_session i sid reg v of (v1, session) \<Rightarrow>
        (sv_forget i sid v1,
         (case session of Some s \<Rightarrow> [SendSession s (RqCommand (DeleteSession caller))] | None \<Rightarrow> [])
           @ [AnswerAt caller (SaUnit (Inr ()))],
         record_events [SvDeleted sid])))"

definition await_list :: "u64 option \<Rightarrow> nat \<Rightarrow> supervisor \<Rightarrow> supervised" where
  "await_list seen caller v = (case poll_revision seen (rv_list (sv_revisions v)) of
     PollNow n \<Rightarrow> sv_answer v caller (SaRevision n)
   | PollWait n \<Rightarrow> (v, [WaitList caller n], vfx_none))"

definition await_agent :: "sv_io \<Rightarrow> string \<Rightarrow> string option \<Rightarrow> u64 option \<Rightarrow> nat \<Rightarrow> registry \<Rightarrow> supervisor \<Rightarrow> supervised" where
  "await_agent i sid agent seen caller reg v =
     (if bt_get reg sid = None then sv_answer v caller SaNoRevision
      else (v\<lparr> sv_revisions := rev_put sid (rev_touch (vo_instant i) (revisions_of (sv_revisions v) sid)) (sv_revisions v) \<rparr>,
            [PollAgent caller sid (case agent of Some a \<Rightarrow> a | None \<Rightarrow> MAIN_AGENT_ID) seen], vfx_none))"

definition status_supervised :: "string \<Rightarrow> session_status \<Rightarrow> registry \<Rightarrow> supervisor \<Rightarrow> supervised" where
  "status_supervised sid st reg v =
     (list_changed v, [], (case bt_get reg sid of
        Some rec \<Rightarrow> if sk_status rec \<noteq> st then record_events [SvStatusChanged sid st] else vfx_none
      | None \<Rightarrow> vfx_none))"

definition sub_sessions_supervised :: "string \<Rightarrow> sub_session_row list \<Rightarrow> registry \<Rightarrow> supervisor \<Rightarrow> supervised" where
  "sub_sessions_supervised sid rows reg v = (case bt_get reg sid of
     Some rec \<Rightarrow> if sk_sub_sessions rec \<noteq> rows then (list_changed v, [], record_events [SvSubSessionsChanged sid rows]) else sv_quiet v
   | None \<Rightarrow> sv_quiet v)"

definition title_supervised :: "sv_io \<Rightarrow> string \<Rightarrow> string \<Rightarrow> nat \<Rightarrow> registry \<Rightarrow> supervisor \<Rightarrow> supervised" where
  "title_supervised i sid name caller reg v = (case normalize_session_title name of
     Inl e \<Rightarrow> sv_answer v caller (SaRenamed (Inl (RnInvalid e)))
   | Inr title \<Rightarrow>
       if bt_get reg sid = None then sv_answer v caller (SaRenamed (Inl (RnNotFound sid)))
       else (list_changed v,
         (case sv_resident i sid v of Some s \<Rightarrow> [SendSession s (RqCommand (TitleSet title))] | None \<Rightarrow> [])
           @ [AnswerAt caller (SaRenamed (Inr title))],
         record_events [SvNamed sid title]))"

definition publish_title :: "string \<Rightarrow> string \<Rightarrow> registry \<Rightarrow> supervisor \<Rightarrow> supervised" where
  "publish_title sid name reg v =
     sv_quiet (if Option.bind (bt_get reg sid) sk_name = Some name then list_changed v else v)"

definition annotations_supervised ::
    "string \<Rightarrow> string btree \<Rightarrow> string list \<Rightarrow> nat \<Rightarrow> registry \<Rightarrow> supervisor \<Rightarrow> supervised" where
  "annotations_supervised sid new_set removed caller reg v =
     (if bt_get reg sid = None then sv_answer v caller (SaUnit (Inl (''no such session: '' @ sid)))
      else (v, [AnswerAt caller (SaUnit (Inr ()))], record_events [SvAnnotationsSet sid new_set removed]))"

definition handle_supervisor :: "sv_io \<Rightarrow> nat \<Rightarrow> supervisor_command \<Rightarrow> registry \<Rightarrow> supervisor \<Rightarrow> supervised" where
  "handle_supervisor i timeout cmd reg v = (case cmd of
     VCreate spec name created msg caller \<Rightarrow> create_supervised i spec name created msg caller v
   | VList caller \<Rightarrow> sv_answer v caller (SaSessions reg)
   | VGet sid caller \<Rightarrow> get_supervised i sid caller reg v
   | VUserMessage sid sel text arts caller \<Rightarrow>
       routed_call i sid (RqCommand (UserMessage sel text arts caller)) caller (SaMessage UeNotFound) reg v
   | VStop sid agent caller \<Rightarrow> stop_supervised i sid agent caller reg v
   | VDeleteAgent sid a caller \<Rightarrow>
       routed_call i sid (RqCommand (DeleteAgent a caller)) caller (SaUnit (Inl (''no such session: '' @ sid))) reg v
   | VDelete sid caller \<Rightarrow> delete_supervised i sid caller reg v
   | VReadLog sid sel after caller \<Rightarrow> relayed i sid (RqCommand (ReadAgentLog sel (ReadLog after) caller)) caller SaNone reg v
   | VPageLog sid sel anch most flt caller \<Rightarrow>
       relayed i sid (RqCommand (ReadAgentLog sel (PageLog anch most flt) caller)) caller SaNone reg v
   | VSearchLog sid sel needle most flt caller \<Rightarrow>
       relayed i sid (RqCommand (ReadAgentLog sel (SearchLog needle most flt) caller)) caller SaNone reg v
   | VSeqOfId sid sel entry caller \<Rightarrow> relayed i sid (RqCommand (ReadAgentLog sel (SeqOfId entry) caller)) caller SaNone reg v
   | VUsageStats sid caller \<Rightarrow> relayed i sid (RqUsageStats caller) caller SaNone reg v
   | VRuntimeCheckouts sid r caller \<Rightarrow> relayed i sid (RqCommand (RuntimeCheckouts r caller)) caller SaNone reg v
   | VRunState sid caller \<Rightarrow> relayed i sid (RqCommand (ReadRunState caller)) caller SaNone reg v
   | VRetryStep sid index caller \<Rightarrow> relayed i sid (RqCommand (RetryStep index caller)) caller SaNone reg v
   | VAnswer sid sel answers caller \<Rightarrow> routed_call i sid (RqCommand (AnswerAgent sel answers caller)) caller SaNothingPending reg v
   | VAwaitListRevision seen caller \<Rightarrow> await_list seen caller v
   | VAwaitAgentRevision sid agent seen caller \<Rightarrow> await_agent i sid agent seen caller reg v
   | VAgentDetail sid sel caller \<Rightarrow> relayed i sid (RqAgentDetail sel caller) caller SaNone reg v
   | VTick \<Rightarrow> (case offload_idle i timeout reg v of (v1, out) \<Rightarrow> (v1, out, vfx_none))
   | VShutdown caller \<Rightarrow> (case shutdown_each i (map fst (sv_last_activity v)) v of
       (v1, out) \<Rightarrow> (v1, out @ [AnswerAt caller (SaUnit (Inr ()))], vfx_none))
   | VSessionStatusChanged sid st \<Rightarrow> status_supervised sid st reg v
   | VRenameSession sid name caller \<Rightarrow>
       (v, [], (record_events [SvNamed sid name])\<lparr> vfx_ack := Some (\<lambda>failed. [AnswerAt caller (SaRecorded failed)]) \<rparr>)
   | VSubSessionsChanged sid rows \<Rightarrow> sub_sessions_supervised sid rows reg v
   | VPublishSessionTitle sid name \<Rightarrow> publish_title sid name reg v
   | VSetSessionTitle sid name caller \<Rightarrow> title_supervised i sid name caller reg v
   | VSetSessionAnnotations sid new_set removed caller \<Rightarrow> annotations_supervised sid new_set removed caller reg v)"

text \<open>One command handled, its events written and folded.\<close>

definition supervise :: "sv_io \<Rightarrow> nat \<Rightarrow> supervisor_command \<Rightarrow> supervisor \<times> registry \<Rightarrow> supervisor \<times> registry" where
  "supervise i timeout cmd x = (case x of (v, reg) \<Rightarrow> (case handle_supervisor i timeout cmd reg v of
     (v1, out, fx) \<Rightarrow> (v1, foldl supervisor_apply reg (vfx_events fx))))"


end
