(* ===== verification/Session_Registry.thy ===== *)
theory Session_Registry
  imports Session_Supervisor
begin

text \<open>
  What the supervisor promises: its registry is a projection of what the sessions report, only a session that
  is idle and agrees is unloaded, nothing but a command meant for a session loads it, a session is recorded only
  once it has been told what it is, and a reader that keeps asking is not cut off by an unload.
\<close>

section \<open>A sample registry\<close>

definition sample_record :: session_record where
  "sample_record = \<lparr> sk_spec = \<lparr> sc_kind = AgentSession \<lparr> as_source = AdHoc, as_model = ''m'', as_allowed_tools = None,
       as_use_plugins = None, as_max_iterations = None, as_max_retries = 0, as_mcp_servers = [], as_memory_spaces = [],
       as_thinking_effort = None, as_max_concurrent_subagents = None, as_instructions = None, as_plugins = [], as_auto_compact = None \<rparr>,
       sc_runtime = None, sc_plugins = [], sc_origin = OriginUser \<rparr>,
     sk_name = None, sk_created_at = 1, sk_annotations = [], sk_status = StatIdle, sk_sub_sessions = [] \<rparr>"

definition sample_sv_io :: sv_io where
  "sample_sv_io = \<lparr> vo_now = 200000, vo_instant = 200000, vo_fresh = ''new'', vo_parse = Some, vo_tells = (\<lambda>_. None),
     vo_offloads = (\<lambda>_. Some True) \<rparr>"

text \<open>One session, idle since the clock started, watched by a reader that asked a second ago.\<close>

definition sample_supervisor :: supervisor where
  "sample_supervisor = \<lparr> sv_last_activity = [(''x'', 0)],
     sv_revisions = \<lparr> rv_sessions = [(''x'', \<lparr> rg_agents = [(''main'', 7)], rg_polled = Some 199000 \<rparr>)], rv_list = 3 \<rparr> \<rparr>"

definition sample_registry :: registry where "sample_registry = [(''x'', sample_record)]"

lemma sample_registry_get [simp]: "bt_get sample_registry ''x'' = Some sample_record" "sk_status sample_record = StatIdle"
  "sk_sub_sessions sample_record = []"
  by (simp_all add: sample_registry_def bt_get_def sample_record_def)

section \<open>The registry follows the reports\<close>

definition supervise_all :: "nat \<Rightarrow> (sv_io \<times> supervisor_command) list \<Rightarrow> supervisor \<times> registry \<Rightarrow> supervisor \<times> registry" where
  "supervise_all timeout cs x = foldl (\<lambda>x (i, cmd). supervise i timeout cmd x) x cs"

text \<open>The last value a session reported of itself, and what it was before.\<close>

definition last_status :: "string \<Rightarrow> (sv_io \<times> supervisor_command) list \<Rightarrow> session_status \<Rightarrow> session_status" where
  "last_status sid cs st = foldl (\<lambda>st (_, cmd). case cmd of
     VSessionStatusChanged s new_st \<Rightarrow> if s = sid then new_st else st | _ \<Rightarrow> st) st cs"

definition last_rows :: "string \<Rightarrow> (sv_io \<times> supervisor_command) list \<Rightarrow> sub_session_row list \<Rightarrow> sub_session_row list" where
  "last_rows sid cs rows = foldl (\<lambda>rows (_, cmd). case cmd of
     VSubSessionsChanged s new_rows \<Rightarrow> if s = sid then new_rows else rows | _ \<Rightarrow> rows) rows cs"

definition keeps_session :: "string \<Rightarrow> sv_io \<times> supervisor_command \<Rightarrow> bool" where
  "keeps_session sid x \<longleftrightarrow> (case x of (i, cmd) \<Rightarrow> (case cmd of
     VDelete s _ \<Rightarrow> s \<noteq> sid | VCreate _ _ _ _ _ \<Rightarrow> vo_fresh i \<noteq> sid | _ \<Rightarrow> True))"

lemma vfx_simps [simp]: "vfx_events vfx_none = []" "vfx_events (record_events evs) = evs"
  "vfx_events (fx\<lparr> vfx_ack := a \<rparr>) = vfx_events fx"
  by (simp_all add: vfx_none_def record_events_def)

text \<open>The events of the commands that only route.\<close>

lemma routed_events:
  "routed_call i sid rq caller u reg v = (v', out, fx) \<Longrightarrow> vfx_events fx = []"
  "relayed i sid rq caller u reg v = (v', out, fx) \<Longrightarrow> vfx_events fx = []"
  "stop_supervised i sid agent caller reg v = (v', out, fx) \<Longrightarrow> vfx_events fx = []"
  "get_supervised i sid caller reg v = (v', out, fx) \<Longrightarrow> vfx_events fx = []"
  by (auto simp: routed_call_def relayed_def stop_supervised_def get_supervised_def sv_answer_def split: prod.splits option.splits)

text \<open>What each command writes.\<close>

definition written :: "sv_io \<Rightarrow> registry \<Rightarrow> supervisor_command \<Rightarrow> supervisor_event list" where
  "written i reg cmd = (case cmd of
     VCreate spec name created msg _ \<Rightarrow>
       (case vo_parse i (vo_fresh i) of
          Some s \<Rightarrow> if vo_tells i s = None then [SvCreated (vo_fresh i) spec name created] else [] | None \<Rightarrow> [])
   | VDelete sid _ \<Rightarrow> if bt_get reg sid = None then [] else [SvDeleted sid]
   | VSessionStatusChanged sid st \<Rightarrow>
       (case bt_get reg sid of Some rec \<Rightarrow> if sk_status rec \<noteq> st then [SvStatusChanged sid st] else [] | None \<Rightarrow> [])
   | VSubSessionsChanged sid rows \<Rightarrow>
       (case bt_get reg sid of Some rec \<Rightarrow> if sk_sub_sessions rec \<noteq> rows then [SvSubSessionsChanged sid rows] else [] | None \<Rightarrow> [])
   | VRenameSession sid name _ \<Rightarrow> [SvNamed sid name]
   | VSetSessionTitle sid name _ \<Rightarrow> (case normalize_session_title name of
       Inr title \<Rightarrow> if bt_get reg sid = None then [] else [SvNamed sid title] | Inl _ \<Rightarrow> [])
   | VSetSessionAnnotations sid new_set removed _ \<Rightarrow>
       if bt_get reg sid = None then [] else [SvAnnotationsSet sid new_set removed]
   | _ \<Rightarrow> [])"

lemma handle_written: "handle_supervisor i timeout cmd reg v = (v', out, fx) \<Longrightarrow> vfx_events fx = written i reg cmd"
  by (cases cmd)
    (auto simp: handle_supervisor_def written_def create_supervised_def sv_reach_def sv_answer_def sv_quiet_def delete_supervised_def
      await_list_def await_agent_def status_supervised_def sub_sessions_supervised_def title_supervised_def publish_title_def
      annotations_supervised_def Let_def dest!: routed_events
      split: option.splits prod.splits poll.splits sum.splits if_splits)

lemma supervise_written: "supervise i timeout cmd (v, reg) = (v', reg') \<Longrightarrow> reg' = foldl supervisor_apply reg (written i reg cmd)"
  by (auto simp: supervise_def handle_written split: prod.splits)

lemma supervise_record:
  assumes "supervise i timeout cmd (v, reg) = (v', reg')" "bt_get reg sid = Some rec" "keeps_session sid (i, cmd)"
  shows "\<exists>rec'. bt_get reg' sid = Some rec' \<and> sk_spec rec' = sk_spec rec \<and> sk_created_at rec' = sk_created_at rec \<and>
    sk_status rec' = last_status sid [(i, cmd)] (sk_status rec) \<and> sk_sub_sessions rec' = last_rows sid [(i, cmd)] (sk_sub_sessions rec)"
  using assms(2,3) unfolding supervise_written [OF assms(1)]
  by (cases cmd)
    (auto simp: written_def supervisor_apply_def bt_get_insert bt_get_remove bt_get_update keeps_session_def last_status_def last_rows_def
      split: option.splits sum.splits if_splits)

text \<open>
  C15: The registry says of a session what the session last said of itself. Through any commands, in any order,
  a session that is neither deleted nor made anew keeps its specification and its time of creation, its recorded
  status is the last it reported, and the sub sessions listed under it are the last roster it reported.\<close>

theorem registry_follows_the_reports:
  assumes "bt_get reg sid = Some rec" "supervise_all timeout cs (v, reg) = (v', reg')" "list_all (keeps_session sid) cs"
  shows "\<exists>rec'. bt_get reg' sid = Some rec' \<and> sk_spec rec' = sk_spec rec \<and> sk_created_at rec' = sk_created_at rec \<and>
    sk_status rec' = last_status sid cs (sk_status rec) \<and> sk_sub_sessions rec' = last_rows sid cs (sk_sub_sessions rec)"
  using assms
proof (induction cs arbitrary: v reg rec)
  case Nil
  then show ?case by (simp add: supervise_all_def last_status_def last_rows_def)
next
  case (Cons x cs)
  obtain i cmd where x: "x = (i, cmd)" by (cases x)
  obtain v1 reg1 where one: "supervise i timeout cmd (v, reg) = (v1, reg1)" by (metis surj_pair)
  from Cons.prems(3) x have keep: "keeps_session sid (i, cmd)" by simp
  from supervise_record [OF one Cons.prems(1) this] obtain rec1 where rec1: "bt_get reg1 sid = Some rec1"
    "sk_spec rec1 = sk_spec rec" "sk_created_at rec1 = sk_created_at rec"
    "sk_status rec1 = last_status sid [(i, cmd)] (sk_status rec)" "sk_sub_sessions rec1 = last_rows sid [(i, cmd)] (sk_sub_sessions rec)"
    by blast
  have rest: "supervise_all timeout cs (v1, reg1) = (v', reg')" using Cons.prems(2) one x by (simp add: supervise_all_def)
  show ?case
    using Cons.IH [OF rec1(1) rest] Cons.prems(3) rec1 x by (simp add: last_status_def last_rows_def)
qed

theorem registry_follows_the_reports_witness:
  "map_option sk_status (bt_get (snd (supervise_all 180000 [(sample_sv_io, VSessionStatusChanged ''x'' StatRunning),
     (sample_sv_io, VList 0), (sample_sv_io, VSessionStatusChanged ''x'' StatAwaitingInput)] (sample_supervisor, sample_registry))) ''x'')
   = Some StatAwaitingInput"
proof -
  let ?cs = "[(sample_sv_io, VSessionStatusChanged ''x'' StatRunning), (sample_sv_io, VList 0),
    (sample_sv_io, VSessionStatusChanged ''x'' StatAwaitingInput)]"
  obtain v' reg' where r: "supervise_all 180000 ?cs (sample_supervisor, sample_registry) = (v', reg')" by (metis surj_pair)
  have "list_all (keeps_session ''x'') ?cs" by (simp add: keeps_session_def)
  from registry_follows_the_reports [OF sample_registry_get(1) r this] r show ?thesis by (auto simp: last_status_def)
qed

text \<open>
  A report costs a write only when it is news: a status, or a roster of sub sessions, is journaled exactly when it
  differs from the one on record, and a session nobody has recorded is not written about.\<close>

theorem only_news_is_journaled:
  assumes "handle_supervisor i timeout cmd reg v = (v', out, fx)"
  shows "(SvStatusChanged sid st \<in> set (vfx_events fx) \<longleftrightarrow>
      cmd = VSessionStatusChanged sid st \<and> (\<exists>rec. bt_get reg sid = Some rec \<and> sk_status rec \<noteq> st)) \<and>
    (SvSubSessionsChanged sid rows \<in> set (vfx_events fx) \<longleftrightarrow>
      cmd = VSubSessionsChanged sid rows \<and> (\<exists>rec. bt_get reg sid = Some rec \<and> sk_sub_sessions rec \<noteq> rows))"
  unfolding handle_written [OF assms]
  by (cases cmd) (auto simp: written_def split: option.splits sum.splits if_splits dest: sym)

theorem only_news_is_journaled_witness:
  "SvStatusChanged ''x'' StatIdle \<notin> set (vfx_events (snd (snd
     (handle_supervisor sample_sv_io 180000 (VSessionStatusChanged ''x'' StatIdle) sample_registry sample_supervisor))))"
proof -
  obtain v' out fx where r: "handle_supervisor sample_sv_io 180000 (VSessionStatusChanged ''x'' StatIdle) sample_registry sample_supervisor = (v', out, fx)"
    by (metis prod_cases3)
  from only_news_is_journaled [OF r, of "''x''" StatIdle] r show ?thesis by simp
qed

section \<open>Unloading\<close>

text \<open>A session the sweep asks: known to be loaded, not at work by the record, silent for as long as the timeout.\<close>

definition is_candidate :: "sv_io \<Rightarrow> nat \<Rightarrow> registry \<Rightarrow> string \<Rightarrow> nat \<Rightarrow> bool" where
  "is_candidate i timeout reg sid spoken \<longleftrightarrow>
     map_option sk_status (bt_get reg sid) \<notin> {Some StatRunning, Some StatProvisioning} \<and> timeout \<le> vo_now i - spoken"

lemma candidates_iff:
  assumes "bt_wf (sv_last_activity v)"
  shows "sid \<in> set (idle_candidates i timeout reg v) \<longleftrightarrow>
    (\<exists>spoken. bt_get (sv_last_activity v) sid = Some spoken \<and> is_candidate i timeout reg sid spoken)"
proof -
  have "(case map_option sk_status (bt_get reg sid) of
        Some StatRunning \<Rightarrow> False | Some StatProvisioning \<Rightarrow> False | _ \<Rightarrow> vo_now i - spoken \<ge> timeout) = is_candidate i timeout reg sid spoken"
    for sid spoken
    by (cases "bt_get reg sid") (auto simp: is_candidate_def split: session_status.split)
  then have "idle_candidates i timeout reg v = map fst (filter (\<lambda>(sid, spoken). is_candidate i timeout reg sid spoken) (sv_last_activity v))"
    by (simp only: idle_candidates_def)
  then show ?thesis by (auto simp: bt_get_iff [OF assms] image_iff)
qed

lemma candidates_distinct: "bt_wf (sv_last_activity v) \<Longrightarrow> distinct (idle_candidates i timeout reg v)"
  unfolding idle_candidates_def by (rule distinct_map_filter [OF bt_wf_distinct])

lemma resident_forget: "sv_resident i sid (sv_forget i sid' v) = (if sid = sid' then None else sv_resident i sid v)"
  by (simp add: sv_resident_def sv_forget_def bt_get_remove)

text \<open>What the sweep leaves of one session's clock, and whom it asks.\<close>

definition swept :: "sv_io \<Rightarrow> string \<Rightarrow> nat option \<Rightarrow> nat option" where
  "swept i sid spoken = (case spoken of
     None \<Rightarrow> None
   | Some at \<Rightarrow> (case vo_parse i sid of
       None \<Rightarrow> Some at
     | Some s \<Rightarrow> if vo_offloads i s = Some False then Some (vo_now i) else None))"

lemma offload_each_get:
  assumes "offload_each i sids v = (v', out)" "distinct sids"
  shows "bt_get (sv_last_activity v') sid =
      (if sid \<in> set sids then swept i sid (bt_get (sv_last_activity v) sid) else bt_get (sv_last_activity v) sid) \<and>
    (m \<in> set out \<longleftrightarrow> (\<exists>sid \<in> set sids. \<exists>s. m = AskOffload s \<and> vo_parse i sid = Some s \<and> bt_get (sv_last_activity v) sid \<noteq> None))"
  using assms
proof (induction i sids v arbitrary: v' out rule: offload_each.induct)
  case (2 i sid0 sids v)
  show ?case
  proof (cases "sv_resident i sid0 v")
    case None
    then have "bt_get (sv_last_activity v) sid0 = None \<or> vo_parse i sid0 = None" by (auto simp: sv_resident_def split: if_splits)
    then have none: "swept i sid0 (bt_get (sv_last_activity v) sid0) = bt_get (sv_last_activity v) sid0"
      "\<nexists>s. vo_parse i sid0 = Some s \<and> bt_get (sv_last_activity v) sid0 \<noteq> None"
      by (auto simp: swept_def split: option.split)
    have "offload_each i sids v = (v', out)" "distinct sids" using 2(3,4) None by simp_all
    from 2(1) [OF None this] none show ?thesis by (auto simp del: not_None_eq)
  next
    case (Some s)
    then have s: "bt_get (sv_last_activity v) sid0 \<noteq> None" "vo_parse i sid0 = Some s" by (auto simp: sv_resident_def split: if_splits)
    define v1 where "v1 = (case vo_offloads i s of
              Some True \<Rightarrow> sv_forget i sid0 v
            | Some False \<Rightarrow> v\<lparr> sv_last_activity := bt_insert sid0 (vo_now i) (sv_last_activity v) \<rparr>
            | None \<Rightarrow> sv_forget i sid0 v)"
    obtain out2 where rest: "offload_each i sids v1 = (v', out2)" "out = AskOffload s # out2"
      using 2(3) Some by (auto simp: v1_def Let_def split: prod.splits)
    have v1: "bt_get (sv_last_activity v1) sid = (if sid = sid0 then swept i sid0 (bt_get (sv_last_activity v) sid0)
        else bt_get (sv_last_activity v) sid)" for sid
      using s by (auto simp: v1_def swept_def sv_forget_def bt_get_remove bt_get_insert split: option.split bool.split)
    have "sid0 \<notin> set sids" using 2(4) by simp
    then have same: "sid \<in> set sids \<Longrightarrow> bt_get (sv_last_activity v1) sid = bt_get (sv_last_activity v) sid" for sid
      using v1 by auto
    from 2(2) [OF Some v1_def rest(1)] 2(4) have IH:
      "bt_get (sv_last_activity v') sid =
        (if sid \<in> set sids then swept i sid (bt_get (sv_last_activity v1) sid) else bt_get (sv_last_activity v1) sid)"
      "m \<in> set out2 \<longleftrightarrow> (\<exists>sid \<in> set sids. \<exists>s. m = AskOffload s \<and> vo_parse i sid = Some s \<and> bt_get (sv_last_activity v1) sid \<noteq> None)"
      by simp_all
    show ?thesis
      using IH rest(2) s same \<open>sid0 \<notin> set sids\<close> by (auto simp: v1)
  qed
qed simp

text \<open>
  C16: Only a session that is idle and agrees is unloaded. A tick asks exactly the loaded sessions whose record says they
  are neither running nor being provisioned and that nobody has spoken to for as long as the timeout; one that
  refuses has its clock started again, one that agrees, or is gone, is no longer counted as loaded, every other
  keeps its clock as it was, and nothing is written.\<close>

theorem only_the_idle_are_unloaded:
  assumes "bt_wf (sv_last_activity v)" "handle_supervisor i timeout VTick reg v = (v', out, fx)"
  shows "bt_get (sv_last_activity v') sid =
      (case bt_get (sv_last_activity v) sid of
         Some spoken \<Rightarrow> if is_candidate i timeout reg sid spoken then swept i sid (Some spoken) else Some spoken | None \<Rightarrow> None) \<and>
    (m \<in> set out \<longleftrightarrow> (\<exists>sid spoken s. m = AskOffload s \<and> vo_parse i sid = Some s \<and>
       bt_get (sv_last_activity v) sid = Some spoken \<and> is_candidate i timeout reg sid spoken)) \<and>
    vfx_events fx = []"
proof -
  obtain v1 out1 where o: "offload_each i (idle_candidates i timeout reg v) v = (v1, out1)" by (metis surj_pair)
  then have r: "v' = v1" "out = out1" "vfx_events fx = []"
    using assms(2) by (simp_all add: handle_supervisor_def offload_idle_def)
  note get = offload_each_get [OF o candidates_distinct [OF assms(1)], of sid m]
  note cand = candidates_iff [OF assms(1)]
  have "bt_get (sv_last_activity v') sid =
      (case bt_get (sv_last_activity v) sid of
         Some spoken \<Rightarrow> if is_candidate i timeout reg sid spoken then swept i sid (Some spoken) else Some spoken | None \<Rightarrow> None)"
    using get [THEN conjunct1] by (cases "bt_get (sv_last_activity v) sid") (simp_all add: r cand)
  moreover have "m \<in> set out \<longleftrightarrow> (\<exists>sid spoken s. m = AskOffload s \<and> vo_parse i sid = Some s \<and>
       bt_get (sv_last_activity v) sid = Some spoken \<and> is_candidate i timeout reg sid spoken)"
    unfolding r get [THEN conjunct2] Bex_def cand by (metis option.distinct(1))
  ultimately show ?thesis using r by blast
qed

theorem only_the_idle_are_unloaded_witness:
  "bt_get (sv_last_activity (fst (handle_supervisor sample_sv_io 180000 VTick sample_registry sample_supervisor))) ''x'' = None \<and>
   AskOffload ''x'' \<in> set (fst (snd (handle_supervisor sample_sv_io 180000 VTick sample_registry sample_supervisor)))"
proof -
  obtain v' out fx where r: "handle_supervisor sample_sv_io 180000 VTick sample_registry sample_supervisor = (v', out, fx)" by (metis prod_cases3)
  have wf: "bt_wf (sv_last_activity sample_supervisor)" by (simp add: sample_supervisor_def bt_wf_def)
  have x: "bt_get (sv_last_activity sample_supervisor) ''x'' = Some 0" by (simp add: sample_supervisor_def bt_get_def)
  have c: "is_candidate sample_sv_io 180000 sample_registry ''x'' 0" by (simp add: is_candidate_def sample_sv_io_def)
  have io: "vo_parse sample_sv_io ''x'' = Some ''x''" "vo_offloads sample_sv_io ''x'' = Some True" by (simp_all add: sample_sv_io_def)
  note t = only_the_idle_are_unloaded [OF wf r]
  have "bt_get (sv_last_activity v') ''x'' = None" using t [of "''x''" "AskOffload ''x''"] x c io by (simp add: swept_def)
  moreover have "AskOffload ''x'' \<in> set out" using t [of "''x''" "AskOffload ''x''"] x c io by blast
  ultimately show ?thesis using r by simp
qed

section \<open>Loading\<close>

text \<open>The session a command is meant for, where it loads it.\<close>

definition meant_for :: "supervisor_command \<Rightarrow> string option" where
  "meant_for cmd = (case cmd of
     VGet sid _ \<Rightarrow> Some sid | VUserMessage sid _ _ _ _ \<Rightarrow> Some sid | VStop sid _ _ \<Rightarrow> Some sid | VDeleteAgent sid _ _ \<Rightarrow> Some sid
   | VDelete sid _ \<Rightarrow> Some sid | VReadLog sid _ _ _ \<Rightarrow> Some sid | VPageLog sid _ _ _ _ _ \<Rightarrow> Some sid
   | VSearchLog sid _ _ _ _ _ \<Rightarrow> Some sid | VSeqOfId sid _ _ _ \<Rightarrow> Some sid | VUsageStats sid _ \<Rightarrow> Some sid
   | VRuntimeCheckouts sid _ _ \<Rightarrow> Some sid | VRunState sid _ \<Rightarrow> Some sid | VRetryStep sid _ _ \<Rightarrow> Some sid
   | VAnswer sid _ _ _ \<Rightarrow> Some sid | VAgentDetail sid _ _ \<Rightarrow> Some sid | _ \<Rightarrow> None)"

definition reaches_session :: "uuid \<Rightarrow> supervisor_out \<Rightarrow> bool" where
  "reaches_session s m \<longleftrightarrow> (case m of SendSession t _ \<Rightarrow> t = s | AskOffload t \<Rightarrow> t = s | _ \<Rightarrow> False)"

lemma reaches_simps [simp]: "reaches_session s (SendSession t rq) \<longleftrightarrow> t = s" "reaches_session s (AskOffload t) \<longleftrightarrow> t = s"
  "\<not> reaches_session s (AnswerAt c a)" "\<not> reaches_session s (RelayAnswer c a)" "\<not> reaches_session s (WaitList c n)"
  "\<not> reaches_session s (PollAgent c sid ag seen)"
  by (simp_all add: reaches_session_def)

definition forgets :: "supervisor \<Rightarrow> supervisor \<Rightarrow> bool" where
  "forgets v v' \<longleftrightarrow> (\<forall>sid. bt_get (sv_last_activity v') sid \<noteq> None \<longrightarrow> bt_get (sv_last_activity v) sid \<noteq> None)"

lemma forgets_simps [simp]: "forgets v v" "forgets v (sv_forget i sid v)" "forgets v (list_changed v)"
  by (auto simp: forgets_def sv_forget_def bt_get_remove list_changed_def)

lemma forgetsD: "forgets v v' \<Longrightarrow> bt_get (sv_last_activity v') sid \<noteq> None \<Longrightarrow> bt_get (sv_last_activity v) sid \<noteq> None"
  by (simp add: forgets_def)

lemma forgets_trans: "forgets v v1 \<Longrightarrow> forgets v1 v2 \<Longrightarrow> forgets v v2"
  by (simp add: forgets_def)

text \<open>Whatever is sent goes to a session known to be loaded.\<close>

definition to_loaded :: "sv_io \<Rightarrow> supervisor \<Rightarrow> supervisor_out list \<Rightarrow> bool" where
  "to_loaded i v out \<longleftrightarrow> (\<forall>m \<in> set out. \<forall>s. reaches_session s m \<longrightarrow>
     (\<exists>sid. vo_parse i sid = Some s \<and> bt_get (sv_last_activity v) sid \<noteq> None))"

lemma to_loaded_simps [simp]: "to_loaded i v []"
  "to_loaded i v (m # out) \<longleftrightarrow> (\<forall>s. reaches_session s m \<longrightarrow> (\<exists>sid. vo_parse i sid = Some s \<and> bt_get (sv_last_activity v) sid \<noteq> None)) \<and> to_loaded i v out"
  "to_loaded i v (out @ out') \<longleftrightarrow> to_loaded i v out \<and> to_loaded i v out'"
  by (auto simp: to_loaded_def)

lemma to_loaded_forgets: "to_loaded i v1 out \<Longrightarrow> forgets v v1 \<Longrightarrow> to_loaded i v out"
  unfolding to_loaded_def using forgetsD by blast

lemma resident_loaded: "sv_resident i sid v = Some s \<Longrightarrow> vo_parse i sid = Some s \<and> bt_get (sv_last_activity v) sid \<noteq> None"
  by (simp add: sv_resident_def split: if_splits)

lemma offload_loads_nothing: "offload_each i sids v = (v', out) \<Longrightarrow> forgets v v' \<and> to_loaded i v out"
proof (induction i sids v arbitrary: v' out rule: offload_each.induct)
  case (2 i sid0 sids v)
  show ?case
  proof (cases "sv_resident i sid0 v")
    case None
    then show ?thesis using 2(1) [OF None] 2(3) by simp
  next
    case (Some s)
    define v1 where "v1 = (case vo_offloads i s of
              Some True \<Rightarrow> sv_forget i sid0 v
            | Some False \<Rightarrow> v\<lparr> sv_last_activity := bt_insert sid0 (vo_now i) (sv_last_activity v) \<rparr>
            | None \<Rightarrow> sv_forget i sid0 v)"
    obtain out2 where rest: "offload_each i sids v1 = (v', out2)" "out = AskOffload s # out2"
      using 2(3) Some by (auto simp: v1_def Let_def split: prod.splits)
    have "forgets v (v\<lparr> sv_last_activity := bt_insert sid0 (vo_now i) (sv_last_activity v) \<rparr>)"
      using resident_loaded [OF Some] by (auto simp: forgets_def bt_get_insert)
    then have v1: "forgets v v1" by (simp add: v1_def split: option.split bool.split)
    from 2(2) [OF Some v1_def rest(1)] v1 show ?thesis
      using forgets_trans to_loaded_forgets resident_loaded [OF Some] rest(2) by auto
  qed
qed simp

lemma shutdown_loads_nothing: "shutdown_each i sids v = (v', out) \<Longrightarrow> forgets v v' \<and> to_loaded i v out"
proof (induction i sids v arbitrary: v' out rule: shutdown_each.induct)
  case (2 i sid0 sids v)
  obtain v2 out2 where rest: "shutdown_each i sids (sv_forget i sid0 v) = (v2, out2)" by (metis surj_pair)
  have "to_loaded i v (case sv_resident i sid0 v of Some s \<Rightarrow> [AskOffload s] | None \<Rightarrow> [])"
    using resident_loaded [of i sid0 v] by (auto split: option.split)
  then show ?case
    using 2(1) [OF refl rest] 2(2) rest forgets_trans [of v "sv_forget i sid0 v"] to_loaded_forgets [of i "sv_forget i sid0 v" out2 v]
    by (auto simp: Let_def)
qed simp

text \<open>A command that is not meant for a session, and one meant for a session nobody knows.\<close>

lemma session_unknown: "bt_get reg sid = None \<Longrightarrow> sv_session i sid reg v = (v, None)"
  by (simp add: sv_session_def)

lemma session_loads: "sv_session i sid reg v = (v1, Some s) \<Longrightarrow> bt_get reg sid \<noteq> None \<and> vo_parse i sid = Some s \<and>
    sv_last_activity v1 = bt_insert sid (vo_now i) (sv_last_activity v)"
  by (auto simp: sv_session_def sv_reach_def split: if_splits option.splits)



section \<open>Creating\<close>



section \<open>The state keeps its types\<close>

text \<open>What moves the supervisor: a command, or a frame of a session's feed that its counters mirror.\<close>

datatype supervisor_move = SvCommand sv_io supervisor_command | SvFrame string string u64

definition supervisor_moved :: "nat \<Rightarrow> supervisor \<times> registry \<Rightarrow> supervisor_move \<Rightarrow> supervisor \<times> registry" where
  "supervisor_moved timeout x mv = (case mv of
     SvCommand i cmd \<Rightarrow> supervise i timeout cmd x
   | SvFrame sid agent n \<Rightarrow> (case x of (v, reg) \<Rightarrow>
       (v\<lparr> sv_revisions := rev_put sid (mirror_frame agent n (revisions_of (sv_revisions v) sid)) (sv_revisions v) \<rparr>, reg)))"

definition typed_revisions :: "session_revisions \<Rightarrow> bool" where
  "typed_revisions rv \<longleftrightarrow> bt_wf (rv_sessions rv) \<and> (\<forall>sid reg. bt_get (rv_sessions rv) sid = Some reg \<longrightarrow> bt_wf (rg_agents reg))"

definition typed_registry :: "registry \<Rightarrow> bool" where
  "typed_registry reg \<longleftrightarrow> bt_wf reg \<and> (\<forall>sid rec. bt_get reg sid = Some rec \<longrightarrow> bt_wf (sk_annotations rec))"

definition typed_supervisor :: "(string \<Rightarrow> uuid option) \<Rightarrow> supervisor \<Rightarrow> bool" where
  "typed_supervisor parse v \<longleftrightarrow> bt_wf (sv_last_activity v) \<and> typed_revisions (sv_revisions v) \<and>
     (\<forall>sid. bt_get (sv_last_activity v) sid \<noteq> None \<longrightarrow> parse sid \<noteq> None)"

lemma typed_new: "typed_supervisor parse supervisor_new" "typed_registry []"
  by (simp_all add: typed_supervisor_def typed_revisions_def typed_registry_def supervisor_new_def bt_get_def bt_wf_def)

lemma bt_wf_fold_insert: "bt_wf m \<Longrightarrow> bt_wf (fold (\<lambda>(k, v). bt_insert k v) kvs m)"
  by (induction kvs arbitrary: m) (auto simp: bt_wf_insert)

lemma typed_annotate: "bt_wf m \<Longrightarrow> bt_wf (annotate set_keys removed m)"
  by (simp add: annotate_def bt_wf_fold_insert bt.wf_del_all)

lemma typed_apply: "typed_registry reg \<Longrightarrow> typed_registry (supervisor_apply reg ev)"
  by (cases ev) (auto simp: typed_registry_def supervisor_apply_def bt_get_insert bt_get_remove bt_get_update bt_wf_insert
    bt.wf_del bt.wf_modify typed_annotate bt_wf_def [of "[]"] split: if_splits)

lemma typed_applied: "typed_registry reg \<Longrightarrow> typed_registry (foldl supervisor_apply reg evs)"
  by (induction evs arbitrary: reg) (auto simp: typed_apply)

text \<open>The moves a handler makes of the supervisor are a few: a session is reached, forgotten, heard of, or asked about.\<close>

lemma typed_bump: "typed_supervisor parse v \<Longrightarrow> typed_supervisor parse (list_changed v)"
  by (simp add: typed_supervisor_def list_changed_def typed_revisions_def bump_list_def)

lemma typed_release: "typed_revisions rv \<Longrightarrow> typed_revisions (release now sid rv)"
  by (auto simp: typed_revisions_def release_def bt_get_remove bt.wf_del split: if_splits)

lemma typed_put: "typed_revisions rv \<Longrightarrow> bt_wf (rg_agents reg) \<Longrightarrow> typed_revisions (rev_put sid reg rv)"
  by (auto simp: typed_revisions_def rev_put_def bt_get_insert bt_wf_insert split: if_splits)

lemma typed_counters: "typed_revisions rv \<Longrightarrow> bt_wf (rg_agents (revisions_of rv sid))"
  by (auto simp: typed_revisions_def revisions_of_def revisions_new_def bt_wf_def split: option.split)

lemma typed_forget: "typed_supervisor parse v \<Longrightarrow> typed_supervisor parse (sv_forget i sid v)"
  by (auto simp: typed_supervisor_def sv_forget_def bt_get_remove typed_release bt.wf_del split: if_splits)

lemma typed_spoken: "typed_supervisor parse v \<Longrightarrow> parse sid = Some s \<Longrightarrow>
    typed_supervisor parse (v\<lparr> sv_last_activity := bt_insert sid now (sv_last_activity v) \<rparr>)"
  by (auto simp: typed_supervisor_def bt_get_insert bt_wf_insert split: if_splits)

lemma typed_reach: "typed_supervisor (vo_parse i) v \<Longrightarrow> sv_reach i sid v = (v1, s) \<Longrightarrow> typed_supervisor (vo_parse i) v1"
  "typed_supervisor (vo_parse i) v \<Longrightarrow> sv_session i sid reg v = (v1, s) \<Longrightarrow> typed_supervisor (vo_parse i) v1"
  by (auto simp: sv_session_def sv_reach_def dest: sym intro: typed_spoken split: option.splits if_splits)

lemma typed_offload: "typed_supervisor (vo_parse i) v \<Longrightarrow> offload_each i sids v = (v', out) \<Longrightarrow> typed_supervisor (vo_parse i) v'"
proof (induction i sids v arbitrary: v' out rule: offload_each.induct)
  case (2 i sid sids v)
  show ?case
  proof (cases "sv_resident i sid v")
    case None
    then show ?thesis using 2 by simp
  next
    case (Some s)
    define v1 where "v1 = (case vo_offloads i s of
              Some True \<Rightarrow> sv_forget i sid v
            | Some False \<Rightarrow> v\<lparr> sv_last_activity := bt_insert sid (vo_now i) (sv_last_activity v) \<rparr>
            | None \<Rightarrow> sv_forget i sid v)"
    from Some have "vo_parse i sid = Some s" by (auto simp: sv_resident_def split: if_splits)
    then have "typed_supervisor (vo_parse i) v1"
      unfolding v1_def using 2(3) by (auto simp: typed_forget typed_spoken split: option.split bool.split)
    then show ?thesis using 2(2) [OF Some v1_def] 2(4) Some by (auto simp: v1_def Let_def split: prod.splits)
  qed
qed simp

lemma typed_shutdown: "typed_supervisor parse v \<Longrightarrow> shutdown_each i sids v = (v', out) \<Longrightarrow> typed_supervisor parse v'"
  by (induction i sids v arbitrary: v' out rule: shutdown_each.induct) (auto simp: Let_def typed_forget split: prod.splits)

lemma typed_asked: "typed_supervisor parse v \<Longrightarrow>
    typed_supervisor parse (v\<lparr> sv_revisions := rev_put sid (rev_touch now (revisions_of (sv_revisions v) sid)) (sv_revisions v) \<rparr>)"
  by (simp add: typed_supervisor_def typed_put typed_counters rev_touch_def)

lemma typed_frame: "typed_supervisor parse v \<Longrightarrow>
    typed_supervisor parse (v\<lparr> sv_revisions := rev_put sid (mirror_frame agent n (revisions_of (sv_revisions v) sid)) (sv_revisions v) \<rparr>)"
  by (simp add: typed_supervisor_def typed_put typed_counters mirror_frame_def bt_wf_insert)

lemma typed_handlers:
  assumes "typed_supervisor (vo_parse i) v"
  shows "routed_call i sid rq caller u reg v = (v', out, fx) \<Longrightarrow> typed_supervisor (vo_parse i) v'"
    "relayed i sid rq caller u reg v = (v', out, fx) \<Longrightarrow> typed_supervisor (vo_parse i) v'"
    "stop_supervised i sid agent caller reg v = (v', out, fx) \<Longrightarrow> typed_supervisor (vo_parse i) v'"
    "delete_supervised i sid caller reg v = (v', out, fx) \<Longrightarrow> typed_supervisor (vo_parse i) v'"
    "create_supervised i spec name created msg caller v = (v', out, fx) \<Longrightarrow> typed_supervisor (vo_parse i) v'"
  using assms
  by (auto simp: routed_call_def relayed_def stop_supervised_def delete_supervised_def create_supervised_def sv_answer_def Let_def
    dest: typed_reach intro: typed_forget typed_bump split: prod.splits option.splits if_splits)

lemma typed_get: "typed_supervisor (vo_parse i) v \<Longrightarrow> get_supervised i sid caller reg v = (v', out, fx) \<Longrightarrow> typed_supervisor (vo_parse i) v'"
  by (auto simp: get_supervised_def sv_answer_def dest: typed_handlers(2) split: option.splits)

lemma typed_handle: "typed_supervisor (vo_parse i) v \<Longrightarrow> handle_supervisor i timeout cmd reg v = (v', out, fx) \<Longrightarrow>
    typed_supervisor (vo_parse i) v'"
  by (cases cmd)
    (auto simp: handle_supervisor_def sv_answer_def sv_quiet_def await_list_def await_agent_def offload_idle_def
      status_supervised_def sub_sessions_supervised_def title_supervised_def publish_title_def annotations_supervised_def
    dest: typed_handlers typed_get typed_offload typed_shutdown intro: typed_bump typed_asked
    split: poll.splits option.splits prod.splits sum.splits if_splits)



section \<open>Readers\<close>

text \<open>What the supervisor does with a session's counters keeps those a reader is waiting on.\<close>

lemma release_keeps:
  "watched now (revisions_of rv sid) \<Longrightarrow> revisions_of (release now sid' rv) sid = revisions_of rv sid"
  by (auto simp: release_def revisions_of_def bt_get_remove watched_def revisions_new_def split: option.splits)

lemma forget_keeps: "watched (vo_instant i) (revisions_of (sv_revisions v) sid) \<Longrightarrow>
    revisions_of (sv_revisions (sv_forget i sid' v)) sid = revisions_of (sv_revisions v) sid"
  by (simp add: sv_forget_def release_keeps)

lemma offload_keeps: "offload_each i sids v = (v', out) \<Longrightarrow> watched (vo_instant i) (revisions_of (sv_revisions v) sid) \<Longrightarrow>
    revisions_of (sv_revisions v') sid = revisions_of (sv_revisions v) sid"
proof (induction i sids v arbitrary: v' out rule: offload_each.induct)
  case (2 i sid0 sids v)
  show ?case
  proof (cases "sv_resident i sid0 v")
    case None
    then show ?thesis using 2 by simp
  next
    case (Some s)
    define v1 where "v1 = (case vo_offloads i s of
              Some True \<Rightarrow> sv_forget i sid0 v
            | Some False \<Rightarrow> v\<lparr> sv_last_activity := bt_insert sid0 (vo_now i) (sv_last_activity v) \<rparr>
            | None \<Rightarrow> sv_forget i sid0 v)"
    obtain out2 where rest: "offload_each i sids v1 = (v', out2)"
      using 2(3) Some by (auto simp: v1_def Let_def split: prod.splits)
    have "revisions_of (sv_revisions v1) sid = revisions_of (sv_revisions v) sid"
      using forget_keeps [OF 2(4)] by (simp add: v1_def split: option.split bool.split)
    with 2(2) [OF Some v1_def rest] 2(4) show ?thesis by simp
  qed
qed simp

lemma shutdown_keeps: "shutdown_each i sids v = (v', out) \<Longrightarrow> watched (vo_instant i) (revisions_of (sv_revisions v) sid) \<Longrightarrow>
    revisions_of (sv_revisions v') sid = revisions_of (sv_revisions v) sid"
proof (induction i sids v arbitrary: v' out rule: shutdown_each.induct)
  case (2 i sid0 sids v)
  obtain v2 out2 where rest: "shutdown_each i sids (sv_forget i sid0 v) = (v2, out2)" by (metis surj_pair)
  then show ?case using 2(1) [OF refl rest] 2(2,3) forget_keeps [OF 2(3), of sid0] by (simp add: Let_def split: option.splits)
qed simp

lemma reach_revisions [simp]: "sv_session i sid reg v = (v1, s) \<Longrightarrow> sv_revisions v1 = sv_revisions v"
  "sv_reach i sid v = (v1, s) \<Longrightarrow> sv_revisions v1 = sv_revisions v"
  by (auto simp: sv_session_def sv_reach_def split: if_splits option.splits)

text \<open>
  C25: A reader that keeps asking is not cut off. While somebody has asked about a session within the retention, which is
  longer than a poll takes, no command the supervisor handles, unloading or deleting the session among them, loses
  or moves any of its counters: a poll that has seen the current value goes on waiting and is never answered by a
  change that did not happen.\<close>

theorem watched_counters_survive:
  assumes "handle_supervisor i timeout cmd reg v = (v', out, fx)" "rg_polled (revisions_of (sv_revisions v) sid) = Some at"
    "vo_instant i - at < WATCH_RETENTION"
  shows "rg_agents (revisions_of (sv_revisions v') sid) = rg_agents (revisions_of (sv_revisions v) sid) \<and>
    poll_agent (sv_revisions v') sid agent seen = poll_agent (sv_revisions v) sid agent seen"
proof -
  have w: "watched (vo_instant i) (revisions_of (sv_revisions v) sid)" using assms(2,3) by (simp add: watched_def)
  have list: "revisions_of (sv_revisions (list_changed v0)) sid = revisions_of (sv_revisions v0) sid" for v0
    by (simp add: list_changed_def bump_list_def revisions_of_def)
  have put: "rg_agents (revisions_of (rev_put sid' (rev_touch now (revisions_of rv sid')) rv) sid) = rg_agents (revisions_of rv sid)" for sid' now rv
    by (simp add: revisions_of_def rev_put_def bt_get_insert rev_touch_def)
  have "rg_agents (revisions_of (sv_revisions v') sid) = rg_agents (revisions_of (sv_revisions v) sid)"
    using assms(1)
    by (cases cmd) (auto simp: handle_supervisor_def create_supervised_def routed_call_def relayed_def stop_supervised_def get_supervised_def
      delete_supervised_def sv_answer_def sv_quiet_def await_list_def await_agent_def offload_idle_def Let_def list put
      status_supervised_def sub_sessions_supervised_def title_supervised_def publish_title_def annotations_supervised_def
      offload_keeps [OF _ w] shutdown_keeps [OF _ w] forget_keeps w
      split: poll.splits option.splits prod.splits sum.splits if_splits)
  then show ?thesis by (simp add: poll_agent_def agent_revision_def)
qed

theorem watched_counters_survive_witness:
  "rg_agents (revisions_of (sv_revisions (fst (handle_supervisor sample_sv_io 180000 VTick sample_registry sample_supervisor))) ''x'')
   = [(''main'', 7)]"
proof -
  obtain v' out fx where r: "handle_supervisor sample_sv_io 180000 VTick sample_registry sample_supervisor = (v', out, fx)" by (metis prod_cases3)
  have x: "revisions_of (sv_revisions sample_supervisor) ''x'' = \<lparr> rg_agents = [(''main'', 7)], rg_polled = Some 199000 \<rparr>"
    by (simp add: sample_supervisor_def revisions_of_def bt_get_def)
  have "rg_polled (revisions_of (sv_revisions sample_supervisor) ''x'') = Some 199000" "vo_instant sample_sv_io - 199000 < WATCH_RETENTION"
    by (simp_all add: x sample_sv_io_def WATCH_RETENTION_def)
  from watched_counters_survive [OF r this] r x show ?thesis by simp
qed

section \<open>Where the list counter is wrong\<close>

text \<open>
  C37: A deleted session does not leave an open list. Deleting a session, and tagging one, change the list but not the
  counter its readers wait on: a reader that has seen the current value goes on waiting, with the deleted
  session still on its screen, until something else moves the list.\<close>

theorem deletion_wakes_no_list_reader:
  assumes "bt_get reg sid = Some rec" "cmd = VDelete sid caller \<or> cmd = VSetSessionAnnotations sid new_set removed caller"
    "handle_supervisor i timeout cmd reg v = (v', out, fx)" "reg' = foldl supervisor_apply reg (vfx_events fx)"
    "seen = Some (rv_list (sv_revisions v))"
  shows "bt_get reg' sid = (if cmd = VDelete sid caller then None
      else Some (rec\<lparr> sk_annotations := annotate new_set removed (sk_annotations rec) \<rparr>)) \<and>
    rv_list (sv_revisions v') = rv_list (sv_revisions v) \<and>
    await_list seen reader v' = (v', [WaitList reader (rv_list (sv_revisions v))], vfx_none)"
proof -
  have "rv_list (release now sid rv) = rv_list rv" for now rv by (simp add: release_def)
  then have "rv_list (sv_revisions v') = rv_list (sv_revisions v)"
    using assms(1-3) by (auto simp: handle_supervisor_def delete_supervised_def annotations_supervised_def sv_forget_def sv_answer_def
      split: prod.splits)
  moreover have "bt_get reg' sid = (if cmd = VDelete sid caller then None
      else Some (rec\<lparr> sk_annotations := annotate new_set removed (sk_annotations rec) \<rparr>))"
    using assms(1,2) unfolding assms(4) handle_written [OF assms(3)]
    by (auto simp: written_def supervisor_apply_def bt_get_remove bt_get_update)
  ultimately show ?thesis using assms(5) by (simp add: await_list_def poll_revision_def)
qed

theorem deletion_wakes_no_list_reader_witness:
  "bt_get (foldl supervisor_apply sample_registry (vfx_events (snd (snd
     (handle_supervisor sample_sv_io 180000 (VDelete ''x'' 0) sample_registry sample_supervisor))))) ''x'' = None \<and>
   rv_list (sv_revisions (fst (handle_supervisor sample_sv_io 180000 (VDelete ''x'' 0) sample_registry sample_supervisor))) = 3"
proof -
  obtain v' out fx where r: "handle_supervisor sample_sv_io 180000 (VDelete ''x'' 0) sample_registry sample_supervisor = (v', out, fx)"
    by (metis prod_cases3)
  from deletion_wakes_no_list_reader [OF sample_registry_get(1) disjI1 [OF refl] r refl refl] r show ?thesis
    by (simp add: sample_supervisor_def)
qed



end
