(* ===== verification/Spec2Isabelle.thy ===== *)
theory Spec2Isabelle
  imports Agent_System Session_Lapses Session_Registry
begin

text \<open>
  A verification library for the agent engine of horsie.
\<close>

end
